(* ===== verification/PA_Prelude.thy ===== *)
theory PA_Prelude
  imports "HOL-Library.Word"
begin

text \<open>
  Shared vocabulary of the development: the machine types of the C sources, the
  collections the component proofs draw from, and the generic facts on lists,
  association lists and words that several components need.

  The C code keeps its state in fixed arrays that it scans with counting loops.
  A loop that stops at the first (or remembers the last) entry satisfying a
  condition is modelled by \<open>find_index\<close> (or \<open>find_last_index\<close>); a loop that
  writes two disjoint banks of registers is a \<open>fold\<close> of function updates, for
  which \<open>fold_two_banks\<close> gives the closed form.
\<close>

unbundle bit_operations_syntax

type_synonym u8 = "8 word"
type_synonym u32 = "32 word"
type_synonym u64 = "64 word"

text \<open>A \<open>struct task_struct *\<close>; the null pointer is 0.\<close>
type_synonym task = "64 word"

abbreviation NULL :: "64 word" where "NULL \<equiv> 0"

named_theorems lbr_simps \<open>rewriting of the LBR register operations\<close>
named_theorems wf_intros \<open>preservation of well-formedness\<close>

section \<open>First and last matching index\<close>

fun find_index :: "('a \<Rightarrow> bool) \<Rightarrow> 'a list \<Rightarrow> nat option" where
  "find_index P [] = None"
| "find_index P (x # xs) = (if P x then Some 0 else map_option Suc (find_index P xs))"

fun find_last_index :: "('a \<Rightarrow> bool) \<Rightarrow> 'a list \<Rightarrow> nat option" where
  "find_last_index P [] = None"
| "find_last_index P (x # xs) =
    (case find_last_index P xs of Some i \<Rightarrow> Some (Suc i) | None \<Rightarrow> if P x then Some 0 else None)"

lemma find_index_None_iff: "find_index P xs = None \<longleftrightarrow> (\<forall>x \<in> set xs. \<not> P x)"
  by (induction xs) auto

lemma find_index_NoneI: "(\<And>x. x \<in> set xs \<Longrightarrow> \<not> P x) \<Longrightarrow> find_index P xs = None"
  by (simp add: find_index_None_iff)

lemma find_index_SomeD:
  "find_index P xs = Some i \<Longrightarrow> i < length xs \<and> P (xs ! i) \<and> (\<forall>j < i. \<not> P (xs ! j))"
proof (induction xs arbitrary: i)
  case (Cons x xs)
  then show ?case
    by (cases i) (auto simp: less_Suc_eq_0_disj split: if_splits)
qed simp

lemma find_index_Some_iff:
  "find_index P xs = Some i \<longleftrightarrow> i < length xs \<and> P (xs ! i) \<and> (\<forall>j < i. \<not> P (xs ! j))"
proof (intro iffI)
  assume rhs: "i < length xs \<and> P (xs ! i) \<and> (\<forall>j < i. \<not> P (xs ! j))"
  then have "find_index P xs \<noteq> None" by (auto simp: find_index_None_iff)
  then obtain k where k: "find_index P xs = Some k" by blast
  from find_index_SomeD [OF k] rhs have "\<not> k < i" "\<not> i < k" by auto
  then have "k = i" by simp
  with k show "find_index P xs = Some i" by simp
qed (rule find_index_SomeD)

lemma find_index_Some_ex: "x \<in> set xs \<Longrightarrow> P x \<Longrightarrow> \<exists>i. find_index P xs = Some i"
  using find_index_None_iff [of P xs] by (cases "find_index P xs") auto

lemma find_index_lt: "find_index P xs = Some i \<Longrightarrow> i < length xs"
  by (simp add: find_index_SomeD)

lemma find_index_holds: "find_index P xs = Some i \<Longrightarrow> P (xs ! i)"
  by (simp add: find_index_SomeD)

lemma find_index_unique:
  assumes "i < length xs" "P (xs ! i)" "\<And>j. j < length xs \<Longrightarrow> P (xs ! j) \<Longrightarrow> j = i"
  shows "find_index P xs = Some i"
proof -
  have "\<not> P (xs ! j)" if "j < i" for j
    using assms(3) [of j] assms(1) that by auto
  with assms(1,2) show ?thesis by (simp add: find_index_Some_iff)
qed

lemma find_last_index_None_iff:
  "find_last_index P xs = None \<longleftrightarrow> (\<forall>x \<in> set xs. \<not> P x)"
  by (induction xs) (auto split: option.splits)

lemma find_last_index_SomeD:
  "find_last_index P xs = Some i \<Longrightarrow>
    i < length xs \<and> P (xs ! i) \<and> (\<forall>j < length xs. i < j \<longrightarrow> \<not> P (xs ! j))"
proof (induction xs arbitrary: i)
  case (Cons x xs)
  show ?case
  proof (cases "find_last_index P xs")
    case None
    with Cons.prems have "i = 0" "P x" by (auto split: if_splits)
    with None show ?thesis by (auto simp: find_last_index_None_iff nth_Cons' )
  next
    case (Some k)
    with Cons.prems have "i = Suc k" by simp
    with Cons.IH [OF Some] show ?thesis by (auto simp: nth_Cons')
  qed
qed simp

lemma find_last_index_unique:
  assumes "i < length xs" "P (xs ! i)" "\<And>j. j < length xs \<Longrightarrow> P (xs ! j) \<Longrightarrow> j = i"
  shows "find_last_index P xs = Some i"
proof -
  have "find_last_index P xs \<noteq> None"
    using assms(1,2) by (auto simp: find_last_index_None_iff)
  then obtain k where k: "find_last_index P xs = Some k" by blast
  from find_last_index_SomeD [OF k] have "k = i" by (blast intro: assms(3))
  with k show ?thesis by simp
qed

section \<open>Tables with at most one slot per owner\<close>

text \<open>
  The module's caches are arrays of entries tagged with the task that owns them,
  0 for a free entry.  \<open>sole_owner\<close> says that no task owns two entries, which is
  what makes the first match of a scan the only match.
\<close>

definition sole_owner :: "('e \<Rightarrow> task) \<Rightarrow> 'e list \<Rightarrow> bool" where
  "sole_owner own es \<longleftrightarrow>
    (\<forall>i < length es. \<forall>j < length es. own (es ! i) = own (es ! j) \<longrightarrow> own (es ! i) \<noteq> NULL \<longrightarrow> i = j)"

abbreviation slot_of :: "('e \<Rightarrow> task) \<Rightarrow> task \<Rightarrow> 'e list \<Rightarrow> nat option" where
  "slot_of own t es \<equiv> find_index (\<lambda>e. own e = t) es"

lemma sole_owner_slot:
  assumes "sole_owner own es" "i < length es" "own (es ! i) = t" "t \<noteq> NULL"
  shows "slot_of own t es = Some i"
  using assms by (intro find_index_unique) (auto simp: sole_owner_def)

lemma sole_owner_update:
  assumes "sole_owner own es" "own e = NULL \<or> own e = own (es ! i) \<or> slot_of own (own e) es = None"
  shows "sole_owner own (es[i := e])"
proof (cases "i < length es")
  case True
  have old: "p = q" if "p < length es" "q < length es" "own (es ! p) = own (es ! q)"
    "own (es ! p) \<noteq> NULL" for p q
    using assms(1) that unfolding sole_owner_def by blast
  have new: "p = i" if "p < length es" "own (es ! p) = own e" "own e \<noteq> NULL" for p
    using assms(2) that old [OF that(1) True] nth_mem [OF that(1)]
    by (auto simp: find_index_None_iff)
  show ?thesis
    unfolding sole_owner_def
  proof (intro allI impI)
    fix p q assume "p < length (es[i := e])" "q < length (es[i := e])"
      "own (es[i := e] ! p) = own (es[i := e] ! q)" "own (es[i := e] ! p) \<noteq> NULL"
    with True show "p = q"
      by (cases "p = i"; cases "q = i") (auto dest: old new new [symmetric] simp: new)
  qed
qed (use assms(1) in \<open>simp add: list_update_beyond\<close>)

lemma slot_of_update_same:
  assumes "sole_owner own (es[i := e])" "i < length es" "own e \<noteq> NULL"
  shows "slot_of own (own e) (es[i := e]) = Some i"
  using assms by (intro sole_owner_slot) auto

lemma slot_of_update_other:
  assumes "own e \<noteq> t" "i < length es \<Longrightarrow> own (es ! i) \<noteq> t"
  shows "slot_of own t (es[i := e]) = slot_of own t es"
  using assms
proof (induction es arbitrary: i)
  case (Cons x xs)
  then show ?case by (cases i) auto
qed simp

lemma slot_of_release:
  assumes "sole_owner own es" "slot_of own t es = Some i" "t \<noteq> NULL" "own e \<noteq> t"
  shows "slot_of own t (es[i := e]) = None"
proof (rule find_index_NoneI)
  fix x assume "x \<in> set (es[i := e])"
  then obtain j where j: "j < length es" "x = es[i := e] ! j" by (auto simp: in_set_conv_nth)
  show "own x \<noteq> t"
  proof (cases "j = i")
    case False
    with j assms(1-3) show ?thesis
      using sole_owner_slot [of own es j t] by auto
  qed (use j assms(4) in simp)
qed

lemma sole_owner_replicate: "own e = NULL \<Longrightarrow> sole_owner own (replicate n e)"
  by (simp add: sole_owner_def)

text \<open>The number of occupied entries; a table with fewer occupied entries than slots has a free one.\<close>

definition occupied :: "('e \<Rightarrow> task) \<Rightarrow> 'e list \<Rightarrow> nat" where
  "occupied own es = length (filter (\<lambda>e. own e \<noteq> NULL) es)"

lemma occupied_free_slot:
  "occupied own es < length es \<Longrightarrow> \<exists>i. slot_of own NULL es = Some i"
proof (rule ccontr)
  assume lt: "occupied own es < length es" and "\<nexists>i. slot_of own NULL es = Some i"
  then have "\<forall>e \<in> set es. own e \<noteq> NULL" by (auto simp flip: find_index_None_iff)
  then have "occupied own es = length es" by (simp add: occupied_def)
  with lt show False by simp
qed

lemma sole_owner_Cons:
  assumes "sole_owner own (x # xs)"
  shows "sole_owner own xs" "own x \<noteq> NULL \<Longrightarrow> own x \<notin> own ` set xs"
proof -
  have D: "i = j" if "i < Suc (length xs)" "j < Suc (length xs)"
    "own ((x # xs) ! i) = own ((x # xs) ! j)" "own ((x # xs) ! i) \<noteq> NULL" for i j
    using assms that unfolding sole_owner_def by simp
  show "sole_owner own xs"
    unfolding sole_owner_def using D [of "Suc _" "Suc _"] by auto
  show "own x \<notin> own ` set xs" if "own x \<noteq> NULL"
  proof
    assume "own x \<in> own ` set xs"
    then obtain j where "j < length xs" "own x = own (xs ! j)" by (auto simp: in_set_conv_nth)
    with that D [of 0 "Suc j"] show False by simp
  qed
qed

lemma sole_owner_distinct: "sole_owner own es \<Longrightarrow> distinct (map own (filter (\<lambda>e. own e \<noteq> NULL) es))"
  by (induction es) (auto dest: sole_owner_Cons)

lemma occupied_card:
  assumes "sole_owner own es"
  shows "occupied own es = card (own ` set es - {NULL})"
proof -
  have "occupied own es = card (set (map own (filter (\<lambda>e. own e \<noteq> NULL) es)))"
    using distinct_card [OF sole_owner_distinct [OF assms]] by (simp add: occupied_def)
  also have "set (map own (filter (\<lambda>e. own e \<noteq> NULL) es)) = own ` set es - {NULL}" by auto
  finally show ?thesis .
qed

section \<open>Two disjoint register banks\<close>

lemma fold_two_banks:
  assumes "a + n \<le> b"
  shows "fold (\<lambda>i m. m(a + i := f i, b + i := g i)) [0..<n] m =
    (\<lambda>x. if a \<le> x \<and> x < a + n then f (x - a)
         else if b \<le> x \<and> x < b + n then g (x - b) else m x)"
  using assms
proof (induction n)
  case (Suc n)
  then have "a + n \<le> b" by simp
  with Suc.IH have IH: "fold (\<lambda>i m. m(a + i := f i, b + i := g i)) [0..<n] m =
    (\<lambda>x. if a \<le> x \<and> x < a + n then f (x - a)
         else if b \<le> x \<and> x < b + n then g (x - b) else m x)" by blast
  have "fold (\<lambda>i m. m(a + i := f i, b + i := g i)) [0..<Suc n] m x =
    (if a \<le> x \<and> x < a + Suc n then f (x - a)
     else if b \<le> x \<and> x < b + Suc n then g (x - b) else m x)" for x
    using Suc.prems by (cases "x = a + n"; cases "x = b + n") (auto simp: IH)
  then show ?case by (rule ext)
qed (auto simp: fun_eq_iff)

section \<open>Words with a single bit\<close>

lemma bit_single:
  fixes w :: "'a :: len word"
  assumes "w = push_bit k 1" "k < LENGTH('a)"
  shows "bit w n \<longleftrightarrow> n = k"
  unfolding assms(1) bit_push_bit_iff bit_1_iff using assms(2) by auto

lemma unat_word_of_nat_64: "n < 2 ^ 64 \<Longrightarrow> unat (word_of_nat n :: u64) = n"
  by (simp add: unsigned_of_nat take_bit_nat_eq_self)

section \<open>Circular indices\<close>

text \<open>
  \<open>(tos - i) % 16\<close> on \<open>uint64_t\<close> wraps below zero; 16 divides the modulus, so the
  wrapped difference denotes the same slot as \<open>(tos + 16 - i) % 16\<close>.
\<close>

lemma unat_circular_sub:
  fixes t :: u64
  assumes "i \<le> 16"
  shows "unat ((t - word_of_nat i) mod 16) = (unat t mod 16 + 16 - i) mod 16"
proof -
  have ui: "uint (word_of_nat i :: u64) = int i"
    using assms unat_word_of_nat_64 [of i] by (simp add: uint_nat)
  have "uint ((t - word_of_nat i) mod 16) = uint (t - word_of_nat i) mod 16"
    by (simp add: uint_mod_distrib)
  also have "\<dots> = (uint t - int i) mod 2 ^ 64 mod 16"
    by (simp only: uint_word_ariths(2) ui) simp
  also have "\<dots> = (uint t - int i) mod 16"
    by (rule mod_mod_cancel) simp
  also have "\<dots> = (uint t mod 16 + 16 - int i) mod 16"
    by (metis add_diff_eq diff_add_eq mod_add_self2 mod_diff_left_eq)
  also have "\<dots> = int ((unat t mod 16 + 16 - i) mod 16)"
    using assms by (simp add: of_nat_diff zmod_int)
  finally have "int (unat ((t - word_of_nat i) mod 16)) = int ((unat t mod 16 + 16 - i) mod 16)"
    by (simp only: uint_nat)
  then show ?thesis by (simp only: of_nat_eq_iff)
qed
lemma rotate_index:
  fixes a b r i n :: nat
  assumes "i \<le> n" "(b + r) mod n = a mod n"
  shows "(r + (b mod n + n - i) mod n) mod n = (a mod n + n - i) mod n"
proof -
  obtain j where j: "n = i + j" using assms(1) le_Suc_ex by blast
  have d: "x + n - i = x + j" for x using j by simp
  have "(r + (b mod n + j) mod n) mod n = ((b + r) mod n + j) mod n"
    by (simp only: mod_add_left_eq mod_add_right_eq) (simp only: ac_simps)
  with assms(2) show ?thesis by (simp add: d)
qed

end
