(* ===== verification/Lbr_Msr.thy ===== *)
theory Lbr_Msr
  imports PA_Prelude
begin

text \<open>
  The Last Branch Record registers of one CPU and the operations of
  \<open>src/lkm/lbr.c\<close> on them: \<open>flush_lbr\<close>, \<open>get_lbr\<close>, \<open>put_lbr\<close>, \<open>enable_lbr\<close>, the
  \<open>LBR_FROM\<close> macro that strips the flag bits of a FROM register, and the two
  bits of \<open>task->personality\<close> with which the module marks supervised tasks
  (\<open>src/lkm/lbr.h\<close>).

  A CPU's registers are a function from MSR number to 64-bit contents;
  \<open>rdmsrl\<close> is application and \<open>wrmsrl\<close> is update.
\<close>

type_synonym msr_file = "nat \<Rightarrow> u64"

section \<open>Constants\<close>

definition MSR_IA32_DEBUGCTLMSR :: nat where "MSR_IA32_DEBUGCTLMSR = 0x1d9"
definition MSR_LBR_SELECT :: nat where "MSR_LBR_SELECT = 0x1c8"
definition MSR_LBR_TOS :: nat where "MSR_LBR_TOS = 0x1c9"
definition MSR_LBR_NHM_FROM :: nat where "MSR_LBR_NHM_FROM = 0x680"
definition MSR_LBR_NHM_TO :: nat where "MSR_LBR_NHM_TO = 0x6c0"
definition IA32_DEBUGCTL :: u64 where "IA32_DEBUGCTL = 0x1"
definition LBR_SELECT :: u64 where "LBR_SELECT = 0x185"
definition LBR_ENTRIES :: nat where "LBR_ENTRIES = 16"
definition LBR_SKIP :: nat where "LBR_SKIP = 3"

lemmas msr_consts = MSR_IA32_DEBUGCTLMSR_def MSR_LBR_SELECT_def MSR_LBR_TOS_def
  MSR_LBR_NHM_FROM_def MSR_LBR_NHM_TO_def

section \<open>Data\<close>

text \<open>\<open>struct lbr_t\<close>: the saved registers and the task they belong to.\<close>

record lbr_t =
  debug :: u64
  select :: u64
  tos :: u64
  from_regs :: "u64 list"
  to_regs :: "u64 list"
  lbr_task :: task

text \<open>The contents a \<open>memset\<close> to zero leaves.\<close>

definition zero_lbr :: lbr_t where
  "zero_lbr = \<lparr>debug = 0, select = 0, tos = 0, from_regs = replicate LBR_ENTRIES 0,
    to_regs = replicate LBR_ENTRIES 0, lbr_task = NULL\<rparr>"

definition wf_lbr :: "lbr_t \<Rightarrow> bool" where
  "wf_lbr l \<longleftrightarrow> length (from_regs l) = LBR_ENTRIES \<and> length (to_regs l) = LBR_ENTRIES"

section \<open>Operations\<close>

text \<open>\<open>LBR_FROM\<close>: shift left by three and arithmetically back, on \<open>int64_t\<close>.\<close>

definition LBR_FROM :: "u64 \<Rightarrow> u64" where
  "LBR_FROM from = signed_drop_bit LBR_SKIP (push_bit LBR_SKIP from)"

definition wrmsrl :: "nat \<Rightarrow> u64 \<Rightarrow> msr_file \<Rightarrow> msr_file" where
  "wrmsrl r v m = m(r := v)"

definition flush_lbr :: "bool \<Rightarrow> msr_file \<Rightarrow> msr_file" where
  "flush_lbr enable m =
    (let m = wrmsrl MSR_LBR_TOS 0 m;
         m = fold (\<lambda>i m. wrmsrl (MSR_LBR_NHM_TO + i) 0 (wrmsrl (MSR_LBR_NHM_FROM + i) 0 m))
               [0..<LBR_ENTRIES] m
     in wrmsrl MSR_IA32_DEBUGCTLMSR (if enable then IA32_DEBUGCTL else 0) m)"

definition get_lbr :: "msr_file \<Rightarrow> lbr_t \<Rightarrow> lbr_t" where
  "get_lbr m lbr = lbr\<lparr>
     debug := m MSR_IA32_DEBUGCTLMSR,
     select := m MSR_LBR_SELECT,
     tos := m MSR_LBR_TOS,
     from_regs := map (\<lambda>i. LBR_FROM (m (MSR_LBR_NHM_FROM + i))) [0..<LBR_ENTRIES],
     to_regs := map (\<lambda>i. m (MSR_LBR_NHM_TO + i)) [0..<LBR_ENTRIES]\<rparr>"

definition put_lbr :: "lbr_t \<Rightarrow> msr_file \<Rightarrow> msr_file" where
  "put_lbr lbr m =
    (let m = wrmsrl MSR_IA32_DEBUGCTLMSR (debug lbr) m;
         m = wrmsrl MSR_LBR_SELECT (select lbr) m;
         m = wrmsrl MSR_LBR_TOS (tos lbr) m
     in fold (\<lambda>i m. wrmsrl (MSR_LBR_NHM_TO + i) (to_regs lbr ! i)
                     (wrmsrl (MSR_LBR_NHM_FROM + i) (from_regs lbr ! i) m))
          [0..<LBR_ENTRIES] m)"

definition enable_lbr :: "msr_file \<Rightarrow> msr_file" where
  "enable_lbr m = flush_lbr True (wrmsrl MSR_LBR_SELECT LBR_SELECT m)"

section \<open>Supervision bits of a task\<close>

definition TASK_LBR :: u32 where "TASK_LBR = 0x80000000"
definition SUSP_LBR :: u32 where "SUSP_LBR = 0x40000000"

definition set_task_lbr :: "u32 \<Rightarrow> u32" where "set_task_lbr p = p OR TASK_LBR"
definition clr_task_lbr :: "u32 \<Rightarrow> u32" where "clr_task_lbr p = p AND NOT TASK_LBR"
definition tst_task_lbr :: "u32 \<Rightarrow> bool" where "tst_task_lbr p \<longleftrightarrow> p AND TASK_LBR \<noteq> 0"
definition susp_task_lbr :: "u32 \<Rightarrow> u32" where
  "susp_task_lbr p = (p AND NOT TASK_LBR) OR SUSP_LBR"
definition wakeup_task_lbr :: "u32 \<Rightarrow> u32" where
  "wakeup_task_lbr p = (p AND NOT SUSP_LBR) OR TASK_LBR"
definition issusp_task_lbr :: "u32 \<Rightarrow> bool" where
  "issusp_task_lbr p \<longleftrightarrow> p AND SUSP_LBR \<noteq> 0"

section \<open>The LBR_FROM macro\<close>

lemma bit_LBR_FROM:
  "bit (LBR_FROM w) n \<longleftrightarrow> n < 64 \<and> bit w (min n 60)"
  by (auto simp: LBR_FROM_def LBR_SKIP_def bit_signed_drop_bit_iff bit_push_bit_iff min_def
      dest: bit_imp_le_length)

lemma LBR_FROM_idem [simp]: "LBR_FROM (LBR_FROM w) = LBR_FROM w"
  by (rule bit_word_eqI) (auto simp: bit_LBR_FROM min_def)

lemma LBR_FROM_cong_low: "(\<And>n. n \<le> 60 \<Longrightarrow> bit v n = bit w n) \<Longrightarrow> LBR_FROM v = LBR_FROM w"
  by (rule bit_word_eqI) (simp add: bit_LBR_FROM)

lemma LBR_FROM_fixed_iff:
  "LBR_FROM w = w \<longleftrightarrow> (\<forall>n. 60 < n \<longrightarrow> n < 64 \<longrightarrow> bit w n = bit w 60)"
proof
  assume eq: "LBR_FROM w = w"
  have "bit w n = bit w 60" if "60 < n" "n < 64" for n
    using bit_LBR_FROM [of w n] that by (simp add: eq)
  then show "\<forall>n. 60 < n \<longrightarrow> n < 64 \<longrightarrow> bit w n = bit w 60" by blast
next
  assume "\<forall>n. 60 < n \<longrightarrow> n < 64 \<longrightarrow> bit w n = bit w 60"
  then show "LBR_FROM w = w"
    by (intro bit_word_eqI) (auto simp: bit_LBR_FROM min_def not_le)
qed

lemma LBR_FROM_0 [simp]: "LBR_FROM 0 = 0"
  by (simp add: LBR_FROM_def)

section \<open>Closed forms of the register operations\<close>

lemma flush_lbr_apply [lbr_simps]:
  "flush_lbr en m r =
    (if r = MSR_IA32_DEBUGCTLMSR then if en then IA32_DEBUGCTL else 0
     else if r = MSR_LBR_TOS \<or> MSR_LBR_NHM_FROM \<le> r \<and> r < MSR_LBR_NHM_FROM + LBR_ENTRIES
        \<or> MSR_LBR_NHM_TO \<le> r \<and> r < MSR_LBR_NHM_TO + LBR_ENTRIES then 0
     else m r)"
  unfolding flush_lbr_def wrmsrl_def Let_def
  by (subst fold_two_banks) (auto simp: msr_consts LBR_ENTRIES_def)

lemma put_lbr_apply [lbr_simps]:
  "put_lbr l m r =
    (if MSR_LBR_NHM_FROM \<le> r \<and> r < MSR_LBR_NHM_FROM + LBR_ENTRIES
       then from_regs l ! (r - MSR_LBR_NHM_FROM)
     else if MSR_LBR_NHM_TO \<le> r \<and> r < MSR_LBR_NHM_TO + LBR_ENTRIES
       then to_regs l ! (r - MSR_LBR_NHM_TO)
     else if r = MSR_LBR_TOS then tos l
     else if r = MSR_LBR_SELECT then select l
     else if r = MSR_IA32_DEBUGCTLMSR then debug l
     else m r)"
  unfolding put_lbr_def wrmsrl_def Let_def
  by (subst fold_two_banks) (auto simp: msr_consts LBR_ENTRIES_def)

lemma get_lbr_sel [simp]:
  "debug (get_lbr m l) = m MSR_IA32_DEBUGCTLMSR"
  "select (get_lbr m l) = m MSR_LBR_SELECT"
  "tos (get_lbr m l) = m MSR_LBR_TOS"
  "lbr_task (get_lbr m l) = lbr_task l"
  "length (from_regs (get_lbr m l)) = LBR_ENTRIES"
  "length (to_regs (get_lbr m l)) = LBR_ENTRIES"
  "i < LBR_ENTRIES \<Longrightarrow> from_regs (get_lbr m l) ! i = LBR_FROM (m (MSR_LBR_NHM_FROM + i))"
  "i < LBR_ENTRIES \<Longrightarrow> to_regs (get_lbr m l) ! i = m (MSR_LBR_NHM_TO + i)"
  by (simp_all add: get_lbr_def)

lemma wf_get_lbr [simp]: "wf_lbr (get_lbr m l)"
  by (simp add: wf_lbr_def)

lemma zero_lbr_task [simp]: "lbr_task zero_lbr = NULL"
  by (simp add: zero_lbr_def)

lemma wf_zero_lbr [simp]: "wf_lbr zero_lbr"
  by (simp add: wf_lbr_def zero_lbr_def)

text \<open>
  What the module can see of a CPU's LBR: the registers it reads, with the
  FROM registers normalised.  Two register files with the same view are
  indistinguishable to \<open>get_lbr\<close>.
\<close>

type_synonym lbr_obs = "u64 \<times> u64 \<times> u64 \<times> u64 list \<times> u64 list"

definition lbr_view :: "msr_file \<Rightarrow> lbr_obs" where
  "lbr_view m = (m MSR_IA32_DEBUGCTLMSR, m MSR_LBR_SELECT, m MSR_LBR_TOS,
     map (\<lambda>i. LBR_FROM (m (MSR_LBR_NHM_FROM + i))) [0..<LBR_ENTRIES],
     map (\<lambda>i. m (MSR_LBR_NHM_TO + i)) [0..<LBR_ENTRIES])"

definition saved_view :: "lbr_t \<Rightarrow> lbr_obs" where
  "saved_view l = (debug l, select l, tos l, map LBR_FROM (from_regs l), to_regs l)"

lemma saved_view_get [lbr_simps, simp]: "saved_view (get_lbr m l) = lbr_view m"
  by (simp add: saved_view_def lbr_view_def get_lbr_def)

lemma lbr_view_put [lbr_simps]: "wf_lbr l \<Longrightarrow> lbr_view (put_lbr l m) = saved_view l"
  by (auto simp: lbr_view_def saved_view_def put_lbr_apply msr_consts LBR_ENTRIES_def wf_lbr_def
      intro!: nth_equalityI)

lemma saved_view_task [simp]: "saved_view (l\<lparr>lbr_task := t\<rparr>) = saved_view l"
  by (simp add: saved_view_def)

lemma lbr_view_put_get [lbr_simps]: "lbr_view (put_lbr (get_lbr m l) m') = lbr_view m"
  by (simp add: lbr_view_put)

lemma get_put_id:
  assumes "wf_lbr l" "map LBR_FROM (from_regs l) = from_regs l"
  shows "get_lbr (put_lbr l m) (x\<lparr>lbr_task := lbr_task l\<rparr>) = l"
proof -
  have "saved_view (get_lbr (put_lbr l m) x) = saved_view l"
    using assms(1) by (simp add: lbr_view_put)
  moreover have "map LBR_FROM (from_regs (get_lbr (put_lbr l m) x)) = from_regs (get_lbr (put_lbr l m) x)"
    by (simp add: get_lbr_def)
  ultimately show ?thesis
    using assms(2) by (simp add: saved_view_def get_lbr_def)
qed

lemma lbr_view_flush:
  "lbr_view (flush_lbr en m) =
    (if en then IA32_DEBUGCTL else 0, m MSR_LBR_SELECT, 0,
     replicate LBR_ENTRIES 0, replicate LBR_ENTRIES 0)"
  by (auto simp: lbr_view_def flush_lbr_apply msr_consts LBR_ENTRIES_def intro!: nth_equalityI)

section \<open>The supervision bits\<close>

lemma bit_TASK_LBR [simp]: "bit TASK_LBR n \<longleftrightarrow> n = 31"
  by (rule bit_single) (simp_all add: TASK_LBR_def)

lemma bit_SUSP_LBR [simp]: "bit SUSP_LBR n \<longleftrightarrow> n = 30"
  by (rule bit_single) (simp_all add: SUSP_LBR_def)

lemma tst_task_lbr_iff: "tst_task_lbr p \<longleftrightarrow> bit p 31"
  by (auto simp: tst_task_lbr_def bit_and_iff intro!: bit_word_eqI)
    (metis bit_0_eq bit_TASK_LBR bit_and_iff bot_apply bot_bool_def)

lemma issusp_task_lbr_iff: "issusp_task_lbr p \<longleftrightarrow> bit p 30"
  by (auto simp: issusp_task_lbr_def bit_and_iff intro!: bit_word_eqI)
    (metis bit_0_eq bit_SUSP_LBR bit_and_iff bot_apply bot_bool_def)

lemmas task_bit_simps = tst_task_lbr_iff issusp_task_lbr_iff set_task_lbr_def clr_task_lbr_def
  susp_task_lbr_def wakeup_task_lbr_def bit_or_iff bit_and_iff bit_not_iff

lemma tst_set_task [simp]: "tst_task_lbr (set_task_lbr p)"
  by (simp add: task_bit_simps)

lemma wakeup_susp_id:
  assumes "tst_task_lbr p" "\<not> issusp_task_lbr p"
  shows "wakeup_task_lbr (susp_task_lbr p) = p"
proof (rule bit_word_eqI)
  fix n
  assume "n < LENGTH(32)"
  with assms show "bit (wakeup_task_lbr (susp_task_lbr p)) n = bit p n"
    by (cases "n = 31"; cases "n = 30") (simp_all add: task_bit_simps)
qed

lemma susp_not_supervised [simp]:
  "\<not> tst_task_lbr (susp_task_lbr p)" "issusp_task_lbr (susp_task_lbr p)"
  by (simp_all add: task_bit_simps)

section \<open>Properties\<close>

text \<open>
  \<open>LBR_FROM\<close> removes exactly the flag bits of a FROM register.  Whatever the
  hardware puts in MISPRED (63), IN_TSX (62) and TSX_ABORT (61), two registers
  that agree on bits 60 to 0 are normalised to the same value; a canonical
  address, one that sign-extends its bit 47, is recovered unchanged.
\<close>

theorem LBR_FROM_strips_flags:
  assumes canonical: "\<And>n. 47 \<le> n \<Longrightarrow> n < 64 \<Longrightarrow> bit a n = bit a 47"
    and flags: "\<And>n. bit f n \<Longrightarrow> 61 \<le> n"
  shows "LBR_FROM (a XOR f) = a"
proof -
  have "bit f n = False" if "n \<le> 60" for n using flags [of n] that by auto
  then have "LBR_FROM (a XOR f) = LBR_FROM a"
    by (intro LBR_FROM_cong_low) (simp add: bit_xor_iff)
  moreover have "bit a n = bit a 60" if "60 < n" "n < 64" for n
    using canonical [of n] canonical [of 60] that by simp
  then have "LBR_FROM a = a" by (simp only: LBR_FROM_fixed_iff) blast
  ultimately show ?thesis by simp
qed

lemma bit_hi_3: "bit (push_bit 61 7 :: u64) n \<Longrightarrow> 61 \<le> n"
  by (simp only: bit_push_bit_iff)

theorem LBR_FROM_strips_flags_witness:
  "LBR_FROM (0x400000 XOR push_bit 61 7) = 0x400000"
proof (rule LBR_FROM_strips_flags)
  fix n :: nat assume "47 \<le> n" "n < 64"
  have "bit (0x400000 :: u64) i \<longleftrightarrow> i = 22" for i
    by (rule bit_single) simp_all
  with \<open>47 \<le> n\<close> show "bit (0x400000 :: u64) n = bit (0x400000 :: u64) 47" by simp
qed (rule bit_hi_3)

end
