(* ===== verification/Lbr_Stack.thy ===== *)
theory Lbr_Stack
  imports Lbr_Msr
begin

text \<open>
  The statically allocated stacks of \<open>src/lkm/lbr.c\<close>: \<open>stack_t\<close> holds return
  addresses, \<open>stack_lbr_t\<close> holds saved LBR states.  A push on a full stack and a
  pop from an empty one send \<open>SIGKILL\<close> to the current task; the operations
  report that as a boolean.

  The locale \<open>bounded_lifo\<close> is the contract both stacks are used under: a
  LIFO of bounded capacity.  Its refinement lemma says that every sequence of
  pushes and pops which the abstract list machine accepts runs on the array
  implementation without a kill and yields the same values.
\<close>

section \<open>The array stacks\<close>

definition STACKSIZE :: nat where "STACKSIZE = 8"

text \<open>\<open>struct stack_t\<close> is \<open>u64 stk\<close> and \<open>struct stack_lbr_t\<close> is \<open>lbr_t stk\<close>.\<close>

record 'a stk =
  ssize :: nat
  items :: "'a list"

type_synonym stack_t = "u64 stk"
type_synonym stack_lbr_t = "lbr_t stk"

definition zero_stack :: stack_t where
  "zero_stack = \<lparr>ssize = 0, items = replicate STACKSIZE 0\<rparr>"

definition zero_stack_lbr :: stack_lbr_t where
  "zero_stack_lbr = \<lparr>ssize = 0, items = replicate STACKSIZE zero_lbr\<rparr>"

definition stack_push :: "stack_t \<Rightarrow> u64 \<Rightarrow> stack_t \<times> bool" where
  "stack_push s u =
    (if ssize s = STACKSIZE then (s, True)
     else (s\<lparr>items := (items s)[ssize s := u], ssize := ssize s + 1\<rparr>, False))"

definition stack_pop :: "stack_t \<Rightarrow> stack_t \<times> u64 \<times> bool" where
  "stack_pop s =
    (if ssize s = 0 then (s, 0, True)
     else let n = ssize s - 1 in (s\<lparr>ssize := n\<rparr>, items s ! n, False))"

definition lbr_stack_push :: "stack_lbr_t \<Rightarrow> msr_file \<Rightarrow> stack_lbr_t \<times> bool" where
  "lbr_stack_push s m =
    (if ssize s = STACKSIZE then (s, True)
     else (s\<lparr>items := (items s)[ssize s := get_lbr m (items s ! ssize s)],
             ssize := ssize s + 1\<rparr>, False))"

definition lbr_stack_pop :: "stack_lbr_t \<Rightarrow> msr_file \<Rightarrow> stack_lbr_t \<times> msr_file \<times> bool" where
  "lbr_stack_pop s m =
    (if ssize s = 0 then (s, m, True)
     else let n = ssize s - 1 in (s\<lparr>ssize := n\<rparr>, put_lbr (items s ! n) m, False))"

section \<open>Well-formedness and abstraction\<close>

definition wf_stack :: "stack_t \<Rightarrow> bool" where
  "wf_stack s \<longleftrightarrow> ssize s \<le> STACKSIZE \<and> length (items s) = STACKSIZE"

definition wf_lbr_stack :: "stack_lbr_t \<Rightarrow> bool" where
  "wf_lbr_stack s \<longleftrightarrow> ssize s \<le> STACKSIZE \<and> length (items s) = STACKSIZE
     \<and> (\<forall>l \<in> set (items s). wf_lbr l)"

text \<open>The live elements, the most recent first.\<close>

definition stack_list :: "'a stk \<Rightarrow> 'a list" where
  "stack_list s = rev (take (ssize s) (items s))"

definition lbr_stack_views :: "stack_lbr_t \<Rightarrow> lbr_obs list" where
  "lbr_stack_views s = map saved_view (stack_list s)"

lemma length_stack_list: "ssize s \<le> length (items s) \<Longrightarrow> length (stack_list s) = ssize s"
  by (simp add: stack_list_def)

lemma wf_zero_stack [simp]: "wf_stack zero_stack" "wf_lbr_stack zero_stack_lbr"
  by (auto simp: wf_stack_def wf_lbr_stack_def zero_stack_def zero_stack_lbr_def)

lemma stack_list_zero [simp]:
  "stack_list zero_stack = []" "stack_list zero_stack_lbr = []" "ssize zero_stack = 0" "ssize zero_stack_lbr = 0"
  by (simp_all add: stack_list_def zero_stack_def zero_stack_lbr_def)

lemma stack_list_Nil_iff: "ssize s \<le> length (items s) \<Longrightarrow> stack_list s = [] \<longleftrightarrow> ssize s = 0"
  using length_stack_list [of s] by auto

lemma stack_list_put:
  assumes "ssize s < length (items s)"
  shows "stack_list (s\<lparr>items := (items s)[ssize s := x], ssize := ssize s + 1\<rparr>) = x # stack_list s"
  using assms by (simp add: stack_list_def take_Suc_conv_app_nth)

lemma stack_list_drop:
  assumes "0 < ssize s" "ssize s \<le> length (items s)"
  shows "stack_list s = items s ! (ssize s - 1) # stack_list (s\<lparr>ssize := ssize s - 1\<rparr>)"
proof -
  obtain n where n: "ssize s = Suc n" using assms(1) by (cases "ssize s") auto
  with assms(2) show ?thesis by (simp add: stack_list_def take_Suc_conv_app_nth)
qed

section \<open>The contract: a bounded LIFO\<close>

datatype ('i, 'c) stack_op = Push 'i | Pop 'c

text \<open>
  The abstract machine on lists: \<open>None\<close> is an overflow or an underflow; the
  second component collects what the pops yield.
\<close>

fun lifo_run :: "nat \<Rightarrow> ('i \<Rightarrow> 'a) \<Rightarrow> 'a list \<Rightarrow> ('i, 'c) stack_op list \<Rightarrow> ('a list \<times> 'a list) option" where
  "lifo_run cap inp xs [] = Some (xs, [])"
| "lifo_run cap inp xs (Push i # ops) =
    (if length xs < cap then lifo_run cap inp (inp i # xs) ops else None)"
| "lifo_run cap inp xs (Pop c # ops) =
    (case xs of [] \<Rightarrow> None
     | x # xs \<Rightarrow> map_option (\<lambda>(ys, os). (ys, x # os)) (lifo_run cap inp xs ops))"

locale bounded_lifo =
  fixes cap :: nat
    and ok :: "'s \<Rightarrow> bool"
    and contents :: "'s \<Rightarrow> 'a list"
    and push :: "'s \<Rightarrow> 'i \<Rightarrow> 's \<times> bool"
    and pop :: "'s \<Rightarrow> 'c \<Rightarrow> 's \<times> 'o \<times> bool"
    and inp :: "'i \<Rightarrow> 'a"
    and out :: "'o \<Rightarrow> 'a"
  assumes push_room: "ok s \<Longrightarrow> length (contents s) < cap \<Longrightarrow>
      \<exists>s'. push s i = (s', False) \<and> ok s' \<and> contents s' = inp i # contents s"
    and push_full: "ok s \<Longrightarrow> length (contents s) \<ge> cap \<Longrightarrow> push s i = (s, True)"
    and pop_Cons: "ok s \<Longrightarrow> contents s = x # xs \<Longrightarrow>
      \<exists>s' v. pop s c = (s', v, False) \<and> out v = x \<and> ok s' \<and> contents s' = xs"
    and pop_Nil: "ok s \<Longrightarrow> contents s = [] \<Longrightarrow> \<exists>v. pop s c = (s, v, True)"
begin

fun run :: "'s \<Rightarrow> ('i, 'c) stack_op list \<Rightarrow> 's \<times> 'o list \<times> bool" where
  "run s [] = (s, [], False)"
| "run s (Push i # ops) =
    (let (s, k) = push s i; (s, os, k') = run s ops in (s, os, k \<or> k'))"
| "run s (Pop c # ops) =
    (let (s, v, k) = pop s c; (s, os, k') = run s ops in (s, v # os, k \<or> k'))"

lemma run_refines:
  assumes "ok s" "lifo_run cap inp (contents s) ops = Some (xs, vs)"
  shows "\<exists>s' os. run s ops = (s', os, False) \<and> ok s' \<and> contents s' = xs \<and> map out os = vs"
  using assms
proof (induction ops arbitrary: s vs)
  case (Cons p ops)
  show ?case
  proof (cases p)
    case (Push i)
    with Cons.prems have "length (contents s) < cap" by (auto split: if_splits)
    from push_room [OF Cons.prems(1) this, of i] obtain s1
      where s1: "push s i = (s1, False)" "ok s1" "contents s1 = inp i # contents s" by blast
    with Cons.prems Push have "lifo_run cap inp (contents s1) ops = Some (xs, vs)"
      by (auto split: if_splits)
    from Cons.IH [OF s1(2) this] s1(1) Push show ?thesis by auto
  next
    case (Pop c)
    with Cons.prems obtain y ys where ys: "contents s = y # ys" by (auto split: list.splits)
    from pop_Cons [OF Cons.prems(1) this, of c] obtain s1 v
      where s1: "pop s c = (s1, v, False)" "out v = y" "ok s1" "contents s1 = ys" by blast
    from Cons.prems(2) Pop ys s1(4) obtain ws
      where ws: "lifo_run cap inp (contents s1) ops = Some (xs, ws)" "vs = y # ws" by auto
    from Cons.IH [OF s1(3) ws(1)] s1 ws Pop show ?thesis by auto
  qed
qed simp

lemma push_pop_cancel:
  assumes "ok s" "length (contents s) < cap"
  obtains s1 s2 v where "push s i = (s1, False)" "pop s1 c = (s2, v, False)"
    "out v = inp i" "ok s1" "ok s2" "contents s1 = inp i # contents s" "contents s2 = contents s"
  using push_room [OF assms, of i] pop_Cons by metis

end

lemma contents_room_iff:
  "ssize s \<le> STACKSIZE \<Longrightarrow> length (items s) = STACKSIZE \<Longrightarrow>
    length (stack_list s) < STACKSIZE \<longleftrightarrow> ssize s \<noteq> STACKSIZE"
  by (auto simp: length_stack_list)

interpretation rets_lifo: bounded_lifo STACKSIZE wf_stack stack_list stack_push
  "\<lambda>s (c :: unit). stack_pop s" id id
proof unfold_locales
  fix s i assume s: "wf_stack s" "length (stack_list s) < STACKSIZE"
  then show "\<exists>s'. stack_push s i = (s', False) \<and> wf_stack s' \<and> stack_list s' = id i # stack_list s"
    using stack_list_put [of s i] contents_room_iff [of s] by (auto simp: wf_stack_def stack_push_def)
next
  fix s i assume "wf_stack s" "length (stack_list s) \<ge> STACKSIZE"
  then show "stack_push s i = (s, True)"
    using contents_room_iff [of s] by (auto simp: wf_stack_def stack_push_def)
next
  fix s x xs assume s: "wf_stack s" "stack_list s = x # xs"
  then have "0 < ssize s" by (cases "ssize s") (auto simp: stack_list_def)
  with s stack_list_drop [of s]
  show "\<exists>s' v. stack_pop s = (s', v, False) \<and> id v = x \<and> wf_stack s' \<and> stack_list s' = xs"
    by (auto simp: wf_stack_def stack_pop_def)
next
  fix s assume "wf_stack s" "stack_list s = []"
  then show "\<exists>v. stack_pop s = (s, v, True)"
    using stack_list_Nil_iff [of s] by (auto simp: wf_stack_def stack_pop_def)
qed

interpretation lbrs_lifo: bounded_lifo STACKSIZE wf_lbr_stack lbr_stack_views lbr_stack_push
  lbr_stack_pop lbr_view lbr_view
proof unfold_locales
  fix s i assume s: "wf_lbr_stack s" "length (lbr_stack_views s) < STACKSIZE"
  then show "\<exists>s'. lbr_stack_push s i = (s', False) \<and> wf_lbr_stack s'
      \<and> lbr_stack_views s' = lbr_view i # lbr_stack_views s"
    using stack_list_put [of s "get_lbr i (items s ! ssize s)"] contents_room_iff [of s]
    by (auto simp: wf_lbr_stack_def lbr_stack_push_def lbr_stack_views_def
        dest!: set_update_subset_insert [THEN subsetD])
next
  fix s i assume "wf_lbr_stack s" "length (lbr_stack_views s) \<ge> STACKSIZE"
  then show "lbr_stack_push s i = (s, True)"
    using contents_room_iff [of s]
    by (auto simp: wf_lbr_stack_def lbr_stack_push_def lbr_stack_views_def)
next
  fix s x xs c assume s: "wf_lbr_stack s" "lbr_stack_views s = x # xs"
  then have pos: "0 < ssize s" by (cases "ssize s") (auto simp: stack_list_def lbr_stack_views_def)
  with s(1) have "wf_lbr (items s ! (ssize s - 1))"
    by (auto simp: wf_lbr_stack_def)
  with pos s stack_list_drop [of s]
  show "\<exists>s' v. lbr_stack_pop s c = (s', v, False) \<and> lbr_view v = x \<and> wf_lbr_stack s'
      \<and> lbr_stack_views s' = xs"
    by (auto simp: wf_lbr_stack_def lbr_stack_pop_def lbr_stack_views_def lbr_view_put Let_def)
next
  fix s c assume "wf_lbr_stack s" "lbr_stack_views s = []"
  then show "\<exists>v. lbr_stack_pop s c = (s, v, True)"
    using stack_list_Nil_iff [of s]
    by (auto simp: wf_lbr_stack_def lbr_stack_pop_def lbr_stack_views_def)
qed

end
