(* ===== verification/Kernel_State.thy ===== *)
theory Kernel_State
  imports Lbr_Stack
begin

text \<open>
  The state of the kernel module \<open>src/lkm\<close>: its global variables
  (\<open>src/lkm/armor.c\<close>, \<open>src/lkm/lbr.c\<close>), the registers of every CPU, and what the
  module reads or writes of a \<open>task_struct\<close>.  Every handler of the module is a
  function on the record \<open>kernel\<close>, run on CPU \<open>cpu\<close> by task \<open>current\<close>.
  \<open>kill_pid(task_pid(current), SIGKILL, 1)\<close> is recorded in \<open>killed\<close>.
\<close>

section \<open>Statistics\<close>

record armor_stats =
  st_sig_enter :: u64
  st_sig_return :: u64
  st_lib_enter :: u64
  st_lib_return :: u64
  st_cbk_enter :: u64
  st_cbk_return :: u64
  st_new_tasks :: u64
  st_tasks_exit :: u64
  st_execve :: u64
  st_mmap :: u64
  st_mmap_exec :: u64
  st_read :: u64
  st_write :: u64
  st_mprotect :: u64
  st_mprotect_exec :: u64
  st_sigaction :: u64
  st_sched_out :: u64
  st_sched_in :: u64
  st_digests :: u64
  st_offline_lookups :: u64
  st_offline_hits :: u64
  st_offline_misses :: u64
  st_jit_lookups :: u64
  st_jit_cache_hits :: u64
  st_jit_requests :: u64
  st_jit_hits :: u64
  st_jit_unsupported :: u64
  st_jit_misses :: u64
  st_jit_busy :: u64
  st_jit_timeouts :: u64
  st_offline_cache_size :: u64
  st_jit_cache_size :: u64
  st_jit_sec :: u64
  st_jit_usec :: u64

definition zero_stats :: armor_stats where
  "zero_stats = \<lparr>st_sig_enter = 0, st_sig_return = 0, st_lib_enter = 0, st_lib_return = 0,
    st_cbk_enter = 0, st_cbk_return = 0, st_new_tasks = 0, st_tasks_exit = 0, st_execve = 0,
    st_mmap = 0, st_mmap_exec = 0, st_read = 0, st_write = 0, st_mprotect = 0,
    st_mprotect_exec = 0, st_sigaction = 0, st_sched_out = 0, st_sched_in = 0, st_digests = 0,
    st_offline_lookups = 0, st_offline_hits = 0, st_offline_misses = 0,
    st_jit_lookups = 0, st_jit_cache_hits = 0, st_jit_requests = 0, st_jit_hits = 0,
    st_jit_unsupported = 0, st_jit_misses = 0, st_jit_busy = 0, st_jit_timeouts = 0,
    st_offline_cache_size = 0, st_jit_cache_size = 0, st_jit_sec = 0,
    st_jit_usec = 0\<rparr>"

section \<open>Caches\<close>

definition LBR_CACHE_SIZE :: nat where "LBR_CACHE_SIZE = 1024"
definition LIB_CACHE_SIZE :: nat where "LIB_CACHE_SIZE = 1024"
definition CBK_CACHE_SIZE :: nat where "CBK_CACHE_SIZE = 64"
definition SIG_CACHE_SIZE :: nat where "SIG_CACHE_SIZE = 64"
definition JIT_CACHE_SIZE :: nat where "JIT_CACHE_SIZE = 512"
definition DIGEST_LENGTH :: nat where "DIGEST_LENGTH = 16"

lemmas cache_sizes = LBR_CACHE_SIZE_def LIB_CACHE_SIZE_def CBK_CACHE_SIZE_def
  SIG_CACHE_SIZE_def JIT_CACHE_SIZE_def

record wrapper_lib_t =
  wl_task :: task
  rets :: stack_t
  lbrs :: stack_lbr_t

definition zero_wrapper :: wrapper_lib_t where
  "zero_wrapper = \<lparr>wl_task = NULL, rets = zero_stack, lbrs = zero_stack_lbr\<rparr>"

record jit_cache_t =
  hash_rows :: "u8 list list"
  hashes :: nat

definition zero_jit_cache :: jit_cache_t where
  "zero_jit_cache = \<lparr>hash_rows = replicate JIT_CACHE_SIZE (replicate DIGEST_LENGTH 0), hashes = 0\<rparr>"

section \<open>Structures exchanged with user space\<close>

record lbr_paths_kernel_copy =
  kc_paths :: u64
  kc_size :: u64
  kc_indirect_call_source :: u64
  kc_load_from :: u64
  kc_armor_lib_enter :: u64
  kc_armor_lib_return :: u64
  kc_pthread_create :: u64
  kc_pthread_create_return :: u64

text \<open>
  An array pointer of a copied structure: a kernel buffer with its contents, or an
  address taken over from user space as it is.
\<close>

datatype buf = KBuf "u64 list" | RawPtr u64

record plt_got_copy_t =
  pg_size :: u64
  pg_items :: u64
  pg_plts :: buf
  pg_gots :: buf

record simples_t =
  sm_size :: u64
  sm_items :: u64
  sm_exitpoints :: buf

section \<open>The module state\<close>

record kernel =
  msrs :: "nat \<Rightarrow> msr_file"
  cpu :: nat
  current :: task
  personality :: "task \<Rightarrow> u32"
  notifiers :: "task \<Rightarrow> bool"
  start_code :: "task \<Rightarrow> u64"
  end_code :: "task \<Rightarrow> u64"
  killed :: "task set"
  lbr_cache :: "lbr_t list"
  lib_data :: "wrapper_lib_t list"
  cbk_data :: "wrapper_lib_t list"
  sig_data :: "wrapper_lib_t list"
  stats :: armor_stats
  jit_cache :: jit_cache_t
  disable_jit :: bool
  jit_work :: "lbr_t option"
  jit_result :: u64
  jit_work_cond :: nat
  jit_result_cond :: nat
  target_started :: nat
  plt_available :: nat
  exitpoints_available :: nat
  tocopy :: lbr_paths_kernel_copy
  main_task :: task
  paths :: "u64 list option"
  plt_got_copy :: plt_got_copy_t
  simples :: simples_t
  exit_queue :: "task list"
  armor_initialized :: bool
  armor_opens :: int

abbreviation my_msrs :: "kernel \<Rightarrow> msr_file" where
  "my_msrs k \<equiv> msrs k (cpu k)"

text \<open>Run a register operation on the CPU the handler executes on.\<close>

definition on_msrs :: "(msr_file \<Rightarrow> msr_file) \<Rightarrow> kernel \<Rightarrow> kernel" where
  "on_msrs f k = k\<lparr>msrs := (msrs k)(cpu k := f (my_msrs k))\<rparr>"

definition kill_current :: "kernel \<Rightarrow> kernel" where
  "kill_current k = k\<lparr>killed := insert (current k) (killed k)\<rparr>"

definition kill_if :: "bool \<Rightarrow> kernel \<Rightarrow> kernel" where
  "kill_if b k = (if b then kill_current k else k)"

abbreviation stat :: "(armor_stats \<Rightarrow> armor_stats) \<Rightarrow> kernel \<Rightarrow> kernel" where
  "stat f \<equiv> stats_update f"

lemma kill_current_simps [simp]:
  "cpu (kill_current k) = cpu k" "current (kill_current k) = current k"
  "personality (kill_current k) = personality k" "notifiers (kill_current k) = notifiers k"
  "start_code (kill_current k) = start_code k" "end_code (kill_current k) = end_code k"
  "lbr_cache (kill_current k) = lbr_cache k" "lib_data (kill_current k) = lib_data k"
  "cbk_data (kill_current k) = cbk_data k" "sig_data (kill_current k) = sig_data k"
  "stats (kill_current k) = stats k" "jit_cache (kill_current k) = jit_cache k"
  "disable_jit (kill_current k) = disable_jit k" "jit_work (kill_current k) = jit_work k"
  "jit_result (kill_current k) = jit_result k" "jit_work_cond (kill_current k) = jit_work_cond k"
  "jit_result_cond (kill_current k) = jit_result_cond k"
  "target_started (kill_current k) = target_started k"
  "plt_available (kill_current k) = plt_available k"
  "exitpoints_available (kill_current k) = exitpoints_available k"
  "tocopy (kill_current k) = tocopy k" "main_task (kill_current k) = main_task k"
  "paths (kill_current k) = paths k" "plt_got_copy (kill_current k) = plt_got_copy k"
  "simples (kill_current k) = simples k" "exit_queue (kill_current k) = exit_queue k"
  "armor_initialized (kill_current k) = armor_initialized k"
  "armor_opens (kill_current k) = armor_opens k" "msrs (kill_current k) = msrs k"
  "killed (kill_current k) = insert (current k) (killed k)"
  by (simp_all add: kill_current_def)

lemma kill_if_simps [simp]:
  "kill_if False k = k" "kill_if True k = kill_current k"
  "cpu (kill_if b k) = cpu k" "current (kill_if b k) = current k"
  "personality (kill_if b k) = personality k" "notifiers (kill_if b k) = notifiers k"
  "start_code (kill_if b k) = start_code k" "end_code (kill_if b k) = end_code k"
  "lbr_cache (kill_if b k) = lbr_cache k" "lib_data (kill_if b k) = lib_data k"
  "cbk_data (kill_if b k) = cbk_data k" "sig_data (kill_if b k) = sig_data k"
  "stats (kill_if b k) = stats k" "jit_cache (kill_if b k) = jit_cache k"
  "disable_jit (kill_if b k) = disable_jit k" "jit_work (kill_if b k) = jit_work k"
  "jit_result (kill_if b k) = jit_result k" "jit_work_cond (kill_if b k) = jit_work_cond k"
  "jit_result_cond (kill_if b k) = jit_result_cond k"
  "target_started (kill_if b k) = target_started k" "plt_available (kill_if b k) = plt_available k"
  "exitpoints_available (kill_if b k) = exitpoints_available k" "tocopy (kill_if b k) = tocopy k"
  "main_task (kill_if b k) = main_task k" "paths (kill_if b k) = paths k"
  "plt_got_copy (kill_if b k) = plt_got_copy k" "simples (kill_if b k) = simples k"
  "exit_queue (kill_if b k) = exit_queue k" "armor_initialized (kill_if b k) = armor_initialized k"
  "armor_opens (kill_if b k) = armor_opens k" "msrs (kill_if b k) = msrs k"
  by (simp_all add: kill_if_def)

lemma on_msrs_simps [simp]:
  "cpu (on_msrs f k) = cpu k" "current (on_msrs f k) = current k"
  "personality (on_msrs f k) = personality k" "notifiers (on_msrs f k) = notifiers k"
  "start_code (on_msrs f k) = start_code k" "end_code (on_msrs f k) = end_code k"
  "lbr_cache (on_msrs f k) = lbr_cache k" "lib_data (on_msrs f k) = lib_data k"
  "cbk_data (on_msrs f k) = cbk_data k" "sig_data (on_msrs f k) = sig_data k"
  "stats (on_msrs f k) = stats k" "jit_cache (on_msrs f k) = jit_cache k"
  "disable_jit (on_msrs f k) = disable_jit k" "jit_work (on_msrs f k) = jit_work k"
  "jit_result (on_msrs f k) = jit_result k" "jit_work_cond (on_msrs f k) = jit_work_cond k"
  "jit_result_cond (on_msrs f k) = jit_result_cond k"
  "target_started (on_msrs f k) = target_started k" "plt_available (on_msrs f k) = plt_available k"
  "exitpoints_available (on_msrs f k) = exitpoints_available k" "tocopy (on_msrs f k) = tocopy k"
  "main_task (on_msrs f k) = main_task k" "paths (on_msrs f k) = paths k"
  "plt_got_copy (on_msrs f k) = plt_got_copy k" "simples (on_msrs f k) = simples k"
  "exit_queue (on_msrs f k) = exit_queue k" "armor_initialized (on_msrs f k) = armor_initialized k"
  "armor_opens (on_msrs f k) = armor_opens k" "killed (on_msrs f k) = killed k"
  "msrs (on_msrs f k) = (msrs k)(cpu k := f (my_msrs k))"
  by (simp_all add: on_msrs_def)

text \<open>The module right after loading: every global is zero, no task is supervised.\<close>

definition boot_kernel :: kernel where
  "boot_kernel = \<lparr>msrs = (\<lambda>_ _. 0), cpu = 0, current = NULL, personality = (\<lambda>_. 0),
    notifiers = (\<lambda>_. False), start_code = (\<lambda>_. 0), end_code = (\<lambda>_. 0), killed = {},
    lbr_cache = replicate LBR_CACHE_SIZE zero_lbr,
    lib_data = replicate LIB_CACHE_SIZE zero_wrapper,
    cbk_data = replicate CBK_CACHE_SIZE zero_wrapper,
    sig_data = replicate SIG_CACHE_SIZE zero_wrapper,
    stats = zero_stats, jit_cache = zero_jit_cache, disable_jit = False, jit_work = None,
    jit_result = 0, jit_work_cond = 0, jit_result_cond = 0, target_started = 0, plt_available = 0,
    exitpoints_available = 0,
    tocopy = \<lparr>kc_paths = 0, kc_size = 0, kc_indirect_call_source = 0, kc_load_from = 0,
      kc_armor_lib_enter = 0, kc_armor_lib_return = 0, kc_pthread_create = 0,
      kc_pthread_create_return = 0\<rparr>,
    main_task = NULL, paths = None,
    plt_got_copy = \<lparr>pg_size = 0, pg_items = 0, pg_plts = RawPtr 0, pg_gots = RawPtr 0\<rparr>,
    simples = \<lparr>sm_size = 0, sm_items = 0, sm_exitpoints = RawPtr 0\<rparr>,
    exit_queue = [], armor_initialized = False, armor_opens = 0\<rparr>"

lemma boot_sel [simp]:
  "msrs boot_kernel = (\<lambda>_ _. 0)"
  "cpu boot_kernel = 0"
  "current boot_kernel = NULL"
  "personality boot_kernel = (\<lambda>_. 0)"
  "notifiers boot_kernel = (\<lambda>_. False)"
  "start_code boot_kernel = (\<lambda>_. 0)"
  "end_code boot_kernel = (\<lambda>_. 0)"
  "killed boot_kernel = {}"
  "lbr_cache boot_kernel = replicate LBR_CACHE_SIZE zero_lbr"
  "lib_data boot_kernel = replicate LIB_CACHE_SIZE zero_wrapper"
  "cbk_data boot_kernel = replicate CBK_CACHE_SIZE zero_wrapper"
  "sig_data boot_kernel = replicate SIG_CACHE_SIZE zero_wrapper"
  "stats boot_kernel = zero_stats"
  "jit_cache boot_kernel = zero_jit_cache"
  "disable_jit boot_kernel = False"
  "jit_work boot_kernel = None"
  "jit_result boot_kernel = 0"
  "jit_work_cond boot_kernel = 0"
  "jit_result_cond boot_kernel = 0"
  "target_started boot_kernel = 0"
  "plt_available boot_kernel = 0"
  "exitpoints_available boot_kernel = 0"
  "tocopy boot_kernel = \<lparr>kc_paths = 0, kc_size = 0, kc_indirect_call_source = 0, kc_load_from = 0, kc_armor_lib_enter = 0, kc_armor_lib_return = 0, kc_pthread_create = 0, kc_pthread_create_return = 0\<rparr>"
  "main_task boot_kernel = NULL"
  "paths boot_kernel = None"
  "plt_got_copy boot_kernel = \<lparr>pg_size = 0, pg_items = 0, pg_plts = RawPtr 0, pg_gots = RawPtr 0\<rparr>"
  "simples boot_kernel = \<lparr>sm_size = 0, sm_items = 0, sm_exitpoints = RawPtr 0\<rparr>"
  "exit_queue boot_kernel = []"
  "armor_initialized boot_kernel = False"
  "armor_opens boot_kernel = 0"
  by (simp_all add: boot_kernel_def)

end
