(* ===== verification/Wrapper_Cache.thy ===== *)
theory Wrapper_Cache
  imports Kernel_State
begin

text \<open>
  The per-task caches for library calls, callbacks and signals of
  \<open>src/lkm/armor.c\<close>: \<open>find_cache_entry_init\<close>, \<open>lib_init\<close>, \<open>cbk_init\<close>, \<open>sig_init\<close>,
  \<open>lib_exit\<close>, \<open>cbk_exit\<close> and \<open>sig_exit\<close>.

  The three caches are the same table of task-tagged entries and differ in
  which stacks of an entry an operation touches.  \<open>wl_enter\<close> and \<open>wl_leave\<close> are
  the parts their operations share.  The locale \<open>entry_lifo\<close> says what an entry
  must provide (a bounded LIFO that ignores the task tag); under it every
  enter and leave is a push or pop on the stack of the calling task alone, and
  the three caches are interpretations of it.
\<close>

section \<open>Finding an entry\<close>

text \<open>
  The loop of \<open>find_cache_entry_init\<close>: \<open>Inl i\<close> when entry \<open>i\<close> belongs to the task,
  \<open>Inr tmp\<close> when the loop ends, \<open>tmp\<close> being the first empty entry seen.
\<close>

fun find_cache_entry_loop ::
  "wrapper_lib_t list \<Rightarrow> task \<Rightarrow> nat \<Rightarrow> nat option \<Rightarrow> nat + nat option" where
  "find_cache_entry_loop [] t i tmp = Inr tmp"
| "find_cache_entry_loop (e # es) t i tmp =
    (if wl_task e = t then Inl i
     else find_cache_entry_loop es t (i + 1)
            (if wl_task e = NULL \<and> tmp = None then Some i else tmp))"

text \<open>The result is the table, the index to use, and whether the current task was killed.\<close>

definition find_cache_entry_init ::
  "wrapper_lib_t list \<Rightarrow> nat \<Rightarrow> task \<Rightarrow> wrapper_lib_t list \<times> nat \<times> bool" where
  "find_cache_entry_init data cache_size t =
    (case find_cache_entry_loop (take cache_size data) t 0 None of
       Inl i \<Rightarrow> (data, i, False)
     | Inr None \<Rightarrow> (data, 0, True)
     | Inr (Some tmp) \<Rightarrow> (data[tmp := (data ! tmp)\<lparr>wl_task := t\<rparr>], tmp, False))"

section \<open>Entering and leaving\<close>

text \<open>
  Shared by the three \<open>_init\<close> functions: find or claim the entry of the task and
  push on it.  The booleans tell whether the cache was full and whether a stack
  of the entry overflowed.
\<close>

definition wl_enter ::
  "(wrapper_lib_t \<Rightarrow> 'i \<Rightarrow> wrapper_lib_t \<times> bool) \<Rightarrow> nat \<Rightarrow> task \<Rightarrow> 'i \<Rightarrow> wrapper_lib_t list
     \<Rightarrow> wrapper_lib_t list \<times> bool \<times> bool" where
  "wl_enter push n t x data =
    (let (data, i, full) = find_cache_entry_init data n t;
         (e, over) = push (data ! i) x
     in (data[i := e], full, over))"

text \<open>
  Shared by the three \<open>_exit\<close> functions: find the entry of the task, release it
  when it holds its last element, and pop.  \<open>None\<close> is the failing search.
\<close>

definition wl_leave ::
  "(wrapper_lib_t \<Rightarrow> bool) \<Rightarrow> (wrapper_lib_t \<Rightarrow> 'c \<Rightarrow> wrapper_lib_t \<times> 'o \<times> bool) \<Rightarrow> nat \<Rightarrow> task \<Rightarrow> 'c
     \<Rightarrow> wrapper_lib_t list \<Rightarrow> (wrapper_lib_t list \<times> 'o \<times> bool) option" where
  "wl_leave is_last pop n t c data =
    (case slot_of wl_task t (take n data) of
       None \<Rightarrow> None
     | Some i \<Rightarrow>
         let e = (if is_last (data ! i) then (data ! i)\<lparr>wl_task := NULL\<rparr> else data ! i);
             (e, v, unf) = pop e c
         in Some (data[i := e], v, unf))"

definition lib_push :: "wrapper_lib_t \<Rightarrow> u64 \<Rightarrow> wrapper_lib_t \<times> bool" where
  "lib_push e ret = (let (s, over) = stack_push (rets e) ret in (e\<lparr>rets := s\<rparr>, over))"

definition lib_pop :: "wrapper_lib_t \<Rightarrow> unit \<Rightarrow> wrapper_lib_t \<times> u64 \<times> bool" where
  "lib_pop e c = (let (s, v, unf) = stack_pop (rets e) in (e\<lparr>rets := s\<rparr>, v, unf))"

definition sig_push :: "wrapper_lib_t \<Rightarrow> msr_file \<Rightarrow> wrapper_lib_t \<times> bool" where
  "sig_push e m = (let (l, over) = lbr_stack_push (lbrs e) m in (e\<lparr>lbrs := l\<rparr>, over))"

definition sig_pop :: "wrapper_lib_t \<Rightarrow> msr_file \<Rightarrow> wrapper_lib_t \<times> msr_file \<times> bool" where
  "sig_pop e m = (let (l, m, unf) = lbr_stack_pop (lbrs e) m in (e\<lparr>lbrs := l\<rparr>, m, unf))"

definition cbk_push :: "wrapper_lib_t \<Rightarrow> u64 \<times> msr_file \<Rightarrow> wrapper_lib_t \<times> bool" where
  "cbk_push e x =
    (let (e, over) = lib_push e (fst x);
         (e, over') = sig_push e (snd x)
     in (e, over \<or> over'))"

definition cbk_pop :: "wrapper_lib_t \<Rightarrow> msr_file \<Rightarrow> wrapper_lib_t \<times> (u64 \<times> msr_file) \<times> bool" where
  "cbk_pop e m =
    (let (e, m, unf') = sig_pop e m;
         (e, v, unf) = lib_pop e ()
     in (e, (v, m), unf \<or> unf'))"

definition one_ret :: "wrapper_lib_t \<Rightarrow> bool" where "one_ret e \<longleftrightarrow> ssize (rets e) = 1"
definition one_lbr :: "wrapper_lib_t \<Rightarrow> bool" where "one_lbr e \<longleftrightarrow> ssize (lbrs e) = 1"

section \<open>The handlers\<close>

definition lib_init :: "u64 \<Rightarrow> kernel \<Rightarrow> kernel" where
  "lib_init ret k =
    (let (d, full, over) = wl_enter lib_push LIB_CACHE_SIZE (current k) ret (lib_data k)
     in kill_if over (kill_if full (k\<lparr>lib_data := d\<rparr>)))"

definition cbk_init :: "u64 \<Rightarrow> kernel \<Rightarrow> kernel" where
  "cbk_init ret k =
    (let (d, full, over) = wl_enter cbk_push CBK_CACHE_SIZE (current k) (ret, my_msrs k) (cbk_data k)
     in on_msrs (flush_lbr True) (kill_if over (kill_if full (k\<lparr>cbk_data := d\<rparr>))))"

definition sig_init :: "u64 \<Rightarrow> kernel \<Rightarrow> kernel" where
  "sig_init sighandler k =
    (let (d, full, over) = wl_enter sig_push SIG_CACHE_SIZE (current k) (my_msrs k) (sig_data k);
         k = kill_if over (kill_if full (k\<lparr>sig_data := d\<rparr>));
         target = start_code k (current k) < sighandler \<and> sighandler < end_code k (current k);
         k = on_msrs (flush_lbr target) k
     in on_msrs (wrmsrl MSR_LBR_TOS 0 \<circ> wrmsrl MSR_LBR_NHM_TO sighandler
          \<circ> wrmsrl MSR_LBR_NHM_FROM (kc_indirect_call_source (tocopy k))) k)"

definition lib_exit :: "kernel \<Rightarrow> kernel \<times> u64" where
  "lib_exit k =
    (case wl_leave one_ret lib_pop LIB_CACHE_SIZE (current k) () (lib_data k) of
       Some (d, v, unf) \<Rightarrow> (kill_if unf (k\<lparr>lib_data := d\<rparr>), v)
     | None \<Rightarrow> (kill_current k, 0))"

definition cbk_exit :: "kernel \<Rightarrow> kernel \<times> u64" where
  "cbk_exit k =
    (case wl_leave one_ret cbk_pop CBK_CACHE_SIZE (current k) (my_msrs k) (cbk_data k) of
       Some (d, (v, m), unf) \<Rightarrow> (on_msrs (\<lambda>_. m) (kill_if unf (k\<lparr>cbk_data := d\<rparr>)), v)
     | None \<Rightarrow> (kill_current k, 0))"

definition sig_exit :: "kernel \<Rightarrow> kernel" where
  "sig_exit k =
    (case wl_leave one_lbr sig_pop SIG_CACHE_SIZE (current k) (my_msrs k) (sig_data k) of
       Some (d, m, unf) \<Rightarrow> on_msrs (\<lambda>_. m) (kill_if unf (k\<lparr>sig_data := d\<rparr>))
     | None \<Rightarrow> kill_current k)"

section \<open>The search loop\<close>

lemma find_cache_entry_loop_eq:
  "find_cache_entry_loop es t i tmp =
    (case slot_of wl_task t es of
       Some j \<Rightarrow> Inl (i + j)
     | None \<Rightarrow> Inr (case tmp of Some j \<Rightarrow> Some j
                     | None \<Rightarrow> map_option (\<lambda>j. i + j) (slot_of wl_task NULL es)))"
  by (induction es arbitrary: i tmp) (auto simp: map_option_case split: option.splits)

lemma find_cache_entry_init_eq:
  "find_cache_entry_init data n t =
    (case slot_of wl_task t (take n data) of
       Some i \<Rightarrow> (data, i, False)
     | None \<Rightarrow>
        (case slot_of wl_task NULL (take n data) of
           Some j \<Rightarrow> (data[j := (data ! j)\<lparr>wl_task := t\<rparr>], j, False)
         | None \<Rightarrow> (data, 0, True)))"
  by (auto simp: find_cache_entry_init_def find_cache_entry_loop_eq split: option.splits)

section \<open>The contract of an entry\<close>

text \<open>The stack of task \<open>t\<close> in a table: that of its entry, empty when it has none.\<close>

definition task_stack :: "(wrapper_lib_t \<Rightarrow> 'a list) \<Rightarrow> wrapper_lib_t list \<Rightarrow> task \<Rightarrow> 'a list" where
  "task_stack contents data t =
    (case slot_of wl_task t data of Some i \<Rightarrow> contents (data ! i) | None \<Rightarrow> [])"

text \<open>A task owns at most one entry, and a free entry has empty stacks.\<close>

definition wf_table :: "(wrapper_lib_t \<Rightarrow> bool) \<Rightarrow> (wrapper_lib_t \<Rightarrow> 'a list) \<Rightarrow> nat \<Rightarrow> wrapper_lib_t list \<Rightarrow> bool" where
  "wf_table ok contents n data \<longleftrightarrow> length data = n \<and> sole_owner wl_task data
     \<and> (\<forall>e \<in> set data. ok e \<and> (wl_task e = NULL \<longrightarrow> contents e = []))"

text \<open>The task has an entry, or there is a free one.\<close>

definition table_room :: "wrapper_lib_t list \<Rightarrow> task \<Rightarrow> bool" where
  "table_room data t \<longleftrightarrow> slot_of wl_task t data \<noteq> None \<or> slot_of wl_task NULL data \<noteq> None"

text \<open>
  Calls of several tasks in any interleaving, on the abstract map from tasks to
  stacks and on a table.  \<open>None\<close> is an abstract overflow or underflow, and a kill.
\<close>

datatype ('i, 'c) call = Enter task 'i | Leave task 'c

fun caller :: "('i, 'c) call \<Rightarrow> task" where
  "caller (Enter t x) = t"
| "caller (Leave t c) = t"

fun calls_spec ::
  "nat \<Rightarrow> ('i \<Rightarrow> 'a) \<Rightarrow> (task \<Rightarrow> 'a list) \<Rightarrow> ('i, 'c) call list \<Rightarrow> ((task \<Rightarrow> 'a list) \<times> 'a list) option" where
  "calls_spec cap inp f [] = Some (f, [])"
| "calls_spec cap inp f (Enter t x # cs) =
    (if length (f t) < cap then calls_spec cap inp (f(t := inp x # f t)) cs else None)"
| "calls_spec cap inp f (Leave t c # cs) =
    (case f t of [] \<Rightarrow> None
     | y # ys \<Rightarrow> map_option (\<lambda>(g, os). (g, y # os)) (calls_spec cap inp (f(t := ys)) cs))"

fun wl_run ::
  "(wrapper_lib_t \<Rightarrow> 'i \<Rightarrow> wrapper_lib_t \<times> bool) \<Rightarrow> (wrapper_lib_t \<Rightarrow> bool)
    \<Rightarrow> (wrapper_lib_t \<Rightarrow> 'c \<Rightarrow> wrapper_lib_t \<times> 'o \<times> bool) \<Rightarrow> nat \<Rightarrow> wrapper_lib_t list
    \<Rightarrow> ('i, 'c) call list \<Rightarrow> (wrapper_lib_t list \<times> 'o list) option" where
  "wl_run push is_last pop n data [] = Some (data, [])"
| "wl_run push is_last pop n data (Enter t x # cs) =
    (case wl_enter push n t x data of
       (d, full, over) \<Rightarrow> if full \<or> over then None else wl_run push is_last pop n d cs)"
| "wl_run push is_last pop n data (Leave t c # cs) =
    (case wl_leave is_last pop n t c data of
       None \<Rightarrow> None
     | Some (d, v, unf) \<Rightarrow>
         if unf then None
         else map_option (\<lambda>(d, vs). (d, v # vs)) (wl_run push is_last pop n d cs))"

locale entry_lifo = bounded_lifo cap ok contents push pop inp out
  for cap :: nat and ok :: "wrapper_lib_t \<Rightarrow> bool" and contents :: "wrapper_lib_t \<Rightarrow> 'a list"
    and push :: "wrapper_lib_t \<Rightarrow> 'i \<Rightarrow> wrapper_lib_t \<times> bool"
    and pop :: "wrapper_lib_t \<Rightarrow> 'c \<Rightarrow> wrapper_lib_t \<times> 'o \<times> bool"
    and inp :: "'i \<Rightarrow> 'a" and out :: "'o \<Rightarrow> 'a" +
  fixes is_last :: "wrapper_lib_t \<Rightarrow> bool"
  assumes ok_tag: "ok (e\<lparr>wl_task := t\<rparr>) = ok e"
    and contents_tag: "contents (e\<lparr>wl_task := t\<rparr>) = contents e"
    and push_tag: "wl_task (fst (push e i)) = wl_task e"
    and pop_tag: "wl_task (fst (pop e c)) = wl_task e"
    and is_last_iff: "ok e \<Longrightarrow> is_last e \<longleftrightarrow> length (contents e) = 1"
    and cap_pos: "0 < cap"
begin

lemma table_nth:
  assumes "wf_table ok contents n data" "i < length data"
  shows "ok (data ! i)" "wl_task (data ! i) = NULL \<Longrightarrow> contents (data ! i) = []"
  using assms by (auto simp: wf_table_def)

lemma task_stack_slot:
  assumes "wf_table ok contents n data" "i < length data" "wl_task (data ! i) = t" "t \<noteq> NULL"
  shows "task_stack contents data t = contents (data ! i)"
  using assms sole_owner_slot [of wl_task data i t] by (simp add: wf_table_def task_stack_def)

text \<open>Replacing the entry \<open>i\<close> of a table by one for task \<open>t\<close>, or by a free one.\<close>

lemma table_update:
  assumes wf: "wf_table ok contents n data" and i: "i < length data" and e: "ok e"
    and t: "t \<noteq> NULL" "wl_task (data ! i) = t \<or> wl_task (data ! i) = NULL \<and> slot_of wl_task t data = None"
    and tag: "wl_task e = t \<or> wl_task e = NULL \<and> contents e = []"
  shows "wf_table ok contents n (data[i := e])"
    and "task_stack contents (data[i := e]) = (task_stack contents data)(t := contents e)"
proof -
  have so: "sole_owner wl_task (data[i := e])"
    using wf t tag by (intro sole_owner_update) (auto simp: wf_table_def)
  then show wf': "wf_table ok contents n (data[i := e])"
    using wf e t tag set_update_subset_insert [of data i e] by (auto simp: wf_table_def)
  show "task_stack contents (data[i := e]) = (task_stack contents data)(t := contents e)"
  proof
    fix u
    show "task_stack contents (data[i := e]) u = ((task_stack contents data)(t := contents e)) u"
    proof (cases "u = t")
      case True
      show ?thesis
      proof (cases "wl_task e = t")
        case True
        with \<open>u = t\<close> show ?thesis using task_stack_slot [OF wf', of i t] i t by simp
      next
        case False
        then have "slot_of wl_task t (data[i := e]) = None"
          using wf t tag i
          by (cases "wl_task (data ! i) = t")
            (auto simp: wf_table_def slot_of_update_other intro: slot_of_release sole_owner_slot)
        with \<open>u = t\<close> tag False show ?thesis by (simp add: task_stack_def)
      qed
    next
      case False
      show ?thesis
      proof (cases "u = NULL")
        case True
        have "task_stack contents d NULL = []" if "wf_table ok contents n d" for d
          using that by (auto simp: task_stack_def wf_table_def split: option.splits dest!: find_index_SomeD)
        with wf wf' True t show ?thesis by simp
      next
        case nn: False
        have sl: "slot_of wl_task u (data[i := e]) = slot_of wl_task u data"
          using False nn t tag by (intro slot_of_update_other) auto
        moreover have "j \<noteq> i" if "slot_of wl_task u data = Some j" for j
          using find_index_holds [OF that] False nn t by auto
        ultimately show ?thesis
          using False by (auto simp: task_stack_def split: option.splits)
      qed
    qed
  qed
qed

lemma enter_refines:
  assumes wf: "wf_table ok contents n data" and t: "t \<noteq> NULL" and room: "table_room data t"
    and depth: "length (task_stack contents data t) < cap"
  shows "\<exists>data'. wl_enter push n t x data = (data', False, False) \<and> wf_table ok contents n data'
    \<and> task_stack contents data' = (task_stack contents data)(t := inp x # task_stack contents data t)"
proof -
  have n: "take n data = data" using wf by (simp add: wf_table_def)
  have step: "\<exists>e'. push e x = (e', False) \<and> wf_table ok contents n (data[i := e'])
      \<and> task_stack contents (data[i := e']) = (task_stack contents data)(t := inp x # contents e)"
    if i: "i < length data" and own: "wl_task (data ! i) = t
          \<or> wl_task (data ! i) = NULL \<and> slot_of wl_task t data = None"
      and e: "e = (data ! i)\<lparr>wl_task := t\<rparr>" and len: "length (contents e) < cap" for i e
  proof -
    have "ok e" using table_nth [OF wf i] e ok_tag by simp
    from push_room [OF this len, of x] obtain e'
      where e': "push e x = (e', False)" "ok e'" "contents e' = inp x # contents e" by blast
    have "wl_task e' = t" using push_tag [of e x] e' e by simp
    with table_update [OF wf i e'(2) t own] e' show ?thesis by auto
  qed
  show ?thesis
  proof (cases "slot_of wl_task t data")
    case (Some i)
    note si = find_index_SomeD [OF Some]
    then have e: "data ! i = (data ! i)\<lparr>wl_task := t\<rparr>" by simp
    have "task_stack contents data t = contents (data ! i)" using Some by (simp add: task_stack_def)
    with step [of i, OF _ _ e] si depth show ?thesis
      by (auto simp: wl_enter_def find_cache_entry_init_eq n Some)
  next
    case None
    with room obtain j where j: "slot_of wl_task NULL data = Some j" by (auto simp: table_room_def)
    note sj = find_index_SomeD [OF j]
    have nil: "contents ((data ! j)\<lparr>wl_task := t\<rparr>) = []" "task_stack contents data t = []"
      using table_nth [OF wf] sj None contents_tag by (auto simp: task_stack_def)
    with step [of j, OF _ _ refl] sj None depth show ?thesis
      by (auto simp: wl_enter_def find_cache_entry_init_eq n j)
  qed
qed

lemma leave_refines:
  assumes wf: "wf_table ok contents n data" and t: "t \<noteq> NULL"
    and st: "task_stack contents data t = x # xs"
  shows "\<exists>data' v. wl_leave is_last pop n t c data = Some (data', v, False) \<and> out v = x
    \<and> wf_table ok contents n data' \<and> task_stack contents data' = (task_stack contents data)(t := xs)"
proof -
  have n: "take n data = data" using wf by (simp add: wf_table_def)
  from st obtain i where i: "slot_of wl_task t data = Some i" "contents (data ! i) = x # xs"
    by (auto simp: task_stack_def split: option.splits)
  note si = find_index_SomeD [OF i(1)]
  define e where "e = (if is_last (data ! i) then (data ! i)\<lparr>wl_task := NULL\<rparr> else data ! i)"
  have oki: "ok (data ! i)" using table_nth [OF wf] si by simp
  then have e: "ok e" "contents e = x # xs" using i ok_tag contents_tag by (auto simp: e_def)
  from pop_Cons [OF this, of c] obtain e' v where e': "pop e c = (e', v, False)" "out v = x"
    "ok e'" "contents e' = xs" by blast
  have "wl_task e' = wl_task e" using pop_tag [of e c] e'(1) by simp
  then have tag: "wl_task e' = t \<or> wl_task e' = NULL \<and> contents e' = []"
    using si is_last_iff [OF oki] i e' by (auto simp: e_def)
  have "wf_table ok contents n (data[i := e'])"
    "task_stack contents (data[i := e']) = (task_stack contents data)(t := xs)"
    using table_update [OF wf _ e'(3) t _ tag] si e'(4) by auto
  with e' i n show ?thesis by (auto simp: wl_leave_def e_def [symmetric])
qed

lemma leave_missing:
  assumes "wf_table ok contents n data" "slot_of wl_task t data = None"
  shows "wl_leave is_last pop n t c data = None"
  using assms by (simp add: wl_leave_def wf_table_def)

lemma enter_full:
  assumes "wf_table ok contents n data" "\<not> table_room data t"
  shows "fst (snd (wl_enter push n t x data))"
  using assms
  by (auto simp: wl_enter_def find_cache_entry_init_eq wf_table_def table_room_def split: prod.splits)

text \<open>A matched enter and leave restore the table's meaning for every task.\<close>

lemma enter_leave:
  assumes "wf_table ok contents n data" "t \<noteq> NULL" "table_room data t"
    "length (task_stack contents data t) < cap"
  shows "\<exists>data' data'' v. wl_enter push n t x data = (data', False, False)
    \<and> wl_leave is_last pop n t c data' = Some (data'', v, False) \<and> out v = inp x
    \<and> wf_table ok contents n data'' \<and> task_stack contents data'' = task_stack contents data"
proof -
  from enter_refines [OF assms, of x] obtain d1 where d1: "wl_enter push n t x data = (d1, False, False)"
    "wf_table ok contents n d1"
    "task_stack contents d1 = (task_stack contents data)(t := inp x # task_stack contents data t)" by blast
  then have "task_stack contents d1 t = inp x # task_stack contents data t" by simp
  from leave_refines [OF d1(2) assms(2) this, of c] d1 show ?thesis by (auto simp: fun_upd_idem)
qed

text \<open>Well-formedness survives every call, the failing ones included.\<close>

lemma push_ok: "ok e \<Longrightarrow> ok (fst (push e x))"
  using push_room [of e x] push_full [of e x] by (cases "length (contents e) < cap") auto

lemma enter_wf:
  assumes wf: "wf_table ok contents n data" and n: "0 < n" and t: "t \<noteq> NULL"
  shows "wf_table ok contents n (fst (wl_enter push n t x data))"
proof -
  have upd: "wf_table ok contents n (data[i := fst (push e x)])"
    if i: "i < length data" and e: "ok e" "wl_task e \<noteq> NULL"
      "wl_task (data ! i) = wl_task e \<or> wl_task (data ! i) = NULL \<and> slot_of wl_task (wl_task e) data = None" for i e
    using table_update(1) [OF wf i push_ok [OF e(1)] e(2)] that push_tag by simp
  have len: "length data = n" "take n data = data" using wf by (simp_all add: wf_table_def)
  show ?thesis
  proof (cases "slot_of wl_task t data")
    case (Some i)
    with find_index_SomeD [OF Some] table_nth(1) [OF wf] upd [of i "data ! i"] t len show ?thesis
      by (simp add: wl_enter_def find_cache_entry_init_eq split_beta)
  next
    case none: None
    show ?thesis
    proof (cases "slot_of wl_task NULL data")
      case (Some j)
      with none find_index_SomeD [OF Some] table_nth(1) [OF wf] ok_tag
        upd [of j "(data ! j)\<lparr>wl_task := t\<rparr>"] t len show ?thesis
        by (simp add: wl_enter_def find_cache_entry_init_eq split_beta)
    next
      case None
      then have "wl_task (data ! 0) \<noteq> NULL" using len n by (auto simp: find_index_None_iff)
      with none None table_nth(1) [OF wf] upd [of 0 "data ! 0"] len n show ?thesis
        by (simp add: wl_enter_def find_cache_entry_init_eq split_beta)
    qed
  qed
qed

lemma leave_wf:
  assumes wf: "wf_table ok contents n data" and t: "t \<noteq> NULL"
    and lv: "wl_leave is_last pop n t c data = Some (data', v, unf)"
  shows "wf_table ok contents n data'"
proof (cases "task_stack contents data t")
  case (Cons x xs)
  from leave_refines [OF wf t this, of c] lv show ?thesis by auto
next
  case Nil
  have len: "take n data = data" using wf by (simp add: wf_table_def)
  with lv obtain i where i: "slot_of wl_task t data = Some i" by (auto simp: wl_leave_def split: option.splits)
  note si = find_index_SomeD [OF i]
  have "ok (data ! i)" "contents (data ! i) = []"
    using Nil i table_nth(1) [OF wf] si by (auto simp: task_stack_def)
  moreover from this have "\<not> is_last (data ! i)" using is_last_iff by simp
  ultimately obtain u where "pop (data ! i) c = (data ! i, u, True)" using pop_Nil by blast
  with lv i len \<open>\<not> is_last (data ! i)\<close> have "data' = data" by (simp add: wl_leave_def)
  with wf show ?thesis by simp
qed

lemma enter_owners:
  assumes "wf_table ok contents n data" "wl_enter push n t x data = (data', full, over)" "table_room data t"
  shows "wl_task ` set data' \<subseteq> insert t (wl_task ` set data)"
proof -
  have n: "take n data = data" using assms(1) by (simp add: wf_table_def)
  obtain i e where e: "data' = data[i := fst (push e x)]" "wl_task e = t"
  proof (cases "slot_of wl_task t data")
    case (Some i)
    with assms n find_index_SomeD [OF Some] show ?thesis
      by (intro that [of i "data ! i"]) (auto simp: wl_enter_def find_cache_entry_init_eq split: prod.splits)
  next
    case None
    with assms(3) obtain j where j: "slot_of wl_task NULL data = Some j" by (auto simp: table_room_def)
    with None assms n find_index_SomeD [OF j] show ?thesis
      by (intro that [of j "(data ! j)\<lparr>wl_task := t\<rparr>"])
        (auto simp: wl_enter_def find_cache_entry_init_eq split: prod.splits)
  qed
  then show ?thesis
    using set_update_subset_insert [of data i "fst (push e x)"] push_tag [of e x] by auto
qed

lemma leave_owners:
  assumes "wl_leave is_last pop n t c data = Some (data', v, unf)"
  shows "wl_task ` set data' \<subseteq> insert NULL (wl_task ` set data)"
proof -
  obtain i e where e: "data' = data[i := fst (pop e c)]" "i < length data"
    "wl_task e = NULL \<or> wl_task e = wl_task (data ! i)"
  proof (cases "slot_of wl_task t (take n data)")
    case (Some i)
    with assms find_index_lt [OF Some] show ?thesis
      by (intro that [of i "if is_last (data ! i) then (data ! i)\<lparr>wl_task := NULL\<rparr> else data ! i"])
        (auto simp: wl_leave_def split: prod.splits)
  qed (use assms in \<open>simp add: wl_leave_def\<close>)
  then show ?thesis
    using set_update_subset_insert [of data i "fst (pop e c)"] pop_tag [of e c] by auto
qed

lemma room_if_few:
  assumes "wf_table ok contents n data" "finite T" "card T \<le> n" "t \<in> T"
    "wl_task ` set data \<subseteq> insert NULL T"
  shows "table_room data t"
proof (cases "slot_of wl_task t data")
  case None
  then have "wl_task ` set data - {NULL} \<subseteq> T - {t}"
    using assms(5) by (auto simp: find_index_None_iff)
  then have "occupied wl_task data \<le> card (T - {t})"
    using assms(1,2) by (simp add: occupied_card wf_table_def card_mono)
  also have "\<dots> < length data"
    using assms card_Diff1_less [of T t] by (simp add: wf_table_def)
  finally show ?thesis using occupied_free_slot by (fastforce simp: table_room_def)
qed (simp add: table_room_def)

lemma run_refines_calls:
  assumes "wf_table ok contents n data" "finite T" "card T \<le> n" "NULL \<notin> T"
    "wl_task ` set data \<subseteq> insert NULL T" "\<forall>p \<in> set cs. caller p \<in> T"
    "calls_spec cap inp (task_stack contents data) cs = Some (f, vs)"
  shows "\<exists>data' os. wl_run push is_last pop n data cs = Some (data', os) \<and> map out os = vs
    \<and> wf_table ok contents n data' \<and> task_stack contents data' = f"
  using assms
proof (induction cs arbitrary: data vs)
  case (Cons p cs)
  show ?case
  proof (cases p)
    case (Enter t x)
    with Cons.prems have t: "t \<in> T" "t \<noteq> NULL" and len: "length (task_stack contents data t) < cap"
      by (auto split: if_splits)
    note room = room_if_few [OF Cons.prems(1,2,3) t(1) Cons.prems(5)]
    from enter_refines [OF Cons.prems(1) t(2) room len, of x] obtain d1
      where d1: "wl_enter push n t x data = (d1, False, False)" "wf_table ok contents n d1"
        "task_stack contents d1 = (task_stack contents data)(t := inp x # task_stack contents data t)"
      by blast
    have "wl_task ` set d1 \<subseteq> insert NULL T"
      using enter_owners [OF Cons.prems(1) d1(1) room] Cons.prems(5) t(1) by blast
    from Cons.IH [OF d1(2) Cons.prems(2-4) this] Cons.prems(6,7) len d1 Enter show ?thesis
      by (auto simp del: fun_upd_apply)
  next
    case (Leave t c)
    with Cons.prems obtain y ys where st: "task_stack contents data t = y # ys" and t: "t \<noteq> NULL"
      by (auto split: list.splits)
    from leave_refines [OF Cons.prems(1) t st, of c] obtain d1 v
      where d1: "wl_leave is_last pop n t c data = Some (d1, v, False)" "out v = y"
        "wf_table ok contents n d1" "task_stack contents d1 = (task_stack contents data)(t := ys)"
      by blast
    have "wl_task ` set d1 \<subseteq> insert NULL T"
      using leave_owners [OF d1(1)] Cons.prems(5) by blast
    from Cons.IH [OF d1(3) Cons.prems(2-4) this] Cons.prems(6,7) st d1 Leave show ?thesis
      by (auto simp del: fun_upd_apply)
  qed
qed simp

end

section \<open>The three caches\<close>

definition lib_ok :: "wrapper_lib_t \<Rightarrow> bool" where "lib_ok e \<longleftrightarrow> wf_stack (rets e)"
definition lib_contents :: "wrapper_lib_t \<Rightarrow> u64 list" where "lib_contents e = stack_list (rets e)"
definition sig_ok :: "wrapper_lib_t \<Rightarrow> bool" where "sig_ok e \<longleftrightarrow> wf_lbr_stack (lbrs e)"
definition sig_contents :: "wrapper_lib_t \<Rightarrow> lbr_obs list" where "sig_contents e = lbr_stack_views (lbrs e)"
definition cbk_ok :: "wrapper_lib_t \<Rightarrow> bool" where
  "cbk_ok e \<longleftrightarrow> lib_ok e \<and> sig_ok e \<and> ssize (rets e) = ssize (lbrs e)"
definition cbk_contents :: "wrapper_lib_t \<Rightarrow> (u64 \<times> lbr_obs) list" where
  "cbk_contents e = zip (lib_contents e) (sig_contents e)"
definition cbk_obs :: "u64 \<times> msr_file \<Rightarrow> u64 \<times> lbr_obs" where
  "cbk_obs x = (fst x, lbr_view (snd x))"

lemma length_contents:
  "lib_ok e \<Longrightarrow> length (lib_contents e) = ssize (rets e)"
  "sig_ok e \<Longrightarrow> length (sig_contents e) = ssize (lbrs e)"
  by (simp_all add: lib_ok_def sig_ok_def lib_contents_def sig_contents_def lbr_stack_views_def
      wf_stack_def wf_lbr_stack_def length_stack_list)

interpretation lib_entry: entry_lifo STACKSIZE lib_ok lib_contents lib_push lib_pop id id one_ret
proof unfold_locales
  fix e i assume "lib_ok e" "length (lib_contents e) < STACKSIZE"
  then show "\<exists>e'. lib_push e i = (e', False) \<and> lib_ok e' \<and> lib_contents e' = id i # lib_contents e"
    using rets_lifo.push_room [of "rets e" i] by (auto simp: lib_ok_def lib_contents_def lib_push_def)
next
  fix e i assume "lib_ok e" "length (lib_contents e) \<ge> STACKSIZE"
  then show "lib_push e i = (e, True)"
    using rets_lifo.push_full [of "rets e" i] by (auto simp: lib_ok_def lib_contents_def lib_push_def)
next
  fix e x xs c assume "lib_ok e" "lib_contents e = x # xs"
  then show "\<exists>e' v. lib_pop e c = (e', v, False) \<and> id v = x \<and> lib_ok e' \<and> lib_contents e' = xs"
    using rets_lifo.pop_Cons [of "rets e" x xs] by (auto simp: lib_ok_def lib_contents_def lib_pop_def)
next
  fix e c assume "lib_ok e" "lib_contents e = []"
  then show "\<exists>v. lib_pop e c = (e, v, True)"
    using rets_lifo.pop_Nil [of "rets e"] by (auto simp: lib_ok_def lib_contents_def lib_pop_def)
qed (auto simp: lib_ok_def lib_contents_def lib_push_def lib_pop_def one_ret_def STACKSIZE_def
    length_contents [unfolded lib_ok_def lib_contents_def] split: prod.splits)

interpretation sig_entry: entry_lifo STACKSIZE sig_ok sig_contents sig_push sig_pop lbr_view lbr_view one_lbr
proof unfold_locales
  fix e i assume "sig_ok e" "length (sig_contents e) < STACKSIZE"
  then show "\<exists>e'. sig_push e i = (e', False) \<and> sig_ok e' \<and> sig_contents e' = lbr_view i # sig_contents e"
    using lbrs_lifo.push_room [of "lbrs e" i] by (auto simp: sig_ok_def sig_contents_def sig_push_def)
next
  fix e i assume "sig_ok e" "length (sig_contents e) \<ge> STACKSIZE"
  then show "sig_push e i = (e, True)"
    using lbrs_lifo.push_full [of "lbrs e" i] by (auto simp: sig_ok_def sig_contents_def sig_push_def)
next
  fix e x xs c assume "sig_ok e" "sig_contents e = x # xs"
  then show "\<exists>e' v. sig_pop e c = (e', v, False) \<and> lbr_view v = x \<and> sig_ok e' \<and> sig_contents e' = xs"
    using lbrs_lifo.pop_Cons [of "lbrs e" x xs c] by (fastforce simp: sig_ok_def sig_contents_def sig_pop_def)
next
  fix e c assume "sig_ok e" "sig_contents e = []"
  then show "\<exists>v. sig_pop e c = (e, v, True)"
    using lbrs_lifo.pop_Nil [of "lbrs e" c] by (auto simp: sig_ok_def sig_contents_def sig_pop_def)
qed (auto simp: sig_ok_def sig_contents_def sig_push_def sig_pop_def one_lbr_def STACKSIZE_def
    length_contents [unfolded sig_ok_def sig_contents_def] split: prod.splits)

lemma length_cbk_contents: "cbk_ok e \<Longrightarrow> length (cbk_contents e) = ssize (rets e)"
  by (auto simp: cbk_ok_def cbk_contents_def length_contents)

interpretation cbk_entry: entry_lifo STACKSIZE cbk_ok cbk_contents cbk_push cbk_pop cbk_obs cbk_obs one_ret
proof unfold_locales
  fix e and i :: "u64 \<times> msr_file" assume a: "cbk_ok e" "length (cbk_contents e) < STACKSIZE"
  then have l: "length (lib_contents e) < STACKSIZE" "length (sig_contents e) < STACKSIZE" "lib_ok e" "sig_ok e"
    by (auto simp: length_cbk_contents length_contents cbk_ok_def)
  obtain s where s: "stack_push (rets e) (fst i) = (s, False)" "wf_stack s"
    "stack_list s = fst i # lib_contents e"
    using rets_lifo.push_room [of "rets e" "fst i"] l by (auto simp: lib_ok_def lib_contents_def)
  obtain r where r: "lbr_stack_push (lbrs e) (snd i) = (r, False)" "wf_lbr_stack r"
    "lbr_stack_views r = lbr_view (snd i) # sig_contents e"
    using lbrs_lifo.push_room [of "lbrs e" "snd i"] l by (auto simp: sig_ok_def sig_contents_def)
  have "ssize s = ssize r"
    using s r a by (auto simp: stack_push_def lbr_stack_push_def cbk_ok_def split: if_splits)
  with s r show "\<exists>e'. cbk_push e i = (e', False) \<and> cbk_ok e' \<and> cbk_contents e' = cbk_obs i # cbk_contents e"
    by (simp add: cbk_push_def lib_push_def sig_push_def cbk_ok_def lib_ok_def sig_ok_def
        cbk_contents_def lib_contents_def sig_contents_def cbk_obs_def)
next
  fix e and i :: "u64 \<times> msr_file" assume a: "cbk_ok e" "length (cbk_contents e) \<ge> STACKSIZE"
  then have "lib_push e (fst i) = (e, True)" "sig_push e (snd i) = (e, True)"
    by (auto simp: length_cbk_contents length_contents cbk_ok_def lib_entry.push_full sig_entry.push_full)
  then show "cbk_push e i = (e, True)" by (simp add: cbk_push_def)
next
  fix e x xs c assume a: "cbk_ok e" "cbk_contents e = x # xs"
  then obtain y ys z zs where yz: "lib_contents e = y # ys" "sig_contents e = z # zs" "x = (y, z)" "xs = zip ys zs"
    by (cases "lib_contents e"; cases "sig_contents e") (auto simp: cbk_contents_def)
  obtain r m where r: "lbr_stack_pop (lbrs e) c = (r, m, False)" "lbr_view m = z" "wf_lbr_stack r"
    "lbr_stack_views r = zs"
    using lbrs_lifo.pop_Cons [of "lbrs e" z zs c] a yz by (auto simp: cbk_ok_def sig_ok_def sig_contents_def)
  obtain s v where s: "stack_pop (rets e) = (s, v, False)" "v = y" "wf_stack s" "stack_list s = ys"
    using rets_lifo.pop_Cons [of "rets e" y ys] a yz by (auto simp: cbk_ok_def lib_ok_def lib_contents_def)
  have "ssize s = ssize r"
    using s r a by (auto simp: stack_pop_def lbr_stack_pop_def Let_def cbk_ok_def split: if_splits)
  with s r yz show "\<exists>e' v. cbk_pop e c = (e', v, False) \<and> cbk_obs v = x \<and> cbk_ok e' \<and> cbk_contents e' = xs"
    by (simp add: cbk_pop_def lib_pop_def sig_pop_def cbk_ok_def lib_ok_def sig_ok_def
        cbk_contents_def lib_contents_def sig_contents_def cbk_obs_def)
next
  fix e c assume a: "cbk_ok e" "cbk_contents e = []"
  then have "ssize (rets e) = 0" using length_cbk_contents [of e] by simp
  with a show "\<exists>v. cbk_pop e c = (e, v, True)"
    by (simp add: cbk_pop_def lib_pop_def sig_pop_def cbk_ok_def stack_pop_def lbr_stack_pop_def)
qed (auto simp: cbk_ok_def lib_ok_def sig_ok_def cbk_contents_def lib_contents_def sig_contents_def
    cbk_push_def cbk_pop_def lib_push_def lib_pop_def sig_push_def sig_pop_def STACKSIZE_def
    length_contents [unfolded lib_ok_def lib_contents_def sig_ok_def sig_contents_def] one_ret_def
    split: prod.splits)

section \<open>The handlers through the contract\<close>

text \<open>Library calls of several tasks, as the handlers run them.\<close>

fun lib_trace :: "kernel \<Rightarrow> (u64, unit) call list \<Rightarrow> kernel \<times> u64 list" where
  "lib_trace k [] = (k, [])"
| "lib_trace k (Enter t ret # cs) = lib_trace (lib_init ret (k\<lparr>current := t\<rparr>)) cs"
| "lib_trace k (Leave t c # cs) =
    (let (k, v) = lib_exit (k\<lparr>current := t\<rparr>); (k, vs) = lib_trace k cs in (k, v # vs))"

lemma lib_trace_run:
  assumes "wl_run lib_push one_ret lib_pop LIB_CACHE_SIZE (lib_data k) cs = Some (d, vs)"
  shows "\<exists>k'. lib_trace k cs = (k', vs) \<and> lib_data k' = d \<and> killed k' = killed k"
  using assms
proof (induction cs arbitrary: k vs)
  case (Cons p cs)
  show ?case
  proof (cases p)
    case (Enter t x)
    with Cons.prems obtain d1 where d1: "wl_enter lib_push LIB_CACHE_SIZE t x (lib_data k) = (d1, False, False)"
      "wl_run lib_push one_ret lib_pop LIB_CACHE_SIZE d1 cs = Some (d, vs)"
      by (auto split: prod.splits if_splits)
    then have "lib_init x (k\<lparr>current := t\<rparr>) = k\<lparr>current := t, lib_data := d1\<rparr>"
      by (simp add: lib_init_def)
    with Cons.IH [of "k\<lparr>current := t, lib_data := d1\<rparr>" vs] d1(2) Enter show ?thesis by simp
  next
    case (Leave t c)
    with Cons.prems obtain d1 v ws where d1:
      "wl_leave one_ret lib_pop LIB_CACHE_SIZE t c (lib_data k) = Some (d1, v, False)"
      "wl_run lib_push one_ret lib_pop LIB_CACHE_SIZE d1 cs = Some (d, ws)" "vs = v # ws"
      by (auto split: prod.splits option.splits if_splits)
    then have "lib_exit (k\<lparr>current := t\<rparr>) = (k\<lparr>current := t, lib_data := d1\<rparr>, v)"
      by (simp add: lib_exit_def)
    moreover obtain k' where "lib_trace (k\<lparr>current := t, lib_data := d1\<rparr>) cs = (k', ws)"
      "lib_data k' = d" "killed k' = killed k"
      using Cons.IH [of "k\<lparr>current := t, lib_data := d1\<rparr>" ws] d1(2) by auto
    ultimately show ?thesis using Leave d1(3) by simp
  qed
qed auto

abbreviation cbk_stacks :: "kernel \<Rightarrow> task \<Rightarrow> (u64 \<times> lbr_obs) list" where
  "cbk_stacks k \<equiv> task_stack cbk_contents (cbk_data k)"

abbreviation sig_stacks :: "kernel \<Rightarrow> task \<Rightarrow> lbr_obs list" where
  "sig_stacks k \<equiv> task_stack sig_contents (sig_data k)"

abbreviation lib_stacks :: "kernel \<Rightarrow> task \<Rightarrow> u64 list" where
  "lib_stacks k \<equiv> task_stack lib_contents (lib_data k)"

abbreviation wf_lib :: "kernel \<Rightarrow> bool" where
  "wf_lib k \<equiv> wf_table lib_ok lib_contents LIB_CACHE_SIZE (lib_data k)"

abbreviation wf_cbk :: "kernel \<Rightarrow> bool" where
  "wf_cbk k \<equiv> wf_table cbk_ok cbk_contents CBK_CACHE_SIZE (cbk_data k)"

abbreviation wf_sig :: "kernel \<Rightarrow> bool" where
  "wf_sig k \<equiv> wf_table sig_ok sig_contents SIG_CACHE_SIZE (sig_data k)"

lemma lib_init_refines:
  assumes "wf_lib k" "current k \<noteq> NULL" "table_room (lib_data k) (current k)"
    "length (lib_stacks k (current k)) < STACKSIZE"
  shows "killed (lib_init ret k) = killed k" "wf_lib (lib_init ret k)"
    "lib_stacks (lib_init ret k) = (lib_stacks k)(current k := ret # lib_stacks k (current k))"
    "msrs (lib_init ret k) = msrs k" "current (lib_init ret k) = current k"
  using lib_entry.enter_refines [OF assms, of ret] by (auto simp: lib_init_def)

lemma lib_exit_refines:
  assumes "wf_lib k" "current k \<noteq> NULL" "lib_stacks k (current k) = x # xs"
  shows "snd (lib_exit k) = x" "wf_lib (fst (lib_exit k))" "killed (fst (lib_exit k)) = killed k"
    "lib_stacks (fst (lib_exit k)) = (lib_stacks k)(current k := xs)"
    "msrs (fst (lib_exit k)) = msrs k"
  using lib_entry.leave_refines [OF assms, of "()"] by (auto simp: lib_exit_def)

lemma cbk_init_refines:
  assumes "wf_cbk k" "current k \<noteq> NULL" "table_room (cbk_data k) (current k)"
    "length (cbk_stacks k (current k)) < STACKSIZE"
  shows "killed (cbk_init ret k) = killed k" "wf_cbk (cbk_init ret k)"
    "cbk_stacks (cbk_init ret k) =
      (cbk_stacks k)(current k := (ret, lbr_view (my_msrs k)) # cbk_stacks k (current k))"
    "my_msrs (cbk_init ret k) = flush_lbr True (my_msrs k)"
  using cbk_entry.enter_refines [OF assms, of "(ret, my_msrs k)"] by (auto simp: cbk_init_def cbk_obs_def)

lemma cbk_exit_refines:
  assumes "wf_cbk k" "current k \<noteq> NULL" "cbk_stacks k (current k) = (x, v) # xs"
  shows "snd (cbk_exit k) = x" "wf_cbk (fst (cbk_exit k))" "killed (fst (cbk_exit k)) = killed k"
    "cbk_stacks (fst (cbk_exit k)) = (cbk_stacks k)(current k := xs)"
    "lbr_view (my_msrs (fst (cbk_exit k))) = v"
  using cbk_entry.leave_refines [OF assms, of "my_msrs k"] by (auto simp: cbk_exit_def cbk_obs_def)

lemma sig_init_refines:
  assumes "wf_sig k" "current k \<noteq> NULL" "table_room (sig_data k) (current k)"
    "length (sig_stacks k (current k)) < STACKSIZE"
  shows "killed (sig_init h k) = killed k" "wf_sig (sig_init h k)"
    "sig_stacks (sig_init h k) = (sig_stacks k)(current k := lbr_view (my_msrs k) # sig_stacks k (current k))"
  using sig_entry.enter_refines [OF assms, of "my_msrs k"] by (auto simp: sig_init_def Let_def)

lemma sig_exit_refines:
  assumes "wf_sig k" "current k \<noteq> NULL" "sig_stacks k (current k) = v # xs"
  shows "wf_sig (sig_exit k)" "killed (sig_exit k) = killed k"
    "sig_stacks (sig_exit k) = (sig_stacks k)(current k := xs)" "lbr_view (my_msrs (sig_exit k)) = v"
  using sig_entry.leave_refines [OF assms, of "my_msrs k"] by (auto simp: sig_exit_def)

text \<open>The registers a signal handler starts with.\<close>

lemma sig_init_view:
  "lbr_view (my_msrs (sig_init h k)) =
    (if start_code k (current k) < h \<and> h < end_code k (current k) then IA32_DEBUGCTL else 0,
     my_msrs k MSR_LBR_SELECT, 0,
     LBR_FROM (kc_indirect_call_source (tocopy k)) # replicate 15 0, h # replicate 15 0)"
proof -
  have head: "map f [0..<LBR_ENTRIES] = f 0 # replicate 15 0"
    if "\<And>i. 0 < i \<Longrightarrow> i < LBR_ENTRIES \<Longrightarrow> f i = 0" for f :: "nat \<Rightarrow> u64"
    using that by (intro nth_equalityI) (auto simp: nth_Cons' LBR_ENTRIES_def)
  obtain m where m: "my_msrs (sig_init h k) = m" by blast
  have r: "m r = (if r = MSR_LBR_TOS then 0 else if r = MSR_LBR_NHM_TO then h
      else if r = MSR_LBR_NHM_FROM then kc_indirect_call_source (tocopy k)
      else flush_lbr (start_code k (current k) < h \<and> h < end_code k (current k)) (my_msrs k) r)" for r
    unfolding m [symmetric] by (simp add: sig_init_def Let_def wrmsrl_def split_beta)
  have "map (\<lambda>i. LBR_FROM (m (MSR_LBR_NHM_FROM + i))) [0..<LBR_ENTRIES]
      = LBR_FROM (kc_indirect_call_source (tocopy k)) # replicate 15 0"
    by (subst head) (auto simp: r flush_lbr_apply msr_consts LBR_ENTRIES_def)
  moreover have "map (\<lambda>i. m (MSR_LBR_NHM_TO + i)) [0..<LBR_ENTRIES] = h # replicate 15 0"
    by (subst head) (auto simp: r flush_lbr_apply msr_consts LBR_ENTRIES_def)
  ultimately show ?thesis
    unfolding m lbr_view_def by (simp add: r flush_lbr_apply msr_consts LBR_ENTRIES_def)
qed

section \<open>Properties\<close>

lemma zero_wrapper_simps [simp]:
  "wl_task zero_wrapper = NULL" "rets zero_wrapper = zero_stack" "lbrs zero_wrapper = zero_stack_lbr"
  by (simp_all add: zero_wrapper_def)

lemma zero_wrapper_empty [simp]:
  "lib_ok zero_wrapper" "lib_contents zero_wrapper = []" "sig_ok zero_wrapper" "sig_contents zero_wrapper = []"
  "cbk_ok zero_wrapper" "cbk_contents zero_wrapper = []"
  by (simp_all add: lib_ok_def lib_contents_def sig_ok_def sig_contents_def lbr_stack_views_def
      cbk_ok_def cbk_contents_def)

lemma wf_table_zero:
  "ok zero_wrapper \<Longrightarrow> contents zero_wrapper = [] \<Longrightarrow> wf_table ok contents n (replicate n zero_wrapper)"
  by (simp add: wf_table_def sole_owner_replicate)

lemma task_stack_zero [simp]:
  "contents zero_wrapper = [] \<Longrightarrow> task_stack contents (replicate n zero_wrapper) t = []"
  by (auto simp: task_stack_def split: option.splits dest: find_index_lt)

lemma table_room_zero: "0 < n \<Longrightarrow> table_room (replicate n zero_wrapper) t"
  by (auto simp: table_room_def find_index_None_iff)

lemmas boot_tables = wf_table_zero table_room_zero

text \<open>
  C10: The library-call cache is, for every task, a private stack of return
  addresses.  Take any interleaving of \<open>LIB_ENTER\<close> and \<open>LIB_EXIT\<close> by at most
  \<open>LIB_CACHE_SIZE\<close> tasks in which no task nests more than \<open>STACKSIZE\<close> calls or
  leaves more calls than it entered: every \<open>lib_exit\<close> returns the address of the
  matching \<open>lib_init\<close> of the same task, and no task is killed.
\<close>

theorem lib_calls_lifo:
  assumes "wf_lib k" "finite T" "card T \<le> LIB_CACHE_SIZE" "NULL \<notin> T"
    "wl_task ` set (lib_data k) \<subseteq> insert NULL T" "\<forall>p \<in> set cs. caller p \<in> T"
    "calls_spec STACKSIZE id (lib_stacks k) cs = Some (f, vs)"
  shows "\<exists>k'. lib_trace k cs = (k', vs) \<and> lib_stacks k' = f \<and> killed k' = killed k \<and> wf_lib k'"
proof -
  from lib_entry.run_refines_calls [OF assms] obtain d
    where "wl_run lib_push one_ret lib_pop LIB_CACHE_SIZE (lib_data k) cs = Some (d, vs)"
      "wf_table lib_ok lib_contents LIB_CACHE_SIZE d" "task_stack lib_contents d = f" by auto
  then show ?thesis using lib_trace_run by blast
qed

theorem lib_calls_lifo_witness:
  "\<exists>k'. lib_trace boot_kernel [Enter 7 0x10, Enter 8 0x20, Enter 7 0x30, Leave 7 (), Leave 8 (), Leave 7 ()]
     = (k', [0x30, 0x20, 0x10]) \<and> lib_stacks k' 7 = [] \<and> killed k' = {}"
proof -
  let ?cs = "[Enter 7 0x10, Enter 8 0x20, Enter 7 0x30, Leave 7 (), Leave 8 (), Leave 7 ()] :: (u64, unit) call list"
  have "\<exists>f. calls_spec STACKSIZE id (lib_stacks boot_kernel) ?cs = Some (f, [0x30, 0x20, 0x10]) \<and> f 7 = []"
    by (simp add: STACKSIZE_def)
  then obtain f where f: "calls_spec STACKSIZE id (lib_stacks boot_kernel) ?cs = Some (f, [0x30, 0x20, 0x10])"
    "f 7 = []" by blast
  have "wf_lib boot_kernel" by (simp add: boot_tables)
  with lib_calls_lifo [of boot_kernel "{7, 8}" ?cs f "[0x30, 0x20, 0x10]"] f show ?thesis
    by (auto simp: LIB_CACHE_SIZE_def)
qed

text \<open>
  A callback runs with a flushed, enabled LBR, and leaving it gives back
  what entering it took: the return address, and the LBR as it was before the
  callback, on whatever CPU the task has ended up and whatever the callback and
  the other tasks did in between, provided they left the stack of this task
  as they found it.
\<close>

theorem callback_roundtrip:
  assumes "wf_cbk k" "current k \<noteq> NULL" "table_room (cbk_data k) (current k)"
    "length (cbk_stacks k (current k)) < STACKSIZE"
    and "wf_cbk k'" "current k' = current k"
    "cbk_stacks k' (current k) = cbk_stacks (cbk_init ret k) (current k)"
  shows "lbr_view (my_msrs (cbk_init ret k)) =
      (IA32_DEBUGCTL, my_msrs k MSR_LBR_SELECT, 0, replicate LBR_ENTRIES 0, replicate LBR_ENTRIES 0)
    \<and> snd (cbk_exit k') = ret
    \<and> lbr_view (my_msrs (fst (cbk_exit k'))) = lbr_view (my_msrs k)
    \<and> cbk_stacks (fst (cbk_exit k')) (current k) = cbk_stacks k (current k)
    \<and> killed (fst (cbk_exit k')) = killed k'"
  using cbk_init_refines [OF assms(1-4), of ret]
    cbk_exit_refines [OF assms(5), of ret "lbr_view (my_msrs k)" "cbk_stacks k (current k)"]
    assms(2,6,7) by (simp add: lbr_view_flush)

theorem callback_roundtrip_witness:
  "let k = boot_kernel\<lparr>current := 7, msrs := (\<lambda>_ _. 5)\<rparr>;
       k' = (cbk_init 0x40 k)\<lparr>cpu := 3, msrs := (\<lambda>_ _. 9)\<rparr>
   in snd (cbk_exit k') = 0x40 \<and> lbr_view (msrs (fst (cbk_exit k')) 3) = lbr_view (\<lambda>_. 5)"
proof -
  let ?k = "boot_kernel\<lparr>current := 7, msrs := (\<lambda>_ _. 5)\<rparr>"
  let ?k' = "(cbk_init 0x40 ?k)\<lparr>cpu := 3, msrs := (\<lambda>_ _. 9)\<rparr>"
  have k: "wf_cbk ?k" "current ?k \<noteq> NULL" "table_room (cbk_data ?k) (current ?k)"
    "length (cbk_stacks ?k (current ?k)) < STACKSIZE"
    by (simp_all add: boot_tables STACKSIZE_def CBK_CACHE_SIZE_def)
  have "current ?k' = current ?k"
    by (simp add: cbk_init_def split_beta)
  moreover have "cpu (fst (cbk_exit ?k')) = 3"
    by (simp add: cbk_exit_def split: option.splits prod.splits)
  ultimately show ?thesis
    using callback_roundtrip [OF k, of ?k' "0x40"] cbk_init_refines(2) [OF k, of "0x40"] by (simp add: Let_def)
qed

text \<open>
  C19: A signal handler starts with an LBR whose only entry is the synthetic
  branch from the module's indirect call to the handler, enabled exactly when
  the handler lies in the target's code; \<open>sigreturn\<close> gives the interrupted code
  its LBR back, the enable bit included, and pops the state of this signal only.
\<close>

theorem signal_roundtrip:
  assumes "wf_sig k" "current k \<noteq> NULL" "table_room (sig_data k) (current k)"
    "length (sig_stacks k (current k)) < STACKSIZE"
    and "wf_sig k'" "current k' = current k"
    "sig_stacks k' (current k) = sig_stacks (sig_init h k) (current k)"
  shows "lbr_view (my_msrs (sig_init h k)) =
      (if start_code k (current k) < h \<and> h < end_code k (current k) then IA32_DEBUGCTL else 0,
       my_msrs k MSR_LBR_SELECT, 0,
       LBR_FROM (kc_indirect_call_source (tocopy k)) # replicate 15 0, h # replicate 15 0)
    \<and> lbr_view (my_msrs (sig_exit k')) = lbr_view (my_msrs k)
    \<and> sig_stacks (sig_exit k') (current k) = sig_stacks k (current k)
    \<and> killed (sig_exit k') = killed k'"
  using sig_init_refines [OF assms(1-4), of h] sig_init_view [of h k]
    sig_exit_refines [OF assms(5), of "lbr_view (my_msrs k)" "sig_stacks k (current k)"]
    assms(2,6,7) by simp

theorem signal_roundtrip_witness:
  "let k = boot_kernel\<lparr>current := 7, msrs := (\<lambda>_ _. 5), end_code := (\<lambda>_. 0x1000)\<rparr>;
       k' = (sig_init 0x40 k)\<lparr>msrs := (\<lambda>_ _. 9)\<rparr>
   in lbr_view (msrs (sig_init 0x40 k) 0) = (1, 5, 0, 0 # replicate 15 0, 0x40 # replicate 15 0)
      \<and> lbr_view (my_msrs (sig_exit k')) = lbr_view (\<lambda>_. 5)"
proof -
  let ?k = "boot_kernel\<lparr>current := 7, msrs := (\<lambda>_ _. 5), end_code := (\<lambda>_. 0x1000)\<rparr>"
  let ?k' = "(sig_init 0x40 ?k)\<lparr>msrs := (\<lambda>_ _. 9)\<rparr>"
  have k: "wf_sig ?k" "current ?k \<noteq> NULL" "table_room (sig_data ?k) (current ?k)"
    "length (sig_stacks ?k (current ?k)) < STACKSIZE"
    by (simp_all add: boot_tables STACKSIZE_def SIG_CACHE_SIZE_def)
  have "current ?k' = current ?k" "cpu (sig_init 0x40 ?k) = 0"
    by (simp_all add: sig_init_def Let_def split_beta)
  then show ?thesis
    using signal_roundtrip [OF k, of ?k' "0x40"] sig_init_refines(2) [OF k, of "0x40"]
    by (simp add: Let_def IA32_DEBUGCTL_def)
qed

text \<open>
  C33: With a full library cache, entering a library call from a task without an
  entry sends \<open>SIGKILL\<close> to that task and pushes its return address on the stack of
  another task, the owner of entry 0.
\<close>

theorem lib_init_full_hits_entry_0:
  assumes "wf_lib k" "\<not> table_room (lib_data k) (current k)"
    "t = wl_task (lib_data k ! 0)" "length (lib_stacks k t) < STACKSIZE"
  shows "killed (lib_init ret k) = insert (current k) (killed k) \<and> t \<noteq> current k
    \<and> lib_stacks (lib_init ret k) = (lib_stacks k)(t := ret # lib_stacks k t)"
proof -
  have len: "length (lib_data k) = LIB_CACHE_SIZE" "0 < LIB_CACHE_SIZE"
    using assms(1) by (simp_all add: wf_table_def LIB_CACHE_SIZE_def)
  then have mem: "lib_data k ! 0 \<in> set (lib_data k)" by simp
  have none: "slot_of wl_task (current k) (lib_data k) = None" "slot_of wl_task NULL (lib_data k) = None"
    using assms(2) by (auto simp: table_room_def)
  with mem assms(3) have t: "t \<noteq> current k" "t \<noteq> NULL" by (auto simp: find_index_None_iff)
  have st: "lib_stacks k t = lib_contents (lib_data k ! 0)"
    using lib_entry.task_stack_slot [OF assms(1), of 0 t] len assms(3) t by simp
  have ok: "lib_ok (lib_data k ! 0)" using assms(1) mem by (auto simp: wf_table_def)
  obtain e where e: "lib_push (lib_data k ! 0) ret = (e, False)" "lib_ok e"
    "lib_contents e = ret # lib_contents (lib_data k ! 0)"
    using lib_entry.push_room [OF ok, of ret] assms(4) st by auto
  have "wl_task e = t" using lib_entry.push_tag [of "lib_data k ! 0" ret] e assms(3) by simp
  then have "task_stack lib_contents ((lib_data k)[0 := e]) = (lib_stacks k)(t := lib_contents e)"
    using lib_entry.table_update(2) [OF assms(1), of 0 e t] len e t assms(3) by simp
  with e t st len none show ?thesis
    by (simp add: lib_init_def wl_enter_def find_cache_entry_init_eq)
qed

theorem lib_init_full_hits_entry_0_witness:
  "let d = map (\<lambda>i. zero_wrapper\<lparr>wl_task := word_of_nat (i + 1)\<rparr>) [0..<LIB_CACHE_SIZE];
       k = boot_kernel\<lparr>current := 5000, lib_data := d\<rparr>
   in killed (lib_init 0x40 k) = {5000} \<and> lib_stacks (lib_init 0x40 k) 1 = [0x40]"
proof -
  let ?d = "map (\<lambda>i. zero_wrapper\<lparr>wl_task := word_of_nat (i + 1)\<rparr>) [0..<LIB_CACHE_SIZE]"
  let ?k = "boot_kernel\<lparr>current := 5000, lib_data := ?d\<rparr>"
  have inj: "(word_of_nat (Suc i) :: u64) = word_of_nat (Suc j) \<longleftrightarrow> i = j"
    if "i < LIB_CACHE_SIZE" "j < LIB_CACHE_SIZE" for i j
    using that by (simp add: LIB_CACHE_SIZE_def word_of_nat_eq_iff take_bit_nat_eq_self)
  have small: "unat (word_of_nat (Suc i) :: u64) = Suc i" if "i < LIB_CACHE_SIZE" for i
    using that unat_word_of_nat_64 [of "Suc i"] by (simp add: LIB_CACHE_SIZE_def)
  have ne: "(word_of_nat (Suc i) :: u64) \<noteq> 0" "(word_of_nat (Suc i) :: u64) \<noteq> 5000" if "i < LIB_CACHE_SIZE" for i
    using small [OF that] that by (auto simp: LIB_CACHE_SIZE_def dest: arg_cong [where f = unat])
  have wf: "wf_lib ?k"
    using inj ne zero_wrapper_empty by (auto simp: wf_table_def sole_owner_def lib_ok_def lib_contents_def)
  have room: "\<not> table_room (lib_data ?k) (current ?k)"
    using ne by (auto simp: table_room_def find_index_None_iff)
  have hd: "wl_task (lib_data ?k ! 0) = 1" by (simp add: LIB_CACHE_SIZE_def)
  have "lib_stacks ?k 1 = []"
    using lib_entry.task_stack_slot [OF wf, of 0 1] hd zero_wrapper_empty(2)
    by (simp add: LIB_CACHE_SIZE_def lib_contents_def)
  with lib_init_full_hits_entry_0 [OF wf room, of 1 "0x40"] hd show ?thesis
    by (simp add: STACKSIZE_def)
qed

end
