(* ===== verification/Lbr_Cache.thy ===== *)
theory Lbr_Cache
  imports Kernel_State
begin

text \<open>
  Saving and restoring LBR states at context switches: \<open>init_lbr_cache\<close>,
  \<open>save_lbr\<close> and \<open>restore_lbr\<close> of \<open>src/lkm/lbr.c\<close> and the two preemption hooks
  \<open>sched_in\<close> and \<open>sched_out\<close> of \<open>src/lkm/armor.c\<close>.

  The locale \<open>context_store\<close> states what the hooks need of the cache; the array
  \<open>lbr_cache\<close> is shown to provide it.  The transition system \<open>sched_step\<close> runs
  the hooks on any number of CPUs: tasks are switched out of one CPU and into
  another while running tasks keep filling their LBR.  Seen through
  \<open>task_view\<close>, which gives every task its own private LBR, a context switch is
  the identity.
\<close>

section \<open>Operations\<close>

definition init_lbr_cache :: "kernel \<Rightarrow> kernel" where
  "init_lbr_cache k = k\<lparr>lbr_cache := replicate LBR_CACHE_SIZE zero_lbr\<rparr>"

text \<open>The loop of \<open>save_lbr\<close>: fill the first entry whose task is NULL.\<close>

definition cache_save :: "task \<Rightarrow> msr_file \<Rightarrow> lbr_t list \<Rightarrow> lbr_t list" where
  "cache_save t m es =
    (case slot_of lbr_task NULL es of
       Some i \<Rightarrow> es[i := (get_lbr m (es ! i))\<lparr>lbr_task := t\<rparr>]
     | None \<Rightarrow> es)"

text \<open>The loop of \<open>restore_lbr\<close>: find the task's entry and release it.\<close>

definition cache_take :: "task \<Rightarrow> lbr_t list \<Rightarrow> lbr_t list \<times> lbr_t option" where
  "cache_take t es =
    (case slot_of lbr_task t es of
       Some i \<Rightarrow> (es[i := (es ! i)\<lparr>lbr_task := NULL\<rparr>], Some (es ! i))
     | None \<Rightarrow> (es, None))"

definition save_lbr :: "kernel \<Rightarrow> kernel" where
  "save_lbr k = on_msrs (wrmsrl MSR_IA32_DEBUGCTLMSR 0)
     (k\<lparr>lbr_cache := cache_save (current k) (my_msrs k) (lbr_cache k)\<rparr>)"

definition restore_lbr :: "kernel \<Rightarrow> kernel" where
  "restore_lbr k =
    (case cache_take (current k) (lbr_cache k) of
       (es, Some l) \<Rightarrow> (on_msrs (put_lbr l) k)\<lparr>lbr_cache := es\<rparr>
     | (_, None) \<Rightarrow> k)"

definition sched_in :: "kernel \<Rightarrow> kernel" where
  "sched_in k = restore_lbr (stat (\<lambda>s. s\<lparr>st_sched_in := st_sched_in s + 1\<rparr>) k)"

definition sched_out :: "kernel \<Rightarrow> kernel" where
  "sched_out k = save_lbr (stat (\<lambda>s. s\<lparr>st_sched_out := st_sched_out s + 1\<rparr>) k)"

section \<open>The contract of a context store\<close>

locale context_store =
  fixes inv :: "'s \<Rightarrow> bool"
    and stored :: "'s \<Rightarrow> task \<Rightarrow> 'v option"
    and room :: "'s \<Rightarrow> bool"
    and save :: "task \<Rightarrow> 'm \<Rightarrow> 's \<Rightarrow> 's"
    and take_out :: "task \<Rightarrow> 's \<Rightarrow> 's \<times> 'x option"
    and load :: "'x \<Rightarrow> 'm \<Rightarrow> 'm"
    and view :: "'m \<Rightarrow> 'v"
  assumes save_law: "inv s \<Longrightarrow> room s \<Longrightarrow> t \<noteq> NULL \<Longrightarrow> stored s t = None \<Longrightarrow>
      inv (save t m s) \<and> stored (save t m s) = (stored s)(t \<mapsto> view m)"
    and take_law: "inv s \<Longrightarrow> stored s t = Some v \<Longrightarrow>
      \<exists>s' x. take_out t s = (s', Some x) \<and> inv s' \<and> room s' \<and> stored s' = (stored s)(t := None)
        \<and> (\<forall>m. view (load x m) = v)"
begin

text \<open>Saving and taking out again gives the saved view back, on whichever CPU it is loaded.\<close>

lemma save_take:
  assumes "inv s" "room s" "t \<noteq> NULL" "stored s t = None"
  obtains s' x where "take_out t (save t m s) = (s', Some x)" "inv s'" "stored s' = stored s"
    "\<And>m'. view (load x m') = view m"
proof -
  from save_law [OF assms, of m] have i: "inv (save t m s)"
    and st: "stored (save t m s) = (stored s)(t \<mapsto> view m)" by blast+
  from take_law [OF i, of t "view m"] st obtain s' x
    where "take_out t (save t m s) = (s', Some x)" "inv s'"
      "stored s' = (stored (save t m s))(t := None)" "\<forall>m'. view (load x m') = view m"
    by auto
  with st assms(4) show ?thesis by (intro that [of s' x]) (auto simp: fun_upd_idem)
qed

text \<open>Taking one task out makes room for another.\<close>

lemma switch:
  assumes "inv s" "stored s u = Some v" "t \<noteq> NULL" "stored s t = None"
  obtains s' x where "take_out u s = (s', Some x)" "inv (save t m s')"
    "stored (save t m s') = (stored s)(u := None, t \<mapsto> view m)" "\<And>m'. view (load x m') = v"
proof -
  from take_law [OF assms(1,2)] obtain s' x where x: "take_out u s = (s', Some x)" "inv s'" "room s'"
    "stored s' = (stored s)(u := None)" "\<forall>m. view (load x m) = v" by blast
  from assms(4) x(4) have "stored s' t = None" by auto
  from save_law [OF x(2,3) assms(3) this, of m] x show ?thesis by (intro that) auto
qed

end

section \<open>The array provides it\<close>

definition wf_lbr_cache :: "lbr_t list \<Rightarrow> bool" where
  "wf_lbr_cache es \<longleftrightarrow> length es = LBR_CACHE_SIZE \<and> sole_owner lbr_task es \<and> (\<forall>e \<in> set es. wf_lbr e)"

definition stored_view :: "lbr_t list \<Rightarrow> task \<Rightarrow> lbr_obs option" where
  "stored_view es t =
    (if t = NULL then None else map_option (\<lambda>i. saved_view (es ! i)) (slot_of lbr_task t es))"

definition cache_room :: "lbr_t list \<Rightarrow> bool" where
  "cache_room es \<longleftrightarrow> slot_of lbr_task NULL es \<noteq> None"

lemma wf_lbr_cache_upd [wf_intros]:
  assumes "wf_lbr_cache es" "wf_lbr e"
    "lbr_task e = NULL \<or> lbr_task e = lbr_task (es ! i) \<or> slot_of lbr_task (lbr_task e) es = None"
  shows "wf_lbr_cache (es[i := e])"
  using assms sole_owner_update [of lbr_task es e i] set_update_subset_insert [of es i e]
  by (auto simp: wf_lbr_cache_def)

lemma stored_view_claim:
  assumes "wf_lbr_cache es" "wf_lbr e" "i < length es" "lbr_task (es ! i) = NULL"
    "lbr_task e = t" "t \<noteq> NULL" "stored_view es t = None"
  shows "stored_view (es[i := e]) = (stored_view es)(t \<mapsto> saved_view e)"
proof
  fix u
  have t: "slot_of lbr_task t es = None" using assms(6,7) by (auto simp: stored_view_def)
  have wf: "wf_lbr_cache (es[i := e])"
    using assms t by (intro wf_lbr_cache_upd) auto
  show "stored_view (es[i := e]) u = ((stored_view es)(t \<mapsto> saved_view e)) u"
  proof (cases "u = t")
    case True
    then show ?thesis
      using slot_of_update_same [of lbr_task es i e] wf assms by (simp add: wf_lbr_cache_def stored_view_def)
  next
    case False
    moreover have "j \<noteq> i" if "slot_of lbr_task u es = Some j" "u \<noteq> NULL" for j
      using that find_index_holds [OF that(1)] assms(4) by auto
    ultimately show ?thesis
      using assms(4,5)
      by (cases "slot_of lbr_task u es") (auto simp: stored_view_def slot_of_update_other)
  qed
qed

lemma stored_view_release:
  assumes "wf_lbr_cache es" "slot_of lbr_task t es = Some i" "t \<noteq> NULL" "lbr_task e = NULL"
  shows "stored_view (es[i := e]) = (stored_view es)(t := None)"
proof
  fix u
  have i: "i < length es" "lbr_task (es ! i) = t" using find_index_SomeD [OF assms(2)] by auto
  show "stored_view (es[i := e]) u = ((stored_view es)(t := None)) u"
  proof (cases "u = t")
    case True
    then show ?thesis
      using slot_of_release [of lbr_task es t i e] assms by (simp add: wf_lbr_cache_def stored_view_def)
  next
    case False
    moreover have "j \<noteq> i" if "slot_of lbr_task u es = Some j" for j
      using that find_index_holds [OF that] i False by auto
    ultimately show ?thesis
      using assms(4) i
      by (cases "slot_of lbr_task u es") (auto simp: stored_view_def slot_of_update_other)
  qed
qed

interpretation lbr_store: context_store wf_lbr_cache stored_view cache_room cache_save cache_take
  put_lbr lbr_view
proof unfold_locales
  fix es t m assume a: "wf_lbr_cache es" "cache_room es" "t \<noteq> NULL" "stored_view es t = None"
  then obtain i where i: "slot_of lbr_task NULL es = Some i" by (auto simp: cache_room_def)
  note free = find_index_SomeD [OF i]
  let ?e = "(get_lbr m (es ! i))\<lparr>lbr_task := t\<rparr>"
  have e: "wf_lbr ?e" "lbr_task ?e = t" by (simp_all add: wf_lbr_def)
  have "wf_lbr_cache (es[i := ?e])"
    using a e by (intro wf_lbr_cache_upd) (auto simp: stored_view_def)
  moreover have "stored_view (es[i := ?e]) = (stored_view es)(t \<mapsto> lbr_view m)"
    using stored_view_claim [of es ?e i t] a e free by simp
  ultimately show "wf_lbr_cache (cache_save t m es) \<and>
      stored_view (cache_save t m es) = (stored_view es)(t \<mapsto> lbr_view m)"
    using i by (simp add: cache_save_def)
next
  fix es t v assume a: "wf_lbr_cache es" "stored_view es t = Some v"
  then obtain i where i: "slot_of lbr_task t es = Some i" "t \<noteq> NULL" "v = saved_view (es ! i)"
    by (auto simp: stored_view_def split: if_splits)
  have l: "i < length es" using find_index_lt [OF i(1)] .
  let ?e = "(es ! i)\<lparr>lbr_task := NULL\<rparr>"
  have wf: "wf_lbr (es ! i)" using a(1) l by (simp add: wf_lbr_cache_def)
  then have "wf_lbr_cache (es[i := ?e])" using a by (intro wf_lbr_cache_upd) (auto simp: wf_lbr_def)
  moreover have "cache_room (es[i := ?e])"
    using find_index_Some_ex [of ?e "es[i := ?e]" "\<lambda>e. lbr_task e = NULL"] l
    by (auto simp: cache_room_def set_update_memI)
  moreover have "stored_view (es[i := ?e]) = (stored_view es)(t := None)"
    using a i by (intro stored_view_release) auto
  ultimately show "\<exists>s' x. cache_take t es = (s', Some x) \<and> wf_lbr_cache s' \<and> cache_room s'
      \<and> stored_view s' = (stored_view es)(t := None) \<and> (\<forall>m. lbr_view (put_lbr x m) = v)"
    using i wf by (simp add: cache_take_def lbr_view_put)
qed

section \<open>Context switches on several CPUs\<close>

text \<open>
  \<open>running s ! c\<close> is the supervised task on CPU \<open>c\<close>, NULL when there is none.  A step
  switches a task out or in through the preemption hooks, lets the hardware
  change the registers of a CPU on which a supervised task runs, or lets
  anything else happen on a CPU without one.
\<close>

record sched_sys =
  kern :: kernel
  running :: "task list"

definition on_cpu :: "nat \<Rightarrow> task \<Rightarrow> kernel \<Rightarrow> kernel" where
  "on_cpu c t k = k\<lparr>cpu := c, current := t\<rparr>"

datatype sched_label = Switch | Branch task

inductive sched_step :: "sched_sys \<Rightarrow> sched_label \<Rightarrow> sched_sys \<Rightarrow> bool" where
  out: "c < length (running s) \<Longrightarrow> running s ! c = t \<Longrightarrow> t \<noteq> NULL \<Longrightarrow>
    sched_step s Switch \<lparr>kern = sched_out (on_cpu c t (kern s)), running = (running s)[c := NULL]\<rparr>"
| into: "c < length (running s) \<Longrightarrow> running s ! c = NULL \<Longrightarrow> t \<noteq> NULL \<Longrightarrow>
    slot_of lbr_task t (lbr_cache (kern s)) \<noteq> None \<Longrightarrow>
    sched_step s Switch \<lparr>kern = sched_in (on_cpu c t (kern s)), running = (running s)[c := t]\<rparr>"
| branch: "c < length (running s) \<Longrightarrow> running s ! c = t \<Longrightarrow> t \<noteq> NULL \<Longrightarrow>
    sched_step s (Branch t) \<lparr>kern = on_msrs (\<lambda>_. m) (on_cpu c t (kern s)), running = running s\<rparr>"
| other: "c < length (running s) \<Longrightarrow> running s ! c = NULL \<Longrightarrow>
    sched_step s Switch \<lparr>kern = on_msrs (\<lambda>_. m) (on_cpu c u (kern s)), running = running s\<rparr>"

inductive_cases sched_stepE: "sched_step s l s'"

inductive sched_run :: "sched_sys \<Rightarrow> sched_label list \<Rightarrow> sched_sys \<Rightarrow> bool" where
  nil: "sched_run s [] s"
| snoc: "sched_run s ls s' \<Longrightarrow> sched_step s' l s'' \<Longrightarrow> sched_run s (ls @ [l]) s''"

text \<open>The LBR a task has: in the registers of its CPU, or in the cache.\<close>

definition task_view :: "sched_sys \<Rightarrow> task \<Rightarrow> lbr_obs option" where
  "task_view s t =
    (case slot_of id t (running s) of
       Some c \<Rightarrow> Some (lbr_view (msrs (kern s) c))
     | None \<Rightarrow> stored_view (lbr_cache (kern s)) t)"

text \<open>
  At most \<open>LBR_CACHE_SIZE\<close> supervised tasks; no task runs on two CPUs or is both
  running and in the cache.
\<close>

definition sched_inv :: "task set \<Rightarrow> sched_sys \<Rightarrow> bool" where
  "sched_inv T s \<longleftrightarrow> wf_lbr_cache (lbr_cache (kern s)) \<and> finite T \<and> card T \<le> LBR_CACHE_SIZE
    \<and> sole_owner id (running s)
    \<and> (\<forall>t \<in> set (running s). t \<noteq> NULL \<longrightarrow> t \<in> T \<and> stored_view (lbr_cache (kern s)) t = None)
    \<and> (\<forall>t. stored_view (lbr_cache (kern s)) t \<noteq> None \<longrightarrow> t \<in> T)"

lemma stored_view_None_iff:
  "t \<noteq> NULL \<Longrightarrow> stored_view es t = None \<longleftrightarrow> slot_of lbr_task t es = None"
  by (simp add: stored_view_def)

lemma stored_view_ex:
  "t \<noteq> NULL \<Longrightarrow> slot_of lbr_task t es \<noteq> None \<Longrightarrow> \<exists>v. stored_view es t = Some v"
  by (auto simp: stored_view_def simp del: split_paired_Ex)

lemma stored_view_NULL [simp]: "stored_view es NULL = None"
  by (simp add: stored_view_def)

lemma cache_room_if_few:
  assumes "wf_lbr_cache es" "finite T" "card T < LBR_CACHE_SIZE"
    "\<forall>t. stored_view es t \<noteq> None \<longrightarrow> t \<in> T"
  shows "cache_room es"
proof -
  have "lbr_task ` set es - {NULL} \<subseteq> T"
  proof
    fix t assume "t \<in> lbr_task ` set es - {NULL}"
    then have "t \<noteq> NULL" "slot_of lbr_task t es \<noteq> None" by (auto simp: find_index_None_iff)
    then have "stored_view es t \<noteq> None" by (simp only: stored_view_None_iff not_False_eq_True)
    with assms(4) show "t \<in> T" by blast
  qed
  then have "occupied lbr_task es \<le> card T"
    using assms(1,2) by (simp add: occupied_card wf_lbr_cache_def card_mono)
  with assms(1,3) occupied_free_slot [of lbr_task es] show ?thesis
    by (auto simp: cache_room_def wf_lbr_cache_def)
qed

lemma sched_inv_runningD:
  assumes "sched_inv T s" "c < length (running s)" "running s ! c = t" "t \<noteq> NULL"
  shows "slot_of id t (running s) = Some c" "t \<in> T" "stored_view (lbr_cache (kern s)) t = None"
  using assms sole_owner_slot [of id "running s" c t] nth_mem [of c "running s"]
  by (auto simp: sched_inv_def)

lemma sched_inv_leaves:
  assumes "sched_inv T s" "c < length (running s)" "running s ! c = t" "t \<noteq> NULL"
  shows "slot_of id t ((running s)[c := NULL]) = None"
  using slot_of_release [of id "running s" t c NULL] sched_inv_runningD [OF assms] assms
  by (simp add: sched_inv_def)

lemma sched_inv_room:
  assumes "sched_inv T s" "c < length (running s)" "running s ! c = t" "t \<noteq> NULL"
  shows "cache_room (lbr_cache (kern s))"
proof (rule cache_room_if_few [where T = "T - {t}"])
  show "card (T - {t}) < LBR_CACHE_SIZE"
    using assms sched_inv_runningD [OF assms] card_Diff1_less [of T t]
    by (auto simp: sched_inv_def)
qed (use assms sched_inv_runningD(3) [OF assms] in \<open>auto simp: sched_inv_def\<close>)

text \<open>What the two hooks do to the cache and to the registers, through the contract.\<close>

lemma sched_out_effect:
  assumes "sched_inv T s" "c < length (running s)" "running s ! c = t" "t \<noteq> NULL"
  defines "k' \<equiv> sched_out (on_cpu c t (kern s))"
  shows "wf_lbr_cache (lbr_cache k')"
    "stored_view (lbr_cache k') = (stored_view (lbr_cache (kern s)))(t \<mapsto> lbr_view (msrs (kern s) c))"
    "d \<noteq> c \<Longrightarrow> msrs k' d = msrs (kern s) d"
  using lbr_store.save_law [OF _ sched_inv_room [OF assms(1-4)] assms(4)
      sched_inv_runningD(3) [OF assms(1-4)], of "msrs (kern s) c"] assms(1)
  by (simp_all add: k'_def sched_out_def save_lbr_def on_cpu_def on_msrs_def sched_inv_def)

lemma sched_in_effect:
  fixes c :: nat
  assumes "sched_inv T s" "stored_view (lbr_cache (kern s)) t = Some v"
  defines "k' \<equiv> sched_in (on_cpu c t (kern s))"
  shows "wf_lbr_cache (lbr_cache k')"
    "stored_view (lbr_cache k') = (stored_view (lbr_cache (kern s)))(t := None)"
    "lbr_view (msrs k' c) = v"
    "d \<noteq> c \<Longrightarrow> msrs k' d = msrs (kern s) d"
proof -
  have "wf_lbr_cache (lbr_cache (kern s))" using assms(1) by (simp add: sched_inv_def)
  from lbr_store.take_law [OF this assms(2)] obtain es x
    where x: "cache_take t (lbr_cache (kern s)) = (es, Some x)" "wf_lbr_cache es"
      "stored_view es = (stored_view (lbr_cache (kern s)))(t := None)"
      "\<forall>m. lbr_view (put_lbr x m) = v" by blast
  then show "wf_lbr_cache (lbr_cache k')"
    "stored_view (lbr_cache k') = (stored_view (lbr_cache (kern s)))(t := None)"
    "lbr_view (msrs k' c) = v" "d \<noteq> c \<Longrightarrow> msrs k' d = msrs (kern s) d"
    by (simp_all add: k'_def sched_in_def restore_lbr_def on_cpu_def)
qed

lemma task_view_cong:
  assumes "running s' = running s" "lbr_cache (kern s') = lbr_cache (kern s)"
    "\<And>c. slot_of id t (running s) = Some c \<Longrightarrow> msrs (kern s') c = msrs (kern s) c"
  shows "task_view s' t = task_view s t"
  using assms by (auto simp: task_view_def split: option.splits)

lemma sched_inv_step:
  assumes "sched_step s l s'" "sched_inv T s"
  shows "sched_inv T s'"
  using assms
proof (cases rule: sched_step.cases)
  case (out c t)
  note e = sched_out_effect [OF assms(2) out(3,4,5)] and r = sched_inv_runningD [OF assms(2) out(3,4,5)]
  have "sole_owner id ((running s)[c := NULL])"
    using assms(2) by (auto simp: sched_inv_def intro: sole_owner_update)
  moreover have "u \<noteq> t" if "u \<in> set ((running s)[c := NULL])" "u \<noteq> NULL" for u
  proof -
    have "slot_of id t ((running s)[c := NULL]) = None"
      using sched_inv_leaves [OF assms(2) out(3,4,5)] .
    with that show ?thesis by (auto simp: find_index_None_iff)
  qed
  ultimately show ?thesis
    using assms(2) e r out set_update_subset_insert [of "running s" c NULL]
    by (auto simp: sched_inv_def)
next
  case (into c t)
  then obtain v where v: "stored_view (lbr_cache (kern s)) t = Some v"
    using stored_view_ex by metis
  note e = sched_in_effect [OF assms(2) v, where c = c]
  from v assms(2) have t: "t \<in> T" "t \<notin> set (running s)" using into(5)
    by (auto simp: sched_inv_def simp del: split_paired_Ex)
  then have "slot_of id t (running s) = None" by (auto simp: find_index_None_iff)
  then have "sole_owner id ((running s)[c := t])"
    using assms(2) by (intro sole_owner_update) (auto simp: sched_inv_def)
  then show ?thesis
    using assms(2) e t into set_update_subset_insert [of "running s" c t]
    by (auto simp: sched_inv_def)
qed (simp_all add: sched_inv_def on_cpu_def)

lemma sched_switch_view:
  assumes "sched_step s Switch s'" "sched_inv T s" "u \<noteq> NULL"
  shows "task_view s' u = task_view s u"
  using assms(1)
proof (cases rule: sched_step.cases)
  case (out c t)
  note e = sched_out_effect [OF assms(2) out(2,3,4)] and r = sched_inv_runningD [OF assms(2) out(2,3,4)]
  have rel: "slot_of id t ((running s)[c := NULL]) = None"
    using sched_inv_leaves [OF assms(2) out(2,3,4)] .
  show ?thesis
  proof (cases "u = t")
    case True
    with out e r rel show ?thesis by (simp add: task_view_def)
  next
    case False
    then have "slot_of id u ((running s)[c := NULL]) = slot_of id u (running s)"
      using assms(3) out by (intro slot_of_update_other) auto
    moreover have "d \<noteq> c" if "slot_of id u (running s) = Some d" for d
      using find_index_holds [OF that] False out by auto
    ultimately show ?thesis
      using out e False by (auto simp: task_view_def split: option.splits)
  qed
next
  case (into c t)
  then obtain v where v: "stored_view (lbr_cache (kern s)) t = Some v"
    using stored_view_ex by metis
  note e = sched_in_effect [OF assms(2) v, where c = c]
  have nt: "slot_of id t (running s) = None"
    using v assms(2) into(4) by (auto simp: sched_inv_def find_index_None_iff)
  have so: "sole_owner id ((running s)[c := t])"
    using assms(2) nt by (intro sole_owner_update) (auto simp: sched_inv_def)
  show ?thesis
  proof (cases "u = t")
    case True
    with into e nt v slot_of_update_same [OF so] show ?thesis by (simp add: task_view_def)
  next
    case False
    then have "slot_of id u ((running s)[c := t]) = slot_of id u (running s)"
      using assms(3) into by (intro slot_of_update_other) auto
    moreover have "d \<noteq> c" if "slot_of id u (running s) = Some d" for d
      using find_index_holds [OF that] assms(3) into by auto
    ultimately show ?thesis
      using into e False by (auto simp: task_view_def split: option.splits)
  qed
next
  case (other c m v)
  have "d \<noteq> c" if "slot_of id u (running s) = Some d" for d
    using find_index_holds [OF that] assms(3) other by auto
  with other show ?thesis by (intro task_view_cong) (auto simp: on_cpu_def)
qed

lemma sched_branch_view:
  assumes "sched_step s (Branch t) s'" "u \<noteq> t"
  shows "task_view s' u = task_view s u"
  using assms(1)
proof (cases rule: sched_step.cases)
  case (branch c m)
  have "d \<noteq> c" if "slot_of id u (running s) = Some d" for d
    using find_index_holds [OF that] assms(2) branch by auto
  with branch show ?thesis by (intro task_view_cong) (auto simp: on_cpu_def)
qed

lemma sched_run_inv: "sched_run s ls s' \<Longrightarrow> sched_inv T s \<Longrightarrow> sched_inv T s'"
  by (induction rule: sched_run.induct) (auto intro: sched_inv_step)

lemma sched_run_view:
  assumes "sched_run s ls s'" "sched_inv T s" "t \<noteq> NULL" "Branch t \<notin> set ls"
  shows "task_view s' t = task_view s t"
  using assms
proof (induction rule: sched_run.induct)
  case (snoc s ls s' l s'')
  then have "task_view s' t = task_view s t" by simp
  moreover have "task_view s'' t = task_view s' t"
  proof (cases l)
    case Switch
    with snoc show ?thesis
      using sched_switch_view [OF _ sched_run_inv [OF snoc.hyps(1) snoc.prems(1)]] by simp
  next
    case (Branch u)
    with snoc show ?thesis by (intro sched_branch_view [of s' u]) auto
  qed
  ultimately show ?case by simp
qed simp

section \<open>Properties\<close>

lemma wf_lbr_cache_init: "wf_lbr_cache (replicate LBR_CACHE_SIZE zero_lbr)"
  by (simp add: wf_lbr_cache_def sole_owner_replicate)

lemma cache_room_init: "cache_room (replicate LBR_CACHE_SIZE zero_lbr)"
  by (simp add: cache_room_def find_index_None_iff LBR_CACHE_SIZE_def)

lemma stored_view_init [simp]: "stored_view (replicate n zero_lbr) t = None"
  by (simp add: stored_view_def find_index_None_iff)

text \<open>
  C9: Context switches are transparent.  Run the preemption hooks for up to
  \<open>LBR_CACHE_SIZE\<close> supervised tasks on any number of CPUs, in any order and with
  any migration: as long as a task does not itself branch, the LBR it has (in the
  registers of its CPU or in the cache) is the one it had, and no task ever
  loses its entry.
\<close>

theorem context_switch_transparent:
  assumes "sched_run s ls s'" "sched_inv T s" "t \<noteq> NULL" "Branch t \<notin> set ls"
  shows "task_view s' t = task_view s t \<and> sched_inv T s'"
  using sched_run_view [OF assms] sched_run_inv [OF assms(1,2)] by simp

text \<open>The task 7 is switched out of CPU 0 and into CPU 1.\<close>

definition migrate_0 :: sched_sys where
  "migrate_0 = \<lparr>kern = boot_kernel\<lparr>msrs := (\<lambda>c r. if c = 0 then 5 else 9)\<rparr>, running = [7, 0]\<rparr>"
definition migrate_1 :: sched_sys where
  "migrate_1 = \<lparr>kern = sched_out (on_cpu 0 7 (kern migrate_0)), running = [0, 0]\<rparr>"
definition migrate_2 :: sched_sys where
  "migrate_2 = \<lparr>kern = sched_in (on_cpu 1 7 (kern migrate_1)), running = [0, 7]\<rparr>"

lemma migrate_inv: "sched_inv {7} migrate_0"
  by (auto simp: sched_inv_def migrate_0_def
      wf_lbr_cache_init [unfolded LBR_CACHE_SIZE_def] LBR_CACHE_SIZE_def
      sole_owner_def less_Suc_eq nth_Cons')

lemma migrate_run: "sched_run migrate_0 [Switch, Switch] migrate_2"
proof -
  have s1: "sched_step migrate_0 Switch migrate_1"
    using sched_step.out [of 0 migrate_0 7] by (simp add: migrate_0_def migrate_1_def)
  have "stored_view (lbr_cache (kern migrate_1)) 7 \<noteq> None"
    using sched_out_effect(2) [OF migrate_inv, of 0 7] by (simp add: migrate_0_def migrate_1_def)
  then have "sched_step migrate_1 Switch migrate_2"
    using sched_step.into [of 1 migrate_1 7] stored_view_None_iff [of 7]
    by (simp add: migrate_1_def migrate_2_def)
  with s1 show ?thesis
    using sched_run.snoc [OF sched_run.snoc [OF sched_run.nil s1]] by simp
qed

theorem context_switch_transparent_witness:
  "task_view migrate_2 7 = task_view migrate_0 7 \<and> running migrate_2 = [0, 7]
    \<and> task_view migrate_0 7 = Some (lbr_view (\<lambda>r. 5))"
  using context_switch_transparent [OF migrate_run migrate_inv, of 7]
  by (simp add: migrate_2_def migrate_0_def task_view_def)

text \<open>
  When the cache has no free entry, a task that is switched out silently
  loses its LBR state: the cache is unchanged, nobody is killed, and when the
  task is switched in again the hook leaves the registers of the CPU as it finds
  them.
\<close>

theorem save_lbr_full_loses_state:
  assumes "slot_of lbr_task NULL (lbr_cache k) = None" "slot_of lbr_task (current k) (lbr_cache k) = None"
  shows "lbr_cache (save_lbr k) = lbr_cache k \<and> killed (save_lbr k) = killed k
    \<and> restore_lbr ((save_lbr k)\<lparr>msrs := M\<rparr>) = (save_lbr k)\<lparr>msrs := M\<rparr>"
  using assms by (simp_all add: save_lbr_def cache_save_def restore_lbr_def cache_take_def on_msrs_def)

theorem save_lbr_full_loses_state_witness:
  "let k = boot_kernel\<lparr>current := 7, lbr_cache := replicate LBR_CACHE_SIZE (zero_lbr\<lparr>lbr_task := 9\<rparr>)\<rparr>
   in lbr_cache (save_lbr k) = lbr_cache k \<and> killed (save_lbr k) = {}"
  using save_lbr_full_loses_state [of "boot_kernel\<lparr>current := 7,
    lbr_cache := replicate LBR_CACHE_SIZE (zero_lbr\<lparr>lbr_task := 9\<rparr>)\<rparr>"]
  by (simp add: find_index_None_iff)

end
