(* ===== verification/Validate.thy ===== *)
theory Validate
  imports Lbr_Cache
begin

text \<open>
  Hashing and validating the LBR: \<open>hash_lbr\<close> and \<open>validate_lbr\<close> of \<open>src/lkm/lbr.c\<close>,
  the cache of accepted digests, and the two ioctls \<open>GET_JIT_WORK\<close> and
  \<open>PUT_JIT_WORK\<close> of \<open>src/lkm/armor.c\<close> with which the analyzer daemon fetches a
  request and answers it.

  What the module takes from outside is the record \<open>jit_env\<close>: the digest of the
  kernel's crypto API over a sequence of 64-bit words, \<open>jiffies_to_timeval\<close>, the
  time a request takes, the contents of an uninitialised \<open>struct lbr_t\<close> on the
  kernel stack, and \<open>daemon\<close>, everything the analyzer does between
  \<open>up(&jit_work_cond)\<close> and the return of \<open>down_timeout(&jit_result_cond)\<close>.

  \<open>jit_step\<close> is the same protocol with the validator and the daemon interleaved
  step by step.
\<close>

section \<open>Operations\<close>

record jit_env =
  digest :: "u64 list \<Rightarrow> u8 list"
  jiffies_to_timeval :: "u64 \<Rightarrow> u64 \<times> u64"
  daemon :: "kernel \<Rightarrow> kernel"
  elapsed :: u64
  stack_lbr :: lbr_t

text \<open>The words fed to the hash: the branches from the newest to the oldest.\<close>

definition lbr_words :: "lbr_t \<Rightarrow> u64 list" where
  "lbr_words lbr = concat (map (\<lambda>i.
     let j = unat ((tos lbr - word_of_nat i) mod word_of_nat LBR_ENTRIES)
     in [from_regs lbr ! j, to_regs lbr ! j]) [0..<LBR_ENTRIES])"

definition hash_lbr :: "jit_env \<Rightarrow> lbr_t \<Rightarrow> u8 list" where
  "hash_lbr J lbr = digest J (lbr_words lbr)"

definition jit_cache_lookup :: "jit_cache_t \<Rightarrow> u8 list \<Rightarrow> bool" where
  "jit_cache_lookup c h \<longleftrightarrow>
    (\<exists>i \<in> set [0..<hashes c]. take DIGEST_LENGTH (hash_rows c ! i) = take DIGEST_LENGTH h)"

definition jit_cache_store :: "u8 list \<Rightarrow> jit_cache_t \<Rightarrow> jit_cache_t" where
  "jit_cache_store h c = c\<lparr>hash_rows := (hash_rows c)[hashes c := h],
     hashes := (hashes c + 1) mod JIT_CACHE_SIZE\<rparr>"

text \<open>
  \<open>validate_lbr\<close> up to \<open>up(&jit_work_cond)\<close>; the second component is the digest
  of a request that was made, \<open>None\<close> when the function has returned.
\<close>

definition validate_request :: "jit_env \<Rightarrow> kernel \<Rightarrow> kernel \<times> u8 list option" where
  "validate_request J k =
    (let lbr = get_lbr (my_msrs k) (stack_lbr J)
     in if disable_jit k then (k, None)
        else
          let k = stat (\<lambda>s. s\<lparr>st_jit_lookups := st_jit_lookups s + 1\<rparr>) k;
              h = hash_lbr J lbr;
              k = stat (\<lambda>s. s\<lparr>st_digests := st_digests s + 1\<rparr>) k
          in if jit_cache_lookup (jit_cache k) h
             then (stat (\<lambda>s. s\<lparr>st_jit_cache_hits := st_jit_cache_hits s + 1\<rparr>) k, None)
             else
               let k = stat (\<lambda>s. s\<lparr>st_jit_requests := st_jit_requests s + 1\<rparr>) k
               in (k\<lparr>jit_work := Some lbr, jit_work_cond := jit_work_cond k + 1\<rparr>, Some h))"

text \<open>\<open>down_timeout(&jit_result_cond)\<close> when the wait is over; the boolean is the timeout.\<close>

definition down_result :: "kernel \<Rightarrow> kernel \<times> bool" where
  "down_result k =
    (if jit_result_cond k = 0 then (k, True)
     else (k\<lparr>jit_result_cond := jit_result_cond k - 1\<rparr>, False))"

definition validate_finish :: "jit_env \<Rightarrow> u8 list \<Rightarrow> kernel \<times> bool \<Rightarrow> kernel" where
  "validate_finish J h w =
    (let k = fst w; timeout = snd w
     in if timeout
        then (stat (\<lambda>s. s\<lparr>st_jit_timeouts := st_jit_timeouts s + 1\<rparr>) k)\<lparr>disable_jit := True\<rparr>
        else
          let delta = (if elapsed J = 0 then st_jit_lookups (stats k) mod 2 else elapsed J);
              (sec, usec) = jiffies_to_timeval J delta;
              k = stat (\<lambda>s. s\<lparr>st_jit_sec := st_jit_sec s + sec,
                              st_jit_usec := st_jit_usec s + usec\<rparr>) k
          in if jit_result k = 0
             then (stat (\<lambda>s. s\<lparr>st_jit_misses := st_jit_misses s + 1\<rparr>) k)
                    \<lparr>jit_cache := jit_cache_store h (jit_cache k)\<rparr>
             else if jit_result k = 2
             then (stat (\<lambda>s. s\<lparr>st_jit_unsupported := st_jit_unsupported s + 1\<rparr>) k)
                    \<lparr>jit_cache := jit_cache_store h (jit_cache k)\<rparr>
             else if jit_result k = 1
             then (stat (\<lambda>s. s\<lparr>st_jit_hits := st_jit_hits s + 1\<rparr>) k)
                    \<lparr>jit_cache := jit_cache_store h (jit_cache k)\<rparr>
             else k)"

definition validate_lbr :: "jit_env \<Rightarrow> kernel \<Rightarrow> kernel" where
  "validate_lbr J k =
    (case validate_request J k of
       (k, None) \<Rightarrow> k
     | (k, Some h) \<Rightarrow> validate_finish J h (down_result (daemon J k)))"

text \<open>
  The daemon's ioctls, when no signal interrupts the wait and the copy to user
  space succeeds: \<open>GET_JIT_WORK\<close> blocks (\<open>None\<close>) without work.
\<close>

definition get_jit_work :: "kernel \<Rightarrow> (kernel \<times> lbr_t) option" where
  "get_jit_work k =
    (if jit_work_cond k = 0 then None
     else case jit_work k of
            None \<Rightarrow> None
          | Some lbr \<Rightarrow> Some (k\<lparr>jit_work_cond := jit_work_cond k - 1\<rparr>, lbr))"

definition put_jit_work :: "u64 \<Rightarrow> kernel \<Rightarrow> kernel" where
  "put_jit_work r k = k\<lparr>jit_result := r, jit_result_cond := jit_result_cond k + 1\<rparr>"

text \<open>A daemon that answers one request with an analysis.\<close>

definition serve_once :: "(lbr_t \<Rightarrow> u64) \<Rightarrow> kernel \<Rightarrow> kernel" where
  "serve_once analyze k =
    (case get_jit_work k of None \<Rightarrow> k | Some (k, lbr) \<Rightarrow> put_jit_work (analyze lbr) k)"

section \<open>The digest of an LBR\<close>

text \<open>The \<open>i\<close>-th newest branch of a saved LBR.\<close>

definition nth_newest :: "lbr_t \<Rightarrow> nat \<Rightarrow> u64 \<times> u64" where
  "nth_newest lbr i =
    (let j = (unat (tos lbr) mod LBR_ENTRIES + LBR_ENTRIES - i) mod LBR_ENTRIES
     in (from_regs lbr ! j, to_regs lbr ! j))"

lemma lbr_words_newest:
  "lbr_words lbr = concat (map (\<lambda>i. [fst (nth_newest lbr i), snd (nth_newest lbr i)]) [0..<LBR_ENTRIES])"
proof -
  have "unat ((tos lbr - word_of_nat i) mod word_of_nat LBR_ENTRIES) =
      (unat (tos lbr) mod LBR_ENTRIES + LBR_ENTRIES - i) mod LBR_ENTRIES" if "i < LBR_ENTRIES" for i
    using unat_circular_sub [of i "tos lbr"] that by (simp add: LBR_ENTRIES_def)
  then show ?thesis
    by (auto simp: lbr_words_def nth_newest_def Let_def intro!: arg_cong [where f = concat])
qed

lemma hash_lbr_cong:
  "(\<And>i. i < LBR_ENTRIES \<Longrightarrow> nth_newest a i = nth_newest b i) \<Longrightarrow> hash_lbr J a = hash_lbr J b"
  by (auto simp: hash_lbr_def lbr_words_newest intro!: arg_cong [where f = "digest J"]
      arg_cong [where f = concat])

lemma hash_lbr_get [simp]: "hash_lbr J (get_lbr m x) = hash_lbr J (get_lbr m y)"
  by (rule hash_lbr_cong) (simp add: nth_newest_def get_lbr_def)

section \<open>The digest cache\<close>

definition wf_jit_cache :: "jit_cache_t \<Rightarrow> bool" where
  "wf_jit_cache c \<longleftrightarrow> length (hash_rows c) = JIT_CACHE_SIZE \<and> hashes c < JIT_CACHE_SIZE"

lemma wf_zero_jit_cache [simp]: "wf_jit_cache zero_jit_cache"
  by (simp add: wf_jit_cache_def zero_jit_cache_def JIT_CACHE_SIZE_def)

lemma wf_jit_cache_store [wf_intros]: "wf_jit_cache c \<Longrightarrow> wf_jit_cache (jit_cache_store h c)"
  by (simp add: wf_jit_cache_def jit_cache_store_def JIT_CACHE_SIZE_def)

lemma lookup_store:
  assumes "wf_jit_cache c" "hashes c + 1 < JIT_CACHE_SIZE"
  shows "jit_cache_lookup (jit_cache_store h c) g \<longleftrightarrow>
    take DIGEST_LENGTH h = take DIGEST_LENGTH g \<or> jit_cache_lookup c g"
  using assms by (auto simp: jit_cache_lookup_def jit_cache_store_def wf_jit_cache_def less_Suc_eq)

lemma lookup_store_wrap:
  assumes "hashes c + 1 = JIT_CACHE_SIZE"
  shows "\<not> jit_cache_lookup (jit_cache_store h c) g"
  using assms by (simp add: jit_cache_lookup_def jit_cache_store_def)

section \<open>What a validation changes\<close>

lemma validate_request_frame:
  assumes "validate_request J k = (k', r)"
  shows "msrs k' = msrs k" "cpu k' = cpu k" "current k' = current k" "killed k' = killed k"
    "jit_cache k' = jit_cache k" "disable_jit k' = disable_jit k" "lib_data k' = lib_data k"
    "cbk_data k' = cbk_data k" "sig_data k' = sig_data k" "lbr_cache k' = lbr_cache k"
    "personality k' = personality k" "jit_result_cond k' = jit_result_cond k" "jit_result k' = jit_result k"
  using assms by (auto simp: validate_request_def Let_def split: if_splits)

lemma validate_request_Some:
  assumes "validate_request J k = (k', Some h)"
  shows "\<not> disable_jit k" "h = hash_lbr J (get_lbr (my_msrs k) (stack_lbr J))"
    "\<not> jit_cache_lookup (jit_cache k) h"
    "jit_work k' = Some (get_lbr (my_msrs k) (stack_lbr J))" "jit_work_cond k' = jit_work_cond k + 1"
    "st_jit_lookups (stats k') = st_jit_lookups (stats k) + 1"
    "st_jit_requests (stats k') = st_jit_requests (stats k) + 1"
  using assms by (auto simp: validate_request_def Let_def split: if_splits)

lemma validate_request_None:
  assumes "validate_request J k = (k', None)"
  shows "jit_work_cond k' = jit_work_cond k" "jit_work k' = jit_work k"
    "disable_jit k \<or> jit_cache_lookup (jit_cache k) (hash_lbr J (get_lbr (my_msrs k) (stack_lbr J)))"
    "st_jit_requests (stats k') = st_jit_requests (stats k)"
  using assms by (auto simp: validate_request_def Let_def split: if_splits)

lemma validate_request_disabled: "disable_jit k \<Longrightarrow> validate_request J k = (k, None)"
  by (simp add: validate_request_def)

lemma validate_finish_frame [simp]:
  "msrs (validate_finish J h w) = msrs (fst w)" "cpu (validate_finish J h w) = cpu (fst w)"
  "current (validate_finish J h w) = current (fst w)" "killed (validate_finish J h w) = killed (fst w)"
  "jit_work (validate_finish J h w) = jit_work (fst w)"
  "jit_work_cond (validate_finish J h w) = jit_work_cond (fst w)"
  "jit_result_cond (validate_finish J h w) = jit_result_cond (fst w)"
  "jit_result (validate_finish J h w) = jit_result (fst w)"
  "lib_data (validate_finish J h w) = lib_data (fst w)" "cbk_data (validate_finish J h w) = cbk_data (fst w)"
  "sig_data (validate_finish J h w) = sig_data (fst w)" "lbr_cache (validate_finish J h w) = lbr_cache (fst w)"
  "personality (validate_finish J h w) = personality (fst w)"
  by (simp_all add: validate_finish_def Let_def split: prod.splits)

lemma validate_finish_reply:
  "disable_jit (validate_finish J h (k, False)) = disable_jit k"
  "jit_cache (validate_finish J h (k, False)) =
    (if jit_result k \<in> {0, 1, 2} then jit_cache_store h (jit_cache k) else jit_cache k)"
  "st_jit_hits (stats (validate_finish J h (k, False))) =
    st_jit_hits (stats k) + (if jit_result k = 1 then 1 else 0)"
  "st_jit_misses (stats (validate_finish J h (k, False))) =
    st_jit_misses (stats k) + (if jit_result k = 0 then 1 else 0)"
  "st_jit_unsupported (stats (validate_finish J h (k, False))) =
    st_jit_unsupported (stats k) + (if jit_result k = 2 then 1 else 0)"
  "st_jit_timeouts (stats (validate_finish J h (k, False))) = st_jit_timeouts (stats k)"
  by (auto simp: validate_finish_def Let_def split: prod.splits)

lemma validate_finish_timeout:
  "disable_jit (validate_finish J h (k, True))"
  "jit_cache (validate_finish J h (k, True)) = jit_cache k"
  "st_jit_timeouts (stats (validate_finish J h (k, True))) = st_jit_timeouts (stats k) + 1"
  by (simp_all add: validate_finish_def)

lemma get_jit_work_Some:
  assumes "get_jit_work k = Some (k', lbr)"
  shows "jit_work k = Some lbr" "jit_work_cond k > 0" "jit_work_cond k' = jit_work_cond k - 1"
    "jit_result_cond k' = jit_result_cond k" "jit_result k' = jit_result k" "jit_work k' = jit_work k"
    "disable_jit k' = disable_jit k" "k' = k\<lparr>jit_work_cond := jit_work_cond k - 1\<rparr>"
  using assms by (auto simp: get_jit_work_def split: if_splits option.splits)

section \<open>Validator and daemon interleaved\<close>

text \<open>
  \<open>waiter\<close> is the validation that holds \<open>validation_lock\<close>, with its LBR and digest;
  \<open>busy\<close> is the LBR the daemon is analyzing; \<open>verdicts\<close> records each finished
  validation with the answer it processed.  \<open>Restart\<close> is what \<open>ARMOR_IOC_INIT\<close>
  resets of the protocol.
\<close>

record jit_sys =
  jk :: kernel
  waiter :: "(lbr_t \<times> u8 list) option"
  busy :: "lbr_t option"
  verdicts :: "(lbr_t \<times> u64) list"

datatype jit_label = Tau | Timeout | Restart

inductive jit_step :: "jit_env \<Rightarrow> (lbr_t \<Rightarrow> u64) \<Rightarrow> jit_sys \<Rightarrow> jit_label \<Rightarrow> jit_sys \<Rightarrow> bool" for J A where
  request: "waiter s = None \<Longrightarrow> validate_request J (on_cpu c t (jk s)) = (k, Some h) \<Longrightarrow>
    jit_work k = Some lbr \<Longrightarrow> jit_step J A s Tau (s\<lparr>jk := k, waiter := Some (lbr, h)\<rparr>)"
| skip: "waiter s = None \<Longrightarrow> validate_request J (on_cpu c t (jk s)) = (k, None) \<Longrightarrow>
    jit_step J A s Tau (s\<lparr>jk := k\<rparr>)"
| run: "jit_step J A s Tau (s\<lparr>jk := on_msrs (\<lambda>_. m) (on_cpu c t (jk s))\<rparr>)"
| get: "busy s = None \<Longrightarrow> get_jit_work (jk s) = Some (k, lbr) \<Longrightarrow>
    jit_step J A s Tau (s\<lparr>jk := k, busy := Some lbr\<rparr>)"
| put: "busy s = Some lbr \<Longrightarrow>
    jit_step J A s Tau (s\<lparr>jk := put_jit_work (A lbr) (jk s), busy := None\<rparr>)"
| finish: "waiter s = Some (lbr, h) \<Longrightarrow> down_result (jk s) = (k, False) \<Longrightarrow>
    jit_step J A s Tau (s\<lparr>jk := validate_finish J h (k, False), waiter := None,
      verdicts := (lbr, jit_result k) # verdicts s\<rparr>)"
| timeout: "waiter s = Some (lbr, h) \<Longrightarrow> down_result (jk s) = (k, True) \<Longrightarrow>
    jit_step J A s Timeout (s\<lparr>jk := validate_finish J h (k, True), waiter := None\<rparr>)"
| restart: "waiter s = None \<Longrightarrow>
    jit_step J A s Restart (s\<lparr>jk := (jk s)\<lparr>jit_cache := zero_jit_cache, disable_jit := False\<rparr>\<rparr>)"

inductive jit_run :: "jit_env \<Rightarrow> (lbr_t \<Rightarrow> u64) \<Rightarrow> jit_sys \<Rightarrow> jit_label list \<Rightarrow> jit_sys \<Rightarrow> bool" for J A where
  nil: "jit_run J A s [] s"
| snoc: "jit_run J A s ls s' \<Longrightarrow> jit_step J A s' l s'' \<Longrightarrow> jit_run J A s (ls @ [l]) s''"

text \<open>The semaphores hold at most one token, and it belongs to the waiting validation.\<close>

definition jit_inv :: "(lbr_t \<Rightarrow> u64) \<Rightarrow> jit_sys \<Rightarrow> bool" where
  "jit_inv A s \<longleftrightarrow>
    (case waiter s of
       None \<Rightarrow> jit_work_cond (jk s) = 0 \<and> jit_result_cond (jk s) = 0 \<and> busy s = None
     | Some (lbr, h) \<Rightarrow> jit_work (jk s) = Some lbr \<and>
         (jit_work_cond (jk s) = 1 \<and> busy s = None \<and> jit_result_cond (jk s) = 0
          \<or> jit_work_cond (jk s) = 0 \<and> busy s = Some lbr \<and> jit_result_cond (jk s) = 0
          \<or> jit_work_cond (jk s) = 0 \<and> busy s = None \<and> jit_result_cond (jk s) = 1
             \<and> jit_result (jk s) = A lbr))
    \<and> (\<forall>(lbr, r) \<in> set (verdicts s). r = A lbr)"

lemma jit_inv_step:
  assumes "jit_step J A s l s'" "jit_inv A s" "l \<noteq> Timeout"
  shows "jit_inv A s'"
  using assms
proof (cases rule: jit_step.cases)
  case (request c t k h lbr)
  with assms(2) validate_request_Some [OF request(4)] validate_request_frame [OF request(4)]
  show ?thesis by (auto simp: jit_inv_def on_cpu_def)
next
  case (skip c t k)
  with assms(2) validate_request_None [OF skip(4)] validate_request_frame [OF skip(4)]
  show ?thesis by (auto simp: jit_inv_def on_cpu_def)
next
  case (run m c t)
  with assms(2) show ?thesis by (auto simp: jit_inv_def on_cpu_def on_msrs_def split: option.splits)
next
  case (get k lbr)
  with assms(2) get_jit_work_Some [OF get(4)] show ?thesis by (auto simp: jit_inv_def split: option.splits)
next
  case (put lbr)
  with assms(2) show ?thesis by (auto simp: jit_inv_def put_jit_work_def split: option.splits)
next
  case (finish lbr h k)
  with assms(2) show ?thesis by (auto simp: jit_inv_def down_result_def split: if_splits option.splits)
next
  case restart
  with assms(2) show ?thesis by (auto simp: jit_inv_def split: option.splits)
qed simp

lemma jit_run_inv:
  "jit_run J A s ls s' \<Longrightarrow> jit_inv A s \<Longrightarrow> Timeout \<notin> set ls \<Longrightarrow> jit_inv A s'"
  by (induction rule: jit_run.induct) (auto intro: jit_inv_step)

text \<open>A waiting validation can always be driven to its verdict.\<close>

lemma jit_run_Tau:
  assumes "jit_run J A s (replicate n Tau) r" "jit_step J A r Tau r'"
  shows "jit_run J A s (replicate (Suc n) Tau) r'"
  using jit_run.snoc [OF assms] by (simp add: replicate_append_same)

lemma jit_progress:
  assumes "jit_inv A s" "waiter s = Some (lbr, h)"
  shows "\<exists>n s'. n \<le> 3 \<and> jit_run J A s (replicate n Tau) s' \<and> verdicts s' = (lbr, A lbr) # verdicts s"
proof -
  have fin: "\<exists>s'. jit_step J A r Tau s' \<and> verdicts s' = (lbr, A lbr) # verdicts r"
    if "waiter r = Some (lbr, h)" "jit_result_cond (jk r) = 1" "jit_result (jk r) = A lbr" for r
    using jit_step.finish [of r lbr h "(jk r)\<lparr>jit_result_cond := 0\<rparr>" J A] that
    by (auto simp: down_result_def intro!: exI)
  have ans: "\<exists>r. jit_step J A q Tau r \<and> waiter r = Some (lbr, h) \<and> jit_result_cond (jk r) = 1
      \<and> jit_result (jk r) = A lbr \<and> verdicts r = verdicts q"
    if "waiter q = Some (lbr, h)" "busy q = Some lbr" "jit_result_cond (jk q) = 0" for q
    using jit_step.put [of q lbr J A] that by (auto simp: put_jit_work_def intro!: exI)
  have start: "jit_run J A s (replicate 0 Tau) s" by (simp add: jit_run.nil)
  from assms consider
    (res) "jit_result_cond (jk s) = 1" "jit_result (jk s) = A lbr"
    | (bus) "busy s = Some lbr" "jit_result_cond (jk s) = 0"
    | (work) "jit_work_cond (jk s) = 1" "busy s = None" "jit_result_cond (jk s) = 0" "jit_work (jk s) = Some lbr"
    by (auto simp: jit_inv_def)
  then show ?thesis
  proof cases
    case res
    with fin [OF assms(2)] obtain s' where "jit_step J A s Tau s'" "verdicts s' = (lbr, A lbr) # verdicts s"
      by blast
    with jit_run_Tau [OF start] show ?thesis by (intro exI [of _ 1]) auto
  next
    case bus
    with ans [OF assms(2)] obtain r where r: "jit_step J A s Tau r" "waiter r = Some (lbr, h)"
      "jit_result_cond (jk r) = 1" "jit_result (jk r) = A lbr" "verdicts r = verdicts s" by blast
    from fin [OF r(2-4)] obtain s' where s': "jit_step J A r Tau s'" "verdicts s' = (lbr, A lbr) # verdicts r"
      by blast
    from jit_run_Tau [OF jit_run_Tau [OF start r(1)] s'(1)] s' r show ?thesis
      by (intro exI [of _ 2]) (auto simp: numeral_2_eq_2)
  next
    case work
    define q where "q = s\<lparr>jk := (jk s)\<lparr>jit_work_cond := 0\<rparr>, busy := Some lbr\<rparr>"
    have q: "jit_step J A s Tau q"
      unfolding q_def using work by (intro jit_step.get) (auto simp: get_jit_work_def)
    obtain r where r: "jit_step J A q Tau r" "waiter r = Some (lbr, h)"
      "jit_result_cond (jk r) = 1" "jit_result (jk r) = A lbr" "verdicts r = verdicts s"
      using ans [of q] work assms(2) by (auto simp: q_def)
    from fin [OF r(2-4)] obtain s' where s': "jit_step J A r Tau s'" "verdicts s' = (lbr, A lbr) # verdicts r"
      by blast
    from jit_run_Tau [OF jit_run_Tau [OF jit_run_Tau [OF start q] r(1)] s'(1)] s' r show ?thesis
      by (intro exI [of _ 3]) (auto simp: numeral_3_eq_3)
  qed
qed

section \<open>Validation with a daemon that answers\<close>

lemma nth_newest_get:
  "nth_newest (get_lbr m l) i =
    (let j = (unat (m MSR_LBR_TOS) mod LBR_ENTRIES + LBR_ENTRIES - i) mod LBR_ENTRIES
     in (LBR_FROM (m (MSR_LBR_NHM_FROM + j)), m (MSR_LBR_NHM_TO + j)))"
  by (simp add: nth_newest_def LBR_ENTRIES_def)

lemma hash_lbr_view:
  assumes "lbr_view m = lbr_view m'"
  shows "hash_lbr J (get_lbr m l) = hash_lbr J (get_lbr m' l')"
  using assms by (intro hash_lbr_cong) (simp add: nth_newest_def lbr_view_def get_lbr_def)

text \<open>No token is left in a semaphore, and the daemon answers with the analysis \<open>A\<close>.\<close>

definition served :: "jit_env \<Rightarrow> (lbr_t \<Rightarrow> u64) \<Rightarrow> kernel \<Rightarrow> bool" where
  "served J A k \<longleftrightarrow> daemon J = serve_once A \<and> jit_work_cond k = 0 \<and> jit_result_cond k = 0"

lemma validate_served:
  assumes "served J A k" "validate_request J k = (k1, Some h)"
  defines "lbr \<equiv> get_lbr (my_msrs k) (stack_lbr J)"
  shows "validate_lbr J k = validate_finish J h
    (k1\<lparr>jit_work_cond := 0, jit_result := A lbr, jit_result_cond := 0\<rparr>, False)"
  using assms validate_request_Some [OF assms(2)] validate_request_frame [OF assms(2)]
  by (simp add: validate_lbr_def served_def serve_once_def get_jit_work_def put_jit_work_def down_result_def)

lemma validate_served_effect:
  assumes "served J A k" "validate_request J k = (k1, Some h)"
  defines "lbr \<equiv> get_lbr (my_msrs k) (stack_lbr J)"
  shows "jit_cache (validate_lbr J k) =
      (if A lbr \<in> {0, 1, 2} then jit_cache_store h (jit_cache k) else jit_cache k)"
    "disable_jit (validate_lbr J k) = disable_jit k" "killed (validate_lbr J k) = killed k"
    "msrs (validate_lbr J k) = msrs k" "served J A (validate_lbr J k)"
  using assms validate_served [OF assms(1,2)] validate_request_frame [OF assms(2)]
  by (simp_all add: validate_finish_reply served_def)

lemma validate_request_miss:
  assumes "\<not> disable_jit k" "\<not> jit_cache_lookup (jit_cache k) (hash_lbr J (get_lbr (my_msrs k) (stack_lbr J)))"
  shows "\<exists>k1. validate_request J k = (k1, Some (hash_lbr J (get_lbr (my_msrs k) (stack_lbr J))))"
  using assms by (auto simp: validate_request_def Let_def)

lemma validate_served_frame:
  assumes "served J A k"
  shows "msrs (validate_lbr J k) = msrs k" "killed (validate_lbr J k) = killed k"
    "cpu (validate_lbr J k) = cpu k" "current (validate_lbr J k) = current k"
    "disable_jit (validate_lbr J k) = disable_jit k" "served J A (validate_lbr J k)"
    "lib_data (validate_lbr J k) = lib_data k" "cbk_data (validate_lbr J k) = cbk_data k"
    "sig_data (validate_lbr J k) = sig_data k" "lbr_cache (validate_lbr J k) = lbr_cache k"
    "personality (validate_lbr J k) = personality k"
proof -
  have "msrs (validate_lbr J k) = msrs k \<and> killed (validate_lbr J k) = killed k
    \<and> cpu (validate_lbr J k) = cpu k \<and> current (validate_lbr J k) = current k
    \<and> disable_jit (validate_lbr J k) = disable_jit k \<and> served J A (validate_lbr J k)
    \<and> lib_data (validate_lbr J k) = lib_data k \<and> cbk_data (validate_lbr J k) = cbk_data k
    \<and> sig_data (validate_lbr J k) = sig_data k \<and> lbr_cache (validate_lbr J k) = lbr_cache k
    \<and> personality (validate_lbr J k) = personality k"
  proof (cases "validate_request J k")
    case (Pair k1 r)
    note f = validate_request_frame [OF Pair]
    show ?thesis
    proof (cases r)
      case None
      with Pair f assms validate_request_None [of J k k1] show ?thesis
        by (simp add: validate_lbr_def served_def)
    next
      case (Some h)
      with Pair f validate_served [OF assms, of k1 h] validate_served_effect [OF assms, of k1 h] show ?thesis
        by simp
    qed
  qed
  then show "msrs (validate_lbr J k) = msrs k" "killed (validate_lbr J k) = killed k"
    "cpu (validate_lbr J k) = cpu k" "current (validate_lbr J k) = current k"
    "disable_jit (validate_lbr J k) = disable_jit k" "served J A (validate_lbr J k)"
    "lib_data (validate_lbr J k) = lib_data k" "cbk_data (validate_lbr J k) = cbk_data k"
    "sig_data (validate_lbr J k) = sig_data k" "lbr_cache (validate_lbr J k) = lbr_cache k"
    "personality (validate_lbr J k) = personality k" by blast+
qed

lemma validate_finish_lookups [simp]:
  "st_jit_lookups (stats (validate_finish J h w)) = st_jit_lookups (stats (fst w))"
  by (simp add: validate_finish_def Let_def split: prod.splits)

lemma validate_served_lookups:
  assumes "served J A k"
  shows "st_jit_lookups (stats (validate_lbr J k)) =
    st_jit_lookups (stats k) + (if disable_jit k then 0 else 1)"
proof (cases "validate_request J k")
  case (Pair k1 r)
  then show ?thesis
  proof (cases r)
    case None
    with Pair show ?thesis
      by (auto simp: validate_lbr_def validate_request_def Let_def split: if_splits)
  next
    case (Some h)
    with Pair validate_served [OF assms, of k1 h] validate_request_Some [of J k k1 h] show ?thesis by simp
  qed
qed

text \<open>A concrete environment for the examples.\<close>

definition demo_env :: "(lbr_t \<Rightarrow> u64) \<Rightarrow> jit_env" where
  "demo_env A = \<lparr>digest = map ucast, jiffies_to_timeval = (\<lambda>_. (0, 0)), daemon = serve_once A,
     elapsed = 0, stack_lbr = zero_lbr\<rparr>"

lemma served_boot: "served (demo_env A) A boot_kernel"
  by (simp add: served_def demo_env_def)

lemma zero_jit_simps [simp]: "hashes zero_jit_cache = 0" "\<not> jit_cache_lookup zero_jit_cache h"
  by (simp_all add: zero_jit_cache_def jit_cache_lookup_def)

lemma boot_request: "\<exists>k1 h. validate_request J boot_kernel = (k1, Some h)"
  by (simp add: validate_request_def Let_def)

text \<open>Concrete protocol states: no validation in progress, registers all equal to \<open>x\<close>.\<close>

definition demo_sys :: "u64 \<Rightarrow> jit_sys" where
  "demo_sys x = \<lparr>jk = boot_kernel\<lparr>msrs := (\<lambda>_ _. x)\<rparr>, waiter = None, busy = None, verdicts = []\<rparr>"

lemma demo_sys_inv: "jit_inv A (demo_sys x)"
  by (simp add: jit_inv_def demo_sys_def)

lemma jit_step_request:
  fixes c :: nat and J :: jit_env
  assumes "waiter s = None" "\<not> disable_jit (jk s)" "hashes (jit_cache (jk s)) = 0"
  defines "lbr \<equiv> get_lbr (msrs (jk s) c) (stack_lbr J)"
  shows "\<exists>k h. jit_step J A s Tau (s\<lparr>jk := k, waiter := Some (lbr, h)\<rparr>)
    \<and> jit_work k = Some lbr \<and> jit_work_cond k = jit_work_cond (jk s) + 1
    \<and> jit_result_cond k = jit_result_cond (jk s) \<and> msrs k = msrs (jk s) \<and> disable_jit k = disable_jit (jk s)"
proof -
  have "\<not> jit_cache_lookup (jit_cache (on_cpu c t (jk s))) h" for t h
    using assms(3) by (simp add: jit_cache_lookup_def on_cpu_def)
  moreover have "\<not> disable_jit (on_cpu c 1 (jk s))" using assms(2) by (simp add: on_cpu_def)
  ultimately obtain k h where r: "validate_request J (on_cpu c 1 (jk s)) = (k, Some h)"
    using validate_request_miss by blast
  from jit_step.request [OF assms(1) r validate_request_Some(4) [OF r], of A]
    validate_request_Some [OF r] validate_request_frame [OF r] assms(4)
  show ?thesis by (auto simp: on_cpu_def)
qed

lemma jit_run_trans: "jit_run J A s ls s' \<Longrightarrow> jit_run J A s' ls' s'' \<Longrightarrow> jit_run J A s (ls @ ls') s''"
proof (rotate_tac, induction rule: jit_run.induct)
  case (snoc s ls s' l s'')
  then show ?case using jit_run.snoc by (metis append.assoc)
qed simp

lemma jit_run_Cons: "jit_step J A s l s' \<Longrightarrow> jit_run J A s' ls s'' \<Longrightarrow> jit_run J A s (l # ls) s''"
  using jit_run_trans [OF jit_run.snoc [OF jit_run.nil]] by fastforce

text \<open>A request that the daemon fetches and that is given up: the daemon stays busy with it.\<close>

lemma jit_abandon:
  assumes "waiter s = None" "busy s = None" "\<not> disable_jit (jk s)" "hashes (jit_cache (jk s)) = 0"
    "jit_work_cond (jk s) = 0" "jit_result_cond (jk s) = 0"
  shows "\<exists>s'. jit_run J A s [Tau, Tau, Timeout, Restart] s' \<and> waiter s' = None
    \<and> busy s' = Some (get_lbr (msrs (jk s) 0) (stack_lbr J)) \<and> \<not> disable_jit (jk s')
    \<and> hashes (jit_cache (jk s')) = 0 \<and> jit_result_cond (jk s') = 0"
proof -
  let ?l = "get_lbr (msrs (jk s) 0) (stack_lbr J)"
  obtain k1 h where s1: "jit_step J A s Tau (s\<lparr>jk := k1, waiter := Some (?l, h)\<rparr>)"
    and k1: "jit_work k1 = Some ?l" "jit_work_cond k1 = 1" "jit_result_cond k1 = 0"
    using jit_step_request [where s = s and J = J and A = A and c = 0] assms by auto
  let ?s1 = "s\<lparr>jk := k1, waiter := Some (?l, h)\<rparr>"
  let ?s2 = "?s1\<lparr>jk := k1\<lparr>jit_work_cond := 0\<rparr>, busy := Some ?l\<rparr>"
  have s2: "jit_step J A ?s1 Tau ?s2"
    using jit_step.get [of ?s1 "k1\<lparr>jit_work_cond := 0\<rparr>" ?l J A] k1 assms(2)
    by (simp add: get_jit_work_def)
  let ?s3 = "?s2\<lparr>jk := validate_finish J h (jk ?s2, True), waiter := None\<rparr>"
  have s3: "jit_step J A ?s2 Timeout ?s3"
    using jit_step.timeout [of ?s2 ?l h "jk ?s2" J A] k1 by (simp add: down_result_def)
  let ?s4 = "?s3\<lparr>jk := (jk ?s3)\<lparr>jit_cache := zero_jit_cache, disable_jit := False\<rparr>\<rparr>"
  have s4: "jit_step J A ?s3 Restart ?s4" by (rule jit_step.restart) simp
  have "jit_run J A s [Tau, Tau, Timeout, Restart] ?s4"
    using jit_run_Cons [OF s1 jit_run_Cons [OF s2 jit_run_Cons [OF s3 jit_run_Cons [OF s4 jit_run.nil]]]] .
  with k1 show ?thesis by (intro exI [of _ ?s4]) simp
qed

text \<open>The answer to it arrives while another LBR is being validated.\<close>

lemma jit_late_answer:
  assumes "busy s = Some l" "waiter s = None" "\<not> disable_jit (jk s)" "hashes (jit_cache (jk s)) = 0"
    "jit_result_cond (jk s) = 0"
  shows "\<exists>s'. jit_run J A s [Tau, Tau, Tau, Tau] s'
    \<and> (get_lbr (\<lambda>_. x) (stack_lbr J), A l) \<in> set (verdicts s')"
proof -
  let ?l = "get_lbr (\<lambda>_. x) (stack_lbr J)"
  let ?s1 = "s\<lparr>jk := on_msrs (\<lambda>_ _. x) (on_cpu 0 7 (jk s))\<rparr>"
  have s1: "jit_step J A s Tau ?s1" by (rule jit_step.run)
  obtain k2 h where s2: "jit_step J A ?s1 Tau (?s1\<lparr>jk := k2, waiter := Some (?l, h)\<rparr>)"
    and k2: "jit_result_cond k2 = 0"
    using jit_step_request [where s = ?s1 and J = J and A = A and c = 0] assms by (auto simp: on_cpu_def)
  let ?s2 = "?s1\<lparr>jk := k2, waiter := Some (?l, h)\<rparr>"
  let ?s3 = "?s2\<lparr>jk := put_jit_work (A l) k2, busy := None\<rparr>"
  have s3: "jit_step J A ?s2 Tau ?s3" using jit_step.put [of ?s2 l J A] assms(1) by simp
  let ?k4 = "(jk ?s3)\<lparr>jit_result_cond := 0\<rparr>"
  let ?s4 = "?s3\<lparr>jk := validate_finish J h (?k4, False), waiter := None,
    verdicts := (?l, jit_result ?k4) # verdicts ?s3\<rparr>"
  have s4: "jit_step J A ?s3 Tau ?s4"
    using jit_step.finish [of ?s3 ?l h ?k4 J A] k2 by (simp add: down_result_def put_jit_work_def)
  have "jit_run J A s [Tau, Tau, Tau, Tau] ?s4"
    using jit_run_Cons [OF s1 jit_run_Cons [OF s2 jit_run_Cons [OF s3 jit_run_Cons [OF s4 jit_run.nil]]]] .
  then show ?thesis by (intro exI [of _ ?s4]) (simp add: put_jit_work_def)
qed

section \<open>Properties\<close>

text \<open>
  The digest identifies the sequence of the sixteen most recent branches and
  nothing else: rotating the ring of registers together with its top index, or
  changing the task pointer or the control registers, does not change it.
\<close>

theorem hash_lbr_rotation:
  assumes "wf_lbr a" "wf_lbr b"
    "from_regs b = rotate r (from_regs a)" "to_regs b = rotate r (to_regs a)"
    "(unat (tos b) + r) mod LBR_ENTRIES = unat (tos a) mod LBR_ENTRIES"
  shows "hash_lbr J a = hash_lbr J b"
proof (rule hash_lbr_cong)
  fix i assume i: "i < LBR_ENTRIES"
  let ?j = "(unat (tos a) mod LBR_ENTRIES + LBR_ENTRIES - i) mod LBR_ENTRIES"
  let ?j' = "(unat (tos b) mod LBR_ENTRIES + LBR_ENTRIES - i) mod LBR_ENTRIES"
  have "(r + ?j') mod LBR_ENTRIES = ?j" "?j' < LBR_ENTRIES"
    using rotate_index [OF _ assms(5)] i by (simp_all add: LBR_ENTRIES_def)
  then have "from_regs b ! ?j' = from_regs a ! ?j" "to_regs b ! ?j' = to_regs a ! ?j"
    using assms(1-4) by (simp_all add: wf_lbr_def nth_rotate add.commute)
  then show "nth_newest a i = nth_newest b i" by (simp add: nth_newest_def Let_def)
qed

theorem hash_lbr_rotation_witness:
  "let a = zero_lbr\<lparr>from_regs := map word_of_nat [0..<16], tos := 3, lbr_task := 7\<rparr>;
       b = zero_lbr\<lparr>from_regs := rotate 2 (map word_of_nat [0..<16]),
                     to_regs := rotate 2 (to_regs zero_lbr), tos := 1\<rparr>
   in hash_lbr (demo_env (\<lambda>_. 1)) a = hash_lbr (demo_env (\<lambda>_. 1)) b"
  using hash_lbr_rotation [of "zero_lbr\<lparr>from_regs := map word_of_nat [0..<16], tos := 3, lbr_task := 7\<rparr>"
      "zero_lbr\<lparr>from_regs := rotate 2 (map word_of_nat [0..<16]),
        to_regs := rotate 2 (to_regs zero_lbr), tos := 1\<rparr>" 2 "demo_env (\<lambda>_. 1)"]
  by (simp add: wf_lbr_def zero_lbr_def LBR_ENTRIES_def)

text \<open>
  An LBR on which the analyzer has given a verdict is not analyzed again.
  Once \<open>validate_lbr\<close> has processed the verdict 0, 1 or 2, every later validation of
  a task with the same LBR is answered from the digest cache without a request,
  until the cache position wraps or the module is initialised again.
\<close>

theorem verdict_is_cached:
  assumes "served J A k" "wf_jit_cache (jit_cache k)" "hashes (jit_cache k) + 1 < JIT_CACHE_SIZE"
    "\<not> disable_jit k" "A (get_lbr (my_msrs k) (stack_lbr J)) \<in> {0, 1, 2}"
    and "jit_cache k' = jit_cache (validate_lbr J k)" "lbr_view (my_msrs k') = lbr_view (my_msrs k)"
    "digest J' = digest J"
  shows "snd (validate_request J' k') = None
    \<and> st_jit_requests (stats (validate_lbr J' k')) = st_jit_requests (stats k')"
proof -
  let ?h = "hash_lbr J (get_lbr (my_msrs k) (stack_lbr J))"
  have h': "hash_lbr J' (get_lbr (my_msrs k') (stack_lbr J')) = ?h"
    using hash_lbr_view [OF assms(7), of J] assms(8) by (simp add: hash_lbr_def)
  have "jit_cache_lookup (jit_cache k') ?h"
  proof (cases "jit_cache_lookup (jit_cache k) ?h")
    case True
    then have "jit_cache (validate_lbr J k) = jit_cache k"
      using assms(4) by (simp add: validate_lbr_def validate_request_def)
    with True assms(6) show ?thesis by simp
  next
    case False
    then obtain k1 where "validate_request J k = (k1, Some ?h)"
      using validate_request_miss [OF assms(4)] by blast
    from validate_served_effect(1) [OF assms(1) this] assms(2,3,5,6) show ?thesis
      by (simp add: lookup_store)
  qed
  then have "snd (validate_request J' k') = None"
    by (simp add: validate_request_def h' Let_def)
  then show ?thesis
    using validate_request_None(4) [of J' k'] by (cases "validate_request J' k'") (simp add: validate_lbr_def)
qed

theorem verdict_is_cached_witness:
  "snd (validate_request (demo_env (\<lambda>_. 1)) (validate_lbr (demo_env (\<lambda>_. 1)) boot_kernel)) = None"
  using verdict_is_cached [OF served_boot [of "\<lambda>_. 1"], where k' = "validate_lbr (demo_env (\<lambda>_. 1)) boot_kernel"]
    validate_served_frame [OF served_boot [of "\<lambda>_. 1"]]
  by (simp add: JIT_CACHE_SIZE_def)

text \<open>
  C31: A verdict is counted, but never enforced.  Whatever the analyzer answers, the
  current task is not killed and its registers are untouched; exactly the
  counter of the verdict is incremented; and an LBR judged invalid (0) enters the
  digest cache in the same way as a valid one (1), so that it passes every later
  validation.
\<close>

theorem invalid_verdict_not_enforced:
  assumes "served J A k" "validate_request J k = (k1, Some h)" "A (get_lbr (my_msrs k) (stack_lbr J)) = v"
    "v \<in> {0, 1, 2}"
  shows "killed (validate_lbr J k) = killed k \<and> msrs (validate_lbr J k) = msrs k
    \<and> jit_cache (validate_lbr J k) = jit_cache_store h (jit_cache k)
    \<and> st_jit_hits (stats (validate_lbr J k)) = st_jit_hits (stats k1) + (if v = 1 then 1 else 0)
    \<and> st_jit_misses (stats (validate_lbr J k)) = st_jit_misses (stats k1) + (if v = 0 then 1 else 0)
    \<and> st_jit_unsupported (stats (validate_lbr J k)) = st_jit_unsupported (stats k1) + (if v = 2 then 1 else 0)"
  using validate_served [OF assms(1,2)] validate_served_effect [OF assms(1,2)] assms(3,4)
  by (simp add: validate_finish_reply)

theorem invalid_verdict_not_enforced_witness:
  "killed (validate_lbr (demo_env (\<lambda>_. 0)) boot_kernel) = {}
    \<and> hashes (jit_cache (validate_lbr (demo_env (\<lambda>_. 0)) boot_kernel)) = 1"
proof -
  obtain k1 h where "validate_request (demo_env (\<lambda>_. 0)) boot_kernel = (k1, Some h)"
    using boot_request by blast
  from invalid_verdict_not_enforced [OF served_boot this refl] show ?thesis
    by (simp add: jit_cache_store_def JIT_CACHE_SIZE_def)
qed

text \<open>
  The digest cache is not circular.  Storing into its last row resets the
  position to 0, and since a lookup only scans the rows below the position, every
  digest is forgotten at that moment, the one just stored included.
\<close>

theorem digest_cache_forgets_at_wrap:
  assumes "wf_jit_cache c" "hashes c + 1 = JIT_CACHE_SIZE"
  shows "hash_rows (jit_cache_store h c) ! hashes c = h \<and> \<not> jit_cache_lookup (jit_cache_store h c) g"
  using assms lookup_store_wrap [OF assms(2)]
  by (simp add: jit_cache_store_def wf_jit_cache_def)

theorem digest_cache_forgets_at_wrap_witness:
  "\<not> jit_cache_lookup (jit_cache_store [1] (zero_jit_cache\<lparr>hashes := 511\<rparr>)) [1]"
  using digest_cache_forgets_at_wrap [of "zero_jit_cache\<lparr>hashes := 511\<rparr>" "[1]" "[1]"]
  by (simp add: wf_jit_cache_def JIT_CACHE_SIZE_def zero_jit_cache_def)

text \<open>
  Validation fails open.  When the analyzer does not answer in time, the
  module counts the timeout and switches validation off: from then on
  \<open>validate_lbr\<close> returns at once, whatever the LBR holds, until \<open>ARMOR_IOC_INIT\<close>.
\<close>

theorem timeout_disables_validation:
  assumes "validate_request J k = (k1, Some h)" "jit_result_cond (daemon J k1) = 0"
  shows "disable_jit (validate_lbr J k)
    \<and> st_jit_timeouts (stats (validate_lbr J k)) = st_jit_timeouts (stats (daemon J k1)) + 1
    \<and> validate_lbr J' ((validate_lbr J k)\<lparr>msrs := M, cpu := c, current := t\<rparr>)
        = (validate_lbr J k)\<lparr>msrs := M, cpu := c, current := t\<rparr>"
proof -
  have "validate_lbr J k = validate_finish J h (daemon J k1, True)"
    using assms by (simp add: validate_lbr_def down_result_def)
  then have "disable_jit (validate_lbr J k)"
    "st_jit_timeouts (stats (validate_lbr J k)) = st_jit_timeouts (stats (daemon J k1)) + 1"
    by (simp_all add: validate_finish_timeout)
  then show ?thesis by (simp add: validate_lbr_def [of J'] validate_request_disabled)
qed

theorem timeout_disables_validation_witness:
  "disable_jit (validate_lbr ((demo_env (\<lambda>_. 1))\<lparr>daemon := id\<rparr>) boot_kernel)"
proof -
  let ?J = "(demo_env (\<lambda>_. 1))\<lparr>daemon := id\<rparr>"
  obtain k1 h where v: "validate_request ?J boot_kernel = (k1, Some h)"
    using boot_request by blast
  from validate_request_frame(12) [OF v] timeout_disables_validation [OF v] show ?thesis by simp
qed

text \<open>
  C11: Every verdict is for the LBR that was submitted.  In every interleaving of
  validating tasks with the daemon in which no validation times out, a validation
  that finishes has processed the analysis of its own LBR, the semaphores never
  hold more than one token, and a waiting validation can always be completed
  within three steps of the daemon and the validator.
\<close>

theorem jit_protocol_correct:
  assumes "jit_run J A s ls s'" "jit_inv A s" "Timeout \<notin> set ls"
  shows "(\<forall>p \<in> set (verdicts s'). snd p = A (fst p))
    \<and> jit_work_cond (jk s') + jit_result_cond (jk s') \<le> 1
    \<and> (waiter s' = Some (lbr, h) \<longrightarrow>
        (\<exists>n s''. n \<le> 3 \<and> jit_run J A s' (replicate n Tau) s'' \<and> verdicts s'' = (lbr, A lbr) # verdicts s'))"
proof -
  have inv: "jit_inv A s'" using jit_run_inv [OF assms] .
  have "jit_work_cond (jk s') + jit_result_cond (jk s') \<le> 1" "\<forall>p \<in> set (verdicts s'). snd p = A (fst p)"
    using inv by (auto simp: jit_inv_def split: option.splits)
  with jit_progress [OF inv, of lbr h J] show ?thesis by blast
qed

theorem jit_protocol_correct_witness:
  "\<exists>s' s'' lbr h. jit_run (demo_env (\<lambda>_. 1)) (\<lambda>_. 1) (demo_sys 5) [Tau] s' \<and> waiter s' = Some (lbr, h)
     \<and> verdicts s'' = [(lbr, 1)] \<and> (\<exists>n \<le> 3. jit_run (demo_env (\<lambda>_. 1)) (\<lambda>_. 1) s' (replicate n Tau) s'')"
proof -
  let ?J = "demo_env (\<lambda>_. 1)" and ?A = "\<lambda>_ :: lbr_t. 1 :: u64"
  obtain k lbr h where st: "jit_step ?J ?A (demo_sys 5) Tau ((demo_sys 5)\<lparr>jk := k, waiter := Some (lbr, h)\<rparr>)"
    using jit_step_request [where s = "demo_sys 5" and J = ?J and A = ?A and c = 0] by (auto simp: demo_sys_def)
  let ?s' = "(demo_sys 5)\<lparr>jk := k, waiter := Some (lbr, h)\<rparr>"
  have run: "jit_run ?J ?A (demo_sys 5) [Tau] ?s'"
    using jit_run.snoc [OF jit_run.nil st] by simp
  from jit_protocol_correct [OF run demo_sys_inv, of lbr h]
  obtain n s'' where n: "n \<le> 3" "jit_run ?J ?A ?s' (replicate n Tau) s''" "verdicts s'' = [(lbr, 1)]"
    by (auto simp: demo_sys_def)
  have "waiter ?s' = Some (lbr, h)" by simp
  with run n show ?thesis by blast
qed


end
