(* ===== verification/Armor_Hooks.thy ===== *)
theory Armor_Hooks
  imports Wrapper_Cache Validate
begin

text \<open>
  The kernel functions that \<open>src/lkm/armor.c\<close> intercepts: signal delivery and
  return, task creation and exit, and the dangerous system calls.  Each hook
  acts only on tasks whose supervision bit is set.

  A hook that validates takes the environment \<open>J\<close> of \<open>validate_lbr\<close>.  The
  deferred work of \<open>do_exit\<close> is a list of tasks, run in order by \<open>do_deferred_exit\<close>.
\<close>

abbreviation supervised :: "kernel \<Rightarrow> task \<Rightarrow> bool" where
  "supervised k t \<equiv> tst_task_lbr (personality k t)"

section \<open>Signals\<close>

definition new_signal_delivered :: "jit_env \<Rightarrow> u64 \<Rightarrow> kernel \<Rightarrow> kernel" where
  "new_signal_delivered J sa_handler k =
    (if supervised k (current k) then
       if sa_handler \<noteq> 0 then
         let k = stat (\<lambda>s. s\<lparr>st_sig_enter := st_sig_enter s + 1\<rparr>) k;
             k = validate_lbr J k
         in sig_init sa_handler k
       else k
     else k)"

definition new_sys_rt_sigreturn :: "kernel \<Rightarrow> kernel" where
  "new_sys_rt_sigreturn k =
    (if supervised k (current k)
     then sig_exit (stat (\<lambda>s. s\<lparr>st_sig_return := st_sig_return s + 1\<rparr>) k)
     else k)"

section \<open>Task creation and exit\<close>

text \<open>
  Copy the entry of the current task, if it has one, to an entry for the new
  task: the scan remembers the last match among the first \<open>scan\<close> entries.
\<close>

definition wake_copy ::
  "(wrapper_lib_t \<Rightarrow> wrapper_lib_t \<Rightarrow> wrapper_lib_t) \<Rightarrow> nat \<Rightarrow> nat \<Rightarrow> task \<Rightarrow> task
    \<Rightarrow> wrapper_lib_t list \<Rightarrow> wrapper_lib_t list \<times> bool" where
  "wake_copy copy scan cache_size cur p data =
    (case find_last_index (\<lambda>e. wl_task e = cur) (take scan data) of
       None \<Rightarrow> (data, False)
     | Some our \<Rightarrow>
         let (data, new, full) = find_cache_entry_init data cache_size p
         in (data[new := copy (data ! our) (data ! new)], full))"

definition copy_rets :: "wrapper_lib_t \<Rightarrow> wrapper_lib_t \<Rightarrow> wrapper_lib_t" where
  "copy_rets src dst = dst\<lparr>rets := rets src\<rparr>"

definition copy_lbrs :: "wrapper_lib_t \<Rightarrow> wrapper_lib_t \<Rightarrow> wrapper_lib_t" where
  "copy_lbrs src dst = dst\<lparr>lbrs := lbrs src\<rparr>"

definition copy_both :: "wrapper_lib_t \<Rightarrow> wrapper_lib_t \<Rightarrow> wrapper_lib_t" where
  "copy_both src dst = copy_lbrs src (copy_rets src dst)"

definition new_wake_up_new_task :: "task \<Rightarrow> kernel \<Rightarrow> kernel" where
  "new_wake_up_new_task p k =
    (if supervised k p then
       let k = stat (\<lambda>s. s\<lparr>st_new_tasks := st_new_tasks s + 1\<rparr>) k;
           k = k\<lparr>notifiers := (notifiers k)(p := True)\<rparr>;
           (d, full) = wake_copy copy_rets LIB_CACHE_SIZE LIB_CACHE_SIZE (current k) p (lib_data k);
           k = kill_if full (k\<lparr>lib_data := d\<rparr>);
           (d, full) = wake_copy copy_both CBK_CACHE_SIZE CBK_CACHE_SIZE (current k) p (cbk_data k);
           k = kill_if full (k\<lparr>cbk_data := d\<rparr>);
           (d, full) = wake_copy copy_lbrs CBK_CACHE_SIZE SIG_CACHE_SIZE (current k) p (sig_data k);
           k = kill_if full (k\<lparr>sig_data := d\<rparr>)
       in if slot_of lbr_task NULL (lbr_cache k) = None then kill_current k
          else k\<lparr>lbr_cache := cache_save p (my_msrs k) (lbr_cache k)\<rparr>
     else k)"

text \<open>Clear the first entry of the task.\<close>

definition wl_clear :: "task \<Rightarrow> wrapper_lib_t list \<Rightarrow> wrapper_lib_t list" where
  "wl_clear old data =
    (case slot_of wl_task old data of None \<Rightarrow> data | Some i \<Rightarrow> data[i := zero_wrapper])"

definition do_deferred_exit :: "task \<Rightarrow> kernel \<Rightarrow> kernel" where
  "do_deferred_exit old k =
    (let k = k\<lparr>lib_data := wl_clear old (lib_data k)\<rparr>;
         k = k\<lparr>cbk_data := wl_clear old (cbk_data k)\<rparr>
     in k\<lparr>sig_data := wl_clear old (sig_data k)\<rparr>)"

text \<open>\<open>None\<close> is the \<open>BUG()\<close> on a failed \<open>kmalloc\<close>.\<close>

definition new_do_exit :: "bool \<Rightarrow> kernel \<Rightarrow> kernel option" where
  "new_do_exit kmalloc_ok k =
    (if supervised k (current k) then
       let k = stat (\<lambda>s. s\<lparr>st_tasks_exit := st_tasks_exit s + 1\<rparr>) k;
           k = k\<lparr>notifiers := (notifiers k)(current k := False)\<rparr>
       in if \<not> kmalloc_ok then None
          else Some (k\<lparr>exit_queue := exit_queue k @ [current k]\<rparr>)
     else Some k)"

text \<open>The worker of \<open>exit_queue\<close> takes the oldest item.\<close>

definition run_exit_queue :: "kernel \<Rightarrow> kernel" where
  "run_exit_queue k =
    (case exit_queue k of [] \<Rightarrow> k | t # ts \<Rightarrow> do_deferred_exit t (k\<lparr>exit_queue := ts\<rparr>))"

section \<open>Dangerous system calls\<close>

definition PROT_EXEC :: u64 where "PROT_EXEC = 4"

definition set_personality :: "(u32 \<Rightarrow> u32) \<Rightarrow> kernel \<Rightarrow> kernel" where
  "set_personality f k = k\<lparr>personality := (personality k)(current k := f (personality k (current k)))\<rparr>"

definition new_sys_execve :: "jit_env \<Rightarrow> kernel \<Rightarrow> kernel" where
  "new_sys_execve J k =
    (if supervised k (current k) then
       let k = stat (\<lambda>s. s\<lparr>st_execve := st_execve s + 1\<rparr>) k;
           k = validate_lbr J k
       in set_personality susp_task_lbr k
     else k)"

definition new_sys_execve_ret :: "u64 \<Rightarrow> kernel \<Rightarrow> kernel" where
  "new_sys_execve_ret ret k =
    (if issusp_task_lbr (personality k (current k)) \<and> ret \<noteq> 0
     then set_personality wakeup_task_lbr k else k)"

definition new_sys_mmap_pgoff :: "jit_env \<Rightarrow> u64 \<Rightarrow> kernel \<Rightarrow> kernel" where
  "new_sys_mmap_pgoff J prot k =
    (if supervised k (current k) then
       let k = stat (\<lambda>s. s\<lparr>st_mmap := st_mmap s + 1\<rparr>) k
       in if prot AND PROT_EXEC \<noteq> 0
          then validate_lbr J (stat (\<lambda>s. s\<lparr>st_mmap_exec := st_mmap_exec s + 1\<rparr>) k)
          else k
     else k)"

definition new_sys_mprotect :: "jit_env \<Rightarrow> u64 \<Rightarrow> kernel \<Rightarrow> kernel" where
  "new_sys_mprotect J prot k =
    (if supervised k (current k) then
       let k = stat (\<lambda>s. s\<lparr>st_mprotect := st_mprotect s + 1\<rparr>) k
       in if prot AND PROT_EXEC \<noteq> 0
          then validate_lbr J (stat (\<lambda>s. s\<lparr>st_mprotect_exec := st_mprotect_exec s + 1\<rparr>) k)
          else k
     else k)"

definition new_sys_read :: "jit_env \<Rightarrow> kernel \<Rightarrow> kernel" where
  "new_sys_read J k =
    (if supervised k (current k)
     then validate_lbr J (stat (\<lambda>s. s\<lparr>st_read := st_read s + 1\<rparr>) k) else k)"

definition new_sys_write :: "jit_env \<Rightarrow> kernel \<Rightarrow> kernel" where
  "new_sys_write J k =
    (if supervised k (current k)
     then validate_lbr J (stat (\<lambda>s. s\<lparr>st_write := st_write s + 1\<rparr>) k) else k)"

definition new_sys_rt_sigaction :: "jit_env \<Rightarrow> kernel \<Rightarrow> kernel" where
  "new_sys_rt_sigaction J k =
    (if supervised k (current k)
     then validate_lbr J (stat (\<lambda>s. s\<lparr>st_sigaction := st_sigaction s + 1\<rparr>) k) else k)"

section \<open>Forking a task\<close>

text \<open>
  What a copy has to do for the new entry to carry the stack of the old one:
  the copied contents are those of the source, and the tag is that of the
  destination.
\<close>

locale entry_copy = entry_lifo cap ok contents push pop inp out is_last
  for cap :: nat and ok :: "wrapper_lib_t \<Rightarrow> bool" and contents :: "wrapper_lib_t \<Rightarrow> 'a list"
    and push :: "wrapper_lib_t \<Rightarrow> 'i \<Rightarrow> wrapper_lib_t \<times> bool"
    and pop :: "wrapper_lib_t \<Rightarrow> 'c \<Rightarrow> wrapper_lib_t \<times> 'o \<times> bool"
    and inp :: "'i \<Rightarrow> 'a" and out :: "'o \<Rightarrow> 'a" and is_last :: "wrapper_lib_t \<Rightarrow> bool" +
  fixes copy :: "wrapper_lib_t \<Rightarrow> wrapper_lib_t \<Rightarrow> wrapper_lib_t"
  assumes copy_tag: "wl_task (copy a b) = wl_task b"
    and copy_ok: "ok a \<Longrightarrow> ok b \<Longrightarrow> ok (copy a b)"
    and copy_contents: "contents (copy a b) = contents a"
    and zero_ok: "ok zero_wrapper"
    and zero_contents: "contents zero_wrapper = []"
begin

lemma wake_copy_refines:
  assumes wf: "wf_table ok contents n data" and scan: "n \<le> scan" and t: "cur \<noteq> NULL" "p \<noteq> NULL" "p \<noteq> cur"
    and new: "slot_of wl_task p data = None" and room: "table_room data p"
  shows "\<exists>data'. wake_copy copy scan n cur p data = (data', False) \<and> wf_table ok contents n data'
    \<and> task_stack contents data' = (task_stack contents data)(p := task_stack contents data cur)"
proof (cases "slot_of wl_task cur data")
  case None
  then have "find_last_index (\<lambda>e. wl_task e = cur) data = None"
    by (simp add: find_last_index_None_iff find_index_None_iff)
  moreover have "task_stack contents data p = []" "task_stack contents data cur = []"
    using None new by (simp_all add: task_stack_def)
  moreover have "(task_stack contents data)(p := []) = task_stack contents data"
    using new by (simp add: fun_upd_idem task_stack_def)
  ultimately show ?thesis using wf scan by (auto simp: wake_copy_def wf_table_def)
next
  case (Some i)
  note si = find_index_SomeD [OF Some]
  have n: "take n data = data" "take scan data = data" using wf scan by (simp_all add: wf_table_def)
  have last: "find_last_index (\<lambda>e. wl_task e = cur) data = Some i"
    using sole_owner_slot [of wl_task data _ cur] wf Some si t(1)
    by (intro find_last_index_unique) (auto simp: wf_table_def)
  from new room obtain j where j: "slot_of wl_task NULL data = Some j" by (auto simp: table_room_def)
  note sj = find_index_SomeD [OF j]
  have ij: "i \<noteq> j" using si sj t(1) by auto
  let ?e = "copy (data ! i) ((data ! j)\<lparr>wl_task := p\<rparr>)"
  have "ok ?e" using copy_ok ok_tag table_nth [OF wf] si sj by simp
  with table_update [OF wf, of j ?e p] sj new t copy_tag copy_contents
  have "wf_table ok contents n (data[j := ?e])"
    "task_stack contents (data[j := ?e]) = (task_stack contents data)(p := contents (data ! i))"
    by auto
  moreover have "task_stack contents data cur = contents (data ! i)"
    using Some by (simp add: task_stack_def)
  ultimately show ?thesis
    using n last new j ij sj by (simp add: wake_copy_def find_cache_entry_init_eq)
qed

lemma wake_copy_wf:
  assumes wf: "wf_table ok contents n data" and n: "0 < n" "n \<le> scan" and t: "cur \<noteq> NULL" "p \<noteq> NULL"
  shows "wf_table ok contents n (fst (wake_copy copy scan n cur p data))"
proof (cases "find_last_index (\<lambda>e. wl_task e = cur) data")
  case None
  with wf n show ?thesis by (simp add: wake_copy_def wf_table_def)
next
  case (Some our)
  note so = find_last_index_SomeD [OF Some]
  have len: "length data = n" "take n data = data" "take scan data = data"
    using wf n by (simp_all add: wf_table_def)
  have upd: "wf_table ok contents n (data[i := copy a b])"
    if "i < length data" "ok a" "ok b" "wl_task b \<noteq> NULL"
      "wl_task (data ! i) = wl_task b \<or> wl_task (data ! i) = NULL \<and> slot_of wl_task (wl_task b) data = None" for i a b
    using table_update(1) [OF wf that(1) copy_ok [OF that(2,3)] that(4)] that copy_tag by simp
  have oka: "ok (data ! i)" if "i < length data" for i using table_nth(1) [OF wf that] .
  show ?thesis
  proof (cases "slot_of wl_task p data")
    case (Some i)
    with find_index_SomeD [OF Some] upd [of i "data ! our" "data ! i"] oka so \<open>find_last_index _ _ = _\<close> len t
    show ?thesis by (simp add: wake_copy_def find_cache_entry_init_eq)
  next
    case none: None
    show ?thesis
    proof (cases "slot_of wl_task NULL data")
      case (Some j)
      then have "j \<noteq> our" using find_index_SomeD [OF Some] so t(1) by auto
      with Some none find_index_SomeD [OF Some] upd [of j "data ! our" "(data ! j)\<lparr>wl_task := p\<rparr>"] oka so
        \<open>find_last_index _ _ = _\<close> len t ok_tag
      show ?thesis by (simp add: wake_copy_def find_cache_entry_init_eq)
    next
      case None
      then have "wl_task (data ! 0) \<noteq> NULL" using len n by (auto simp: find_index_None_iff)
      with None none upd [of 0 "data ! our" "data ! 0"] oka so \<open>find_last_index _ _ = _\<close> len n
      show ?thesis by (simp add: wake_copy_def find_cache_entry_init_eq)
    qed
  qed
qed

lemma clear_refines:
  assumes wf: "wf_table ok contents n data" and t: "t \<noteq> NULL"
  shows "wf_table ok contents n (wl_clear t data)"
    "task_stack contents (wl_clear t data) = (task_stack contents data)(t := [])"
    "slot_of wl_task t (wl_clear t data) = None"
proof -
  have "wf_table ok contents n (wl_clear t data)
    \<and> task_stack contents (wl_clear t data) = (task_stack contents data)(t := [])
    \<and> slot_of wl_task t (wl_clear t data) = None"
  proof (cases "slot_of wl_task t data")
    case None
    with wf show ?thesis by (simp add: wl_clear_def fun_upd_idem task_stack_def)
  next
    case (Some i)
    note si = find_index_SomeD [OF Some]
    have "slot_of wl_task t (data[i := zero_wrapper]) = None"
      using wf Some t by (intro slot_of_release) (auto simp: wf_table_def)
    with table_update [OF wf, of i zero_wrapper t] si t zero_ok zero_contents Some show ?thesis
      by (simp add: wl_clear_def)
  qed
  then show "wf_table ok contents n (wl_clear t data)"
    "task_stack contents (wl_clear t data) = (task_stack contents data)(t := [])"
    "slot_of wl_task t (wl_clear t data) = None" by blast+
qed

end

interpretation lib_copy: entry_copy STACKSIZE lib_ok lib_contents lib_push lib_pop id id one_ret copy_rets
  by unfold_locales (simp_all add: copy_rets_def lib_ok_def lib_contents_def)

interpretation sig_copy: entry_copy STACKSIZE sig_ok sig_contents sig_push sig_pop lbr_view lbr_view one_lbr copy_lbrs
  by unfold_locales (simp_all add: copy_lbrs_def sig_ok_def sig_contents_def lbr_stack_views_def)

interpretation cbk_copy: entry_copy STACKSIZE cbk_ok cbk_contents cbk_push cbk_pop cbk_obs cbk_obs one_ret copy_both
  by unfold_locales (simp_all add: copy_both_def copy_lbrs_def copy_rets_def cbk_ok_def cbk_contents_def
      lib_ok_def lib_contents_def sig_ok_def sig_contents_def lbr_stack_views_def)

lemma stat_served [simp]: "served J A (stat f k) = served J A k"
  by (simp add: served_def)

lemma sig_init_stats [simp]: "stats (sig_init h k) = stats k"
  by (simp add: sig_init_def Let_def split: prod.splits)

lemma set_personality_stats [simp]: "stats (set_personality f k) = stats k"
  by (simp add: set_personality_def)

section \<open>Properties\<close>

text \<open>
  C21: A new task inherits everything its creator has.  When a supervised task
  is created and the caches have room for it, its library, callback and signal
  stacks and its LBR are those of the current task, its preemption hook is
  installed, no other task is affected and nobody is killed.
\<close>

theorem fork_inherits:
  assumes "supervised k p" "current k \<noteq> NULL" "p \<noteq> NULL" "p \<noteq> current k"
    and wf: "wf_lib k" "wf_cbk k" "wf_sig k" "wf_lbr_cache (lbr_cache k)"
    and new: "slot_of wl_task p (lib_data k) = None" "slot_of wl_task p (cbk_data k) = None"
      "slot_of wl_task p (sig_data k) = None" "stored_view (lbr_cache k) p = None"
    and room: "table_room (lib_data k) p" "table_room (cbk_data k) p" "table_room (sig_data k) p"
      "cache_room (lbr_cache k)"
    and k': "k' = new_wake_up_new_task p k"
  shows "lib_stacks k' = (lib_stacks k)(p := lib_stacks k (current k))
    \<and> cbk_stacks k' = (cbk_stacks k)(p := cbk_stacks k (current k))
    \<and> sig_stacks k' = (sig_stacks k)(p := sig_stacks k (current k))
    \<and> stored_view (lbr_cache k') = (stored_view (lbr_cache k))(p \<mapsto> lbr_view (my_msrs k))
    \<and> notifiers k' p \<and> killed k' = killed k \<and> msrs k' = msrs k
    \<and> wf_lib k' \<and> wf_cbk k' \<and> wf_sig k' \<and> wf_lbr_cache (lbr_cache k')"
proof -
  obtain l where l: "wake_copy copy_rets LIB_CACHE_SIZE LIB_CACHE_SIZE (current k) p (lib_data k) = (l, False)"
    "wf_table lib_ok lib_contents LIB_CACHE_SIZE l"
    "task_stack lib_contents l = (lib_stacks k)(p := lib_stacks k (current k))"
    using lib_copy.wake_copy_refines [OF wf(1) order_refl assms(2-4) new(1) room(1)] by blast
  obtain c where c: "wake_copy copy_both CBK_CACHE_SIZE CBK_CACHE_SIZE (current k) p (cbk_data k) = (c, False)"
    "wf_table cbk_ok cbk_contents CBK_CACHE_SIZE c"
    "task_stack cbk_contents c = (cbk_stacks k)(p := cbk_stacks k (current k))"
    using cbk_copy.wake_copy_refines [OF wf(2) order_refl assms(2-4) new(2) room(2)] by blast
  obtain g where g: "wake_copy copy_lbrs CBK_CACHE_SIZE SIG_CACHE_SIZE (current k) p (sig_data k) = (g, False)"
    "wf_table sig_ok sig_contents SIG_CACHE_SIZE g"
    "task_stack sig_contents g = (sig_stacks k)(p := sig_stacks k (current k))"
    using sig_copy.wake_copy_refines [OF wf(3) _ assms(2-4) new(3) room(3), of CBK_CACHE_SIZE]
    by (auto simp: SIG_CACHE_SIZE_def CBK_CACHE_SIZE_def)
  have "slot_of lbr_task NULL (lbr_cache k) \<noteq> None" using room(4) by (simp add: cache_room_def)
  with l c g lbr_store.save_law [OF wf(4) room(4) assms(3) new(4), of "my_msrs k"] assms(1) k'
  show ?thesis by (simp add: new_wake_up_new_task_def Let_def)
qed

text \<open>A supervised task 7 with one library call creates the task 8.\<close>

definition fork_demo :: kernel where
  "fork_demo = lib_init 0x40 (boot_kernel\<lparr>current := 7, personality := (\<lambda>_. TASK_LBR)\<rparr>)"

lemma fork_demo_lib:
  "wf_lib fork_demo" "lib_stacks fork_demo 7 = [0x40]" "current fork_demo = 7"
  "slot_of wl_task 8 (lib_data fork_demo) = None" "table_room (lib_data fork_demo) 8"
proof -
  let ?k = "boot_kernel\<lparr>current := 7, personality := (\<lambda>_. TASK_LBR)\<rparr>"
  have k: "wf_lib ?k" "current ?k \<noteq> NULL" "table_room (lib_data ?k) (current ?k)"
    "length (lib_stacks ?k (current ?k)) < STACKSIZE"
    by (simp_all add: boot_tables LIB_CACHE_SIZE_def STACKSIZE_def)
  from lib_init_refines [OF k, of "0x40"] show wf: "wf_lib fork_demo" and "lib_stacks fork_demo 7 = [0x40]"
    "current fork_demo = 7" by (simp_all add: fork_demo_def)
  obtain d where d: "wl_enter lib_push LIB_CACHE_SIZE 7 0x40 (lib_data ?k) = (d, False, False)"
    using lib_entry.enter_refines [OF k, of "0x40"] by auto
  then have ld: "lib_data fork_demo = d" by (simp add: fork_demo_def lib_init_def)
  have own: "wl_task ` set d \<subseteq> {7, NULL}"
    using lib_entry.enter_owners [OF k(1) d] k(3) by (auto simp: image_subset_iff)
  then show "slot_of wl_task 8 (lib_data fork_demo) = None"
    by (auto simp: ld find_index_None_iff)
  show "table_room (lib_data fork_demo) 8"
    using lib_entry.room_if_few [OF wf, of "{7, 8}" 8] own by (auto simp: ld LIB_CACHE_SIZE_def)
qed

lemma fork_demo_rest:
  "wf_cbk fork_demo" "wf_sig fork_demo" "wf_lbr_cache (lbr_cache fork_demo)"
  "slot_of wl_task 8 (cbk_data fork_demo) = None" "slot_of wl_task 8 (sig_data fork_demo) = None"
  "stored_view (lbr_cache fork_demo) 8 = None" "table_room (cbk_data fork_demo) 8"
  "table_room (sig_data fork_demo) 8" "cache_room (lbr_cache fork_demo)" "supervised fork_demo 8"
  "killed fork_demo = {}"
proof -
  have "killed fork_demo = {}"
    using lib_init_refines(1) [of "boot_kernel\<lparr>current := 7, personality := (\<lambda>_. TASK_LBR)\<rparr>" "0x40"]
    by (simp add: fork_demo_def boot_tables LIB_CACHE_SIZE_def STACKSIZE_def)
  then show "wf_cbk fork_demo" "wf_sig fork_demo" "wf_lbr_cache (lbr_cache fork_demo)"
    "slot_of wl_task 8 (cbk_data fork_demo) = None" "slot_of wl_task 8 (sig_data fork_demo) = None"
    "stored_view (lbr_cache fork_demo) 8 = None" "table_room (cbk_data fork_demo) 8"
    "table_room (sig_data fork_demo) 8" "cache_room (lbr_cache fork_demo)" "supervised fork_demo 8"
    "killed fork_demo = {}"
    by (simp_all add: fork_demo_def lib_init_def boot_tables wf_lbr_cache_init cache_room_init
        find_index_None_iff CBK_CACHE_SIZE_def SIG_CACHE_SIZE_def tst_task_lbr_iff split_beta)
qed

theorem fork_inherits_witness:
  "lib_stacks (new_wake_up_new_task 8 fork_demo) 8 = [0x40]
    \<and> killed (new_wake_up_new_task 8 fork_demo) = {}"
  using fork_inherits [OF fork_demo_rest(10) _ _ _ fork_demo_lib(1) fork_demo_rest(1-3) fork_demo_lib(4)
      fork_demo_rest(4-6) fork_demo_lib(5) fork_demo_rest(7-9) refl] fork_demo_lib fork_demo_rest(11)
  by simp

text \<open>
  C20: An exiting task leaves nothing behind.  After \<open>do_exit\<close> of a supervised task
  and the deferred work, no cache has an entry for it, its preemption hook is
  gone, and the stacks of all other tasks are as before.
\<close>

theorem exit_cleans_up:
  assumes "supervised k (current k)" "current k \<noteq> NULL" "wf_lib k" "wf_cbk k" "wf_sig k" "exit_queue k = []"
  shows "\<exists>k1. new_do_exit True k = Some k1 \<and> (let k' = run_exit_queue k1 in
      slot_of wl_task (current k) (lib_data k') = None \<and> slot_of wl_task (current k) (cbk_data k') = None
    \<and> slot_of wl_task (current k) (sig_data k') = None \<and> \<not> notifiers k' (current k)
    \<and> lib_stacks k' = (lib_stacks k)(current k := []) \<and> cbk_stacks k' = (cbk_stacks k)(current k := [])
    \<and> sig_stacks k' = (sig_stacks k)(current k := []) \<and> wf_lib k' \<and> wf_cbk k' \<and> wf_sig k')"
  using assms lib_copy.clear_refines [OF assms(3,2)] cbk_copy.clear_refines [OF assms(4,2)]
    sig_copy.clear_refines [OF assms(5,2)]
  by (simp add: new_do_exit_def run_exit_queue_def do_deferred_exit_def)

theorem exit_cleans_up_witness:
  "\<exists>k1. new_do_exit True fork_demo = Some k1 \<and> lib_stacks fork_demo 7 = [0x40]
    \<and> lib_stacks (run_exit_queue k1) 7 = [] \<and> slot_of wl_task 7 (lib_data (run_exit_queue k1)) = None"
proof -
  have "supervised fork_demo 7" "exit_queue fork_demo = []"
    by (simp_all add: fork_demo_def lib_init_def tst_task_lbr_iff split_beta)
  then show ?thesis
    using exit_cleans_up [of fork_demo] fork_demo_lib fork_demo_rest(1,2) by (auto simp: Let_def)
qed

text \<open>
  A failed \<open>execve\<close> leaves the supervision of the task as it was; a successful
  one ends it: the new image runs unsupervised, and no later hook acts on it.
\<close>

theorem execve_suspends_supervision:
  assumes "served J A k" "supervised k (current k)" "\<not> issusp_task_lbr (personality k (current k))"
  shows "personality (new_sys_execve_ret ret (new_sys_execve J k)) =
      (if ret = 0 then (personality k)(current k := susp_task_lbr (personality k (current k)))
       else personality k)
    \<and> (ret = 0 \<longrightarrow> \<not> supervised (new_sys_execve_ret ret (new_sys_execve J k)) (current k))"
proof -
  let ?p = "personality k (current k)"
  define k1 where "k1 = validate_lbr J (stat (\<lambda>s. s\<lparr>st_execve := st_execve s + 1\<rparr>) k)"
  have k1: "personality k1 = personality k" "current k1 = current k"
    using validate_served_frame [of J A] assms(1) by (simp_all add: k1_def)
  have ex: "new_sys_execve J k = set_personality susp_task_lbr k1"
    using assms(2) by (simp add: new_sys_execve_def k1_def)
  show ?thesis
  proof (cases "ret = 0")
    case True
    then show ?thesis by (simp add: new_sys_execve_ret_def ex set_personality_def k1)
  next
    case False
    then have "new_sys_execve_ret ret (new_sys_execve J k) =
        set_personality wakeup_task_lbr (set_personality susp_task_lbr k1)"
      by (simp add: new_sys_execve_ret_def ex set_personality_def k1)
    moreover have "wakeup_task_lbr (susp_task_lbr ?p) = ?p" by (rule wakeup_susp_id [OF assms(2,3)])
    ultimately show ?thesis using False by (simp add: set_personality_def k1)
  qed
qed

theorem execve_suspends_supervision_witness:
  "let k = boot_kernel\<lparr>current := 7, personality := (\<lambda>_. TASK_LBR)\<rparr>
   in personality (new_sys_execve_ret 1 (new_sys_execve (demo_env (\<lambda>_. 1)) k)) 7 = TASK_LBR
      \<and> personality (new_sys_execve_ret 0 (new_sys_execve (demo_env (\<lambda>_. 1)) k)) 7 = SUSP_LBR"
proof -
  let ?k = "boot_kernel\<lparr>current := 7, personality := (\<lambda>_. TASK_LBR)\<rparr>"
  have "served (demo_env (\<lambda>_. 1)) (\<lambda>_. 1) ?k" by (simp add: served_def demo_env_def)
  moreover have "susp_task_lbr TASK_LBR = SUSP_LBR" by (simp add: susp_task_lbr_def)
  ultimately show ?thesis
    using execve_suspends_supervision [of "demo_env (\<lambda>_. 1)" "\<lambda>_. 1" ?k]
    by (simp add: tst_task_lbr_iff issusp_task_lbr_iff)
qed



end
