(* ===== verification/Lbr_Paths.thy ===== *)
theory Lbr_Paths
  imports Lbr_Msr
begin

text \<open>
  The structures and helpers that the kernel module, the analyzer and the loader
  share (\<open>src/include/patharmor/lbr-state.h\<close>): the tagged addresses of state
  files, the valid paths, their relocation at load time, and their
  serialisation into one region of memory.
\<close>

section \<open>Constants and structures\<close>

definition WINDOW_SIZE :: nat where "WINDOW_SIZE = 16"

definition CEIL_DIV :: "nat \<Rightarrow> nat \<Rightarrow> nat" where "CEIL_DIV x y = (x + y - 1) div y"

definition NR_HASHES :: nat where
  "NR_HASHES = 1 + CEIL_DIV (LBR_ENTRIES - WINDOW_SIZE) (WINDOW_SIZE - 1)"

definition LIB_FLAG :: u64 where "LIB_FLAG = push_bit 63 1"
definition TARG_FLAG :: u64 where "TARG_FLAG = push_bit 62 1"
definition MAIN_FLAG :: u64 where "MAIN_FLAG = push_bit 61 1"

definition ADDR_BITS :: nat where "ADDR_BITS = 48"
definition INDX_BITS :: nat where "INDX_BITS = 13"

definition TO_ADDR :: "u64 \<Rightarrow> u64" where
  "TO_ADDR addr = drop_bit (64 - ADDR_BITS) (push_bit (64 - ADDR_BITS) addr)"

definition TO_INDX :: "u64 \<Rightarrow> u64" where
  "TO_INDX addr = drop_bit (64 - INDX_BITS) (push_bit (64 - ADDR_BITS - INDX_BITS) addr)"

definition SET_INDX :: "u64 \<Rightarrow> u64 \<Rightarrow> u64" where
  "SET_INDX addr indx = addr OR push_bit ADDR_BITS indx"

definition ADDRESS_TAKEN :: u64 where "ADDRESS_TAKEN = 0xc477b4c8"

definition MAX_LIBS :: nat where "MAX_LIBS = 32"
definition MAX_LIBNAME_LENGTH :: nat where "MAX_LIBNAME_LENGTH = 128"
definition MAX_FNAME_LENGTH :: nat where "MAX_FNAME_LENGTH = 16"

record lbr_function =
  fptr :: u64
  fname :: string

record lbr_valid_state =
  vs_from :: "u64 list"
  vs_to :: "u64 list"
  vs_hash :: "u8 list"

record lbr_valid_state_map =
  vm_to :: u64
  vm_state :: "lbr_valid_state list"

record lbr_paths =
  lp_func :: "lbr_function list"
  lp_address_taken :: "u64 list"
  lp_state_map :: "lbr_valid_state_map list"

record lib_index =
  li_index :: u32
  li_libname :: string
  li_base :: u64

record wrapper_addresses =
  wa_libc_base :: u64
  wa_load_from :: u64
  wa_orig_main :: u64
  wa_armor_lib_enter :: u64
  wa_armor_lib_return :: u64
  wa_armor_cbk_enter :: u64
  wa_armor_cbk_return :: u64
  wa_armor_cbk_target_call :: u64
  wa_armor_cbk_target_return :: u64
  wa_pthread_create_offset :: u64
  wa_pthread_create :: u64
  wa_pthread_create_return :: u64

record offsets_t =
  o_name :: "string list"
  o_start :: "u64 list"
  o_end :: "u64 list"
  o_libs :: u64
  o_indirect_call_source :: u64
  o_load_from :: u64
  o_armor_lib_enter :: u64
  o_armor_lib_return :: u64
  o_pthread_create :: u64
  o_pthread_create_return :: u64

section \<open>Relocating the valid paths\<close>

text \<open>A loop over an array that rewrites its elements and carries a variable along.\<close>

fun map_thread :: "('a \<Rightarrow> 's \<Rightarrow> 'b \<times> 's) \<Rightarrow> 'a list \<Rightarrow> 's \<Rightarrow> 'b list \<times> 's" where
  "map_thread f [] s = ([], s)"
| "map_thread f (x # xs) s = (let (y, s) = f x s; (ys, s) = map_thread f xs s in (y # ys, s))"

definition vs_entries :: "lbr_valid_state \<Rightarrow> (u64 \<times> u64) list" where
  "vs_entries v = zip (vs_from v) (vs_to v)"

definition set_vs_entries :: "(u64 \<times> u64) list \<Rightarrow> lbr_valid_state \<Rightarrow> lbr_valid_state" where
  "set_vs_entries es v = v\<lparr>vs_from := map fst es, vs_to := map snd es\<rparr>"

text \<open>\<open>hash_paths\<close>: the words a digest is computed from, for a digest function \<open>md4\<close>.\<close>

definition hash_state :: "(u64 list \<Rightarrow> u8 list) \<Rightarrow> lbr_valid_state \<Rightarrow> lbr_valid_state" where
  "hash_state md4 v = v\<lparr>vs_hash := md4 (concat (map (\<lambda>(f, t). [f, t]) (vs_entries v)))\<rparr>"

definition hash_paths :: "(u64 list \<Rightarrow> u8 list) \<Rightarrow> lbr_paths \<Rightarrow> lbr_paths" where
  "hash_paths md4 P = P\<lparr>lp_state_map := map (\<lambda>m. m\<lparr>vm_state := map (hash_state md4) (vm_state m)\<rparr>) (lp_state_map P)\<rparr>"

text \<open>First round: find the entries from 0 to \<open>main\<close>, and with them the load offset.\<close>

definition update_main :: "wrapper_addresses \<Rightarrow> u64 \<times> u64 \<Rightarrow> u64 \<Rightarrow> (u64 \<times> u64) \<times> u64" where
  "update_main A e offset =
    (if fst e = 0 \<and> snd e AND MAIN_FLAG \<noteq> 0 then
       let static_main = TO_ADDR (snd e)
       in ((wa_load_from A, snd e),
           if static_main \<noteq> wa_orig_main A then wa_orig_main A - static_main else offset)
     else (e, offset))"

definition update_main_state :: "wrapper_addresses \<Rightarrow> lbr_valid_state \<Rightarrow> u64 \<Rightarrow> lbr_valid_state \<times> u64" where
  "update_main_state A v offset =
    (let (es, offset) = map_thread (update_main A) (vs_entries v) offset in (set_vs_entries es v, offset))"

definition update_main_map :: "wrapper_addresses \<Rightarrow> lbr_valid_state_map \<Rightarrow> u64 \<Rightarrow> lbr_valid_state_map \<times> u64" where
  "update_main_map A m offset =
    (let (vs, offset) = map_thread (update_main_state A) (vm_state m) offset in (m\<lparr>vm_state := vs\<rparr>, offset))"

definition update_round1 :: "wrapper_addresses \<Rightarrow> lbr_paths \<Rightarrow> lbr_paths \<times> u64" where
  "update_round1 A P =
    (let (ms, offset) = map_thread (update_main_map A) (lp_state_map P) 0 in (P\<lparr>lp_state_map := ms\<rparr>, offset))"

text \<open>
  The table of library bases.  The loop stops at index 0 and checks neither the
  end of \<open>libindex\<close> nor the size of \<open>base\<close>: \<open>None\<close> is an access outside an array.
\<close>

fun update_bases :: "lib_index list \<Rightarrow> u64 list \<Rightarrow> u64 list option" where
  "update_bases [] base = None"
| "update_bases (l # ls) base =
    (if li_index l = 0 then Some (base[0 := 0])
     else if unat (li_index l) < MAX_LIBS then update_bases ls (base[unat (li_index l) := li_base l])
     else None)"

definition base_of :: "u64 list \<Rightarrow> u64 \<Rightarrow> u64 option" where
  "base_of base x = (if unat (TO_INDX x) < MAX_LIBS then Some (base ! unat (TO_INDX x)) else None)"

definition add_offset :: "u64 \<Rightarrow> u64 \<Rightarrow> u64" where
  "add_offset offset x = (if x AND TARG_FLAG \<noteq> 0 then x + offset else x)"

definition add_base :: "u64 list \<Rightarrow> u64 \<Rightarrow> u64 option" where
  "add_base base x = map_option (\<lambda>b. x + b) (base_of base x)"

text \<open>Second round, one source and one destination of a branch.\<close>

definition update_from :: "wrapper_addresses \<Rightarrow> u64 \<Rightarrow> u64 \<Rightarrow> u64" where
  "update_from A offset x =
    (let x = add_offset offset x;
         x = (if TO_ADDR x = ADDRESS_TAKEN then wa_armor_cbk_target_call A else x)
     in if x AND LIB_FLAG \<noteq> 0
        then if TO_ADDR x = wa_pthread_create_offset A then wa_pthread_create_return A else wa_armor_lib_return A
        else x)"

definition update_to :: "wrapper_addresses \<Rightarrow> u64 list \<Rightarrow> u64 \<Rightarrow> u64 \<Rightarrow> u64 option" where
  "update_to A base offset x =
    (let x = add_offset offset x
     in if TO_ADDR x = wa_pthread_create_offset A then Some (wa_pthread_create A) else add_base base x)"

definition update_state :: "wrapper_addresses \<Rightarrow> u64 list \<Rightarrow> u64 \<Rightarrow> lbr_valid_state \<Rightarrow> lbr_valid_state option" where
  "update_state A base offset v =
    map_option (\<lambda>ts. set_vs_entries (zip (map (update_from A offset) (vs_from v)) ts) v)
      (those (map (update_to A base offset) (vs_to v)))"

definition update_map ::
  "wrapper_addresses \<Rightarrow> u64 list \<Rightarrow> u64 \<Rightarrow> lbr_valid_state_map \<Rightarrow> lbr_valid_state_map option" where
  "update_map A base offset m =
    (case (add_base base (add_offset offset (vm_to m)), those (map (update_state A base offset) (vm_state m))) of
       (Some t, Some vs) \<Rightarrow> Some (m\<lparr>vm_to := t, vm_state := vs\<rparr>)
     | _ \<Rightarrow> None)"

definition update_func :: "u64 list \<Rightarrow> u64 \<Rightarrow> lbr_function \<Rightarrow> lbr_function option" where
  "update_func base offset f = map_option (\<lambda>p. f\<lparr>fptr := p\<rparr>) (add_base base (add_offset offset (fptr f)))"

definition update_round2 :: "wrapper_addresses \<Rightarrow> u64 list \<Rightarrow> u64 \<Rightarrow> lbr_paths \<Rightarrow> lbr_paths option" where
  "update_round2 A base offset P =
    (case (those (map (update_map A base offset) (lp_state_map P)), those (map (update_func base offset) (lp_func P))) of
       (Some ms, Some fs) \<Rightarrow> Some (P\<lparr>lp_state_map := ms, lp_func := fs\<rparr>)
     | _ \<Rightarrow> None)"

text \<open>Third round: strip the tags.\<close>

definition strip_state :: "lbr_valid_state \<Rightarrow> lbr_valid_state" where
  "strip_state v = v\<lparr>vs_from := map TO_ADDR (vs_from v), vs_to := map TO_ADDR (vs_to v)\<rparr>"

definition update_round3 :: "lbr_paths \<Rightarrow> lbr_paths" where
  "update_round3 P =
    P\<lparr>lp_state_map := map (\<lambda>m. m\<lparr>vm_to := TO_ADDR (vm_to m), vm_state := map strip_state (vm_state m)\<rparr>) (lp_state_map P),
      lp_func := map (\<lambda>f. f\<lparr>fptr := TO_ADDR (fptr f)\<rparr>) (lp_func P)\<rparr>"

definition update_paths ::
  "(u64 list \<Rightarrow> u8 list) \<Rightarrow> wrapper_addresses \<Rightarrow> lib_index list \<Rightarrow> lbr_paths \<Rightarrow> lbr_paths option" where
  "update_paths md4 A libindex P =
    (let (P, offset) = update_round1 A P
     in case update_bases libindex (replicate MAX_LIBS 0) of
          None \<Rightarrow> None
        | Some base \<Rightarrow> map_option (\<lambda>P. hash_paths md4 (update_round3 P)) (update_round2 A base offset P))"

section \<open>Tagged addresses\<close>

lemma tag_bits:
  "bit LIB_FLAG n \<longleftrightarrow> n = 63" "bit TARG_FLAG n \<longleftrightarrow> n = 62" "bit MAIN_FLAG n \<longleftrightarrow> n = 61"
  unfolding LIB_FLAG_def TARG_FLAG_def MAIN_FLAG_def bit_push_bit_iff bit_1_iff by auto

lemma bit_TO_ADDR: "bit (TO_ADDR x) n \<longleftrightarrow> n < 48 \<and> bit x n"
  by (auto simp: TO_ADDR_def ADDR_BITS_def bit_drop_bit_eq bit_push_bit_iff)

lemma bit_TO_INDX: "bit (TO_INDX x) n \<longleftrightarrow> n < 13 \<and> bit x (n + 48)"
  by (auto simp: TO_INDX_def ADDR_BITS_def INDX_BITS_def bit_drop_bit_eq bit_push_bit_iff add.commute)

lemma bit_SET_INDX: "bit (SET_INDX x i) n \<longleftrightarrow> bit x n \<or> 48 \<le> n \<and> n < 64 \<and> bit i (n - 48)"
  by (auto simp: SET_INDX_def ADDR_BITS_def bit_or_iff bit_push_bit_iff)

lemma take_bit_small:
  fixes x :: u64
  assumes "x < 2 ^ m" "m < 64"
  shows "take_bit m x = x"
proof (rule word_unat_eq_iff [THEN iffD2])
  have "unat (word_of_nat (2 ^ m) :: u64) = 2 ^ m"
    unfolding unsigned_of_nat using assms(2) by (simp add: take_bit_nat_eq_self_iff del: of_nat_power)
  then have "unat (2 ^ m :: u64) = 2 ^ m" by simp
  then have "unat x < 2 ^ m" using assms(1) by (metis word_less_nat_alt)
  then show "unat (take_bit m x) = unat x" by (simp add: unsigned_take_bit_eq take_bit_nat_eq_self_iff)
qed

lemma bit_above: "(x :: u64) < 2 ^ m \<Longrightarrow> m < 64 \<Longrightarrow> bit x n \<Longrightarrow> n < m"
  by (metis bit_take_bit_iff take_bit_small)

lemmas tag_simps = tag_bits bit_TO_ADDR bit_TO_INDX bit_SET_INDX bit_or_iff bit_and_iff

lemma TO_ADDR_mod: "TO_ADDR x = take_bit 48 x"
  by (rule bit_word_eqI) (auto simp: bit_TO_ADDR bit_take_bit_iff)

lemma TO_ADDR_small: "x < 2 ^ 48 \<Longrightarrow> TO_ADDR x = x"
  by (simp add: TO_ADDR_mod take_bit_small)

lemma flags_distinct [simp]:
  "LIB_FLAG \<noteq> 0" "TARG_FLAG \<noteq> 0" "0 \<noteq> LIB_FLAG" "0 \<noteq> TARG_FLAG" "TARG_FLAG OR MAIN_FLAG \<noteq> 0" "0 \<noteq> TARG_FLAG OR MAIN_FLAG"
  "LIB_FLAG \<noteq> TARG_FLAG" "TARG_FLAG \<noteq> LIB_FLAG" "LIB_FLAG \<noteq> TARG_FLAG OR MAIN_FLAG" "TARG_FLAG OR MAIN_FLAG \<noteq> LIB_FLAG"
  "TARG_FLAG \<noteq> TARG_FLAG OR MAIN_FLAG" "TARG_FLAG OR MAIN_FLAG \<noteq> TARG_FLAG"
  by (simp_all add: LIB_FLAG_def TARG_FLAG_def MAIN_FLAG_def)

lemma and_single_eq_0:
  fixes x w :: u64
  assumes "\<And>n. bit w n \<longleftrightarrow> n = k"
  shows "x AND w = 0 \<longleftrightarrow> \<not> bit x k"
proof
  assume "x AND w = 0"
  then have "\<not> bit (x AND w) k" by simp
  then show "\<not> bit x k" by (simp add: bit_and_iff assms)
next
  assume "\<not> bit x k"
  then show "x AND w = 0" by (auto intro: bit_word_eqI simp: bit_and_iff assms)
qed

lemma and_flag_iff:
  "x AND LIB_FLAG = 0 \<longleftrightarrow> \<not> bit x 63" "x AND TARG_FLAG = 0 \<longleftrightarrow> \<not> bit x 62" "x AND MAIN_FLAG = 0 \<longleftrightarrow> \<not> bit x 61"
  by (rule and_single_eq_0, rule tag_bits)+

text \<open>
  Tagging is lossless.  An address below 2^48 with a library index below 2^13
  and any combination of the three flags gives back the address and the index,
  and the flags can be read off independently of both.
\<close>

theorem tagged_address_roundtrip:
  assumes "a < 2 ^ 48" "i < 2 ^ 13" "flags = 0 \<or> flags = LIB_FLAG \<or> flags = TARG_FLAG \<or> flags = TARG_FLAG OR MAIN_FLAG"
  shows "TO_ADDR (SET_INDX a i OR flags) = a \<and> TO_INDX (SET_INDX a i OR flags) = i
    \<and> ((SET_INDX a i OR flags) AND LIB_FLAG \<noteq> 0) = (flags = LIB_FLAG)
    \<and> ((SET_INDX a i OR flags) AND TARG_FLAG \<noteq> 0) = (flags = TARG_FLAG \<or> flags = TARG_FLAG OR MAIN_FLAG)
    \<and> ((SET_INDX a i OR flags) AND MAIN_FLAG \<noteq> 0) = (flags = TARG_FLAG OR MAIN_FLAG)"
proof -
  let ?x = "SET_INDX a i OR flags"
  have fl: "\<not> bit flags n" if "n < 61" for n using assms(3) that by (auto simp: tag_simps)
  have hi: "n < 48" if "bit a n" for n using bit_above [OF assms(1) _ that] by simp
  have hi': "n < 13" if "bit i n" for n using bit_above [OF assms(2) _ that] by simp
  have "bit (TO_ADDR ?x) n = bit a n" for n
    by (cases "n < 48") (simp_all add: tag_simps fl, use hi in blast)
  then have "TO_ADDR ?x = a" by (simp add: bit_word_eqI)
  moreover have "bit (TO_INDX ?x) n = bit i n" for n
    using hi [of "n + 48"] hi' [of n] by (cases "n < 13") (auto simp: tag_simps fl)
  then have "TO_INDX ?x = i" by (simp add: bit_word_eqI)
  moreover have b: "bit ?x n = bit flags n" if "61 \<le> n" for n
    using that hi [of n] hi' [of "n - 48"] by (cases "bit i (n - 48)") (auto simp: tag_simps)
  moreover have "bit flags 63 = (flags = LIB_FLAG)" "bit flags 62 = (flags = TARG_FLAG \<or> flags = TARG_FLAG OR MAIN_FLAG)"
    "bit flags 61 = (flags = TARG_FLAG OR MAIN_FLAG)"
    using assms(3) by (elim disjE; simp add: tag_simps flags_distinct)+
  ultimately show ?thesis by (simp add: and_flag_iff)
qed

theorem tagged_address_roundtrip_witness:
  "TO_ADDR (SET_INDX 0xc2170 6 OR LIB_FLAG) = 0xc2170 \<and> TO_INDX (SET_INDX 0xc2170 6 OR LIB_FLAG) = 6"
  using tagged_address_roundtrip [of "0xc2170" 6 LIB_FLAG] by simp

section \<open>Properties of relocation\<close>

lemma those_map_nth:
  "those (map f xs) = Some ys \<Longrightarrow> length ys = length xs \<and> (\<forall>k < length xs. f (xs ! k) = Some (ys ! k))"
proof (induction xs arbitrary: ys)
  case (Cons x xs)
  then obtain y zs where "f x = Some y" "those (map f xs) = Some zs" "ys = y # zs"
    by (auto split: option.splits)
  with Cons.IH show ?case by (auto simp: nth_Cons split: nat.split)
qed simp

lemma fst_map_thread: "(\<And>x s. fst (f x s) = g x) \<Longrightarrow> fst (map_thread f xs s) = map g xs"
  by (induction xs arbitrary: s) (simp_all add: split_beta Let_def)

text \<open>
  A step that keeps two conditions on the carried variable; a loop of such steps
  keeps them, and one step that leads from the first to the second is enough for
  the whole loop to do so.
\<close>

definition settles :: "('s \<Rightarrow> bool) \<Rightarrow> ('s \<Rightarrow> bool) \<Rightarrow> ('s \<Rightarrow> 's) \<Rightarrow> bool" where
  "settles I J g \<longleftrightarrow> (\<forall>s. (I s \<longrightarrow> I (g s)) \<and> (J s \<longrightarrow> J (g s)))"

lemma settles_map_thread:
  "(\<And>x. x \<in> set xs \<Longrightarrow> settles I J (\<lambda>s. snd (f x s))) \<Longrightarrow> settles I J (\<lambda>s. snd (map_thread f xs s))"
proof (induction xs)
  case (Cons x xs)
  then have "settles I J (\<lambda>s. snd (f x s))" "settles I J (\<lambda>s. snd (map_thread f xs s))" by simp_all
  then show ?case by (simp add: settles_def split_beta Let_def)
qed (simp add: settles_def)

lemma map_thread_reaches:
  assumes "x \<in> set xs" "\<And>s. I s \<Longrightarrow> J (snd (f x s))" "\<And>x. x \<in> set xs \<Longrightarrow> settles I J (\<lambda>s. snd (f x s))"
  shows "I s \<Longrightarrow> J (snd (map_thread f xs s))"
  using assms
proof (induction xs arbitrary: s)
  case (Cons y xs)
  have y: "settles I J (\<lambda>s. snd (f y s))" using Cons.prems(4) by simp
  have xs: "settles I J (\<lambda>s. snd (map_thread f xs s))" using Cons.prems(4) by (intro settles_map_thread) simp
  show ?case
  proof (cases "x = y")
    case True
    then have "J (snd (f y s))" using Cons.prems(1,3) by simp
    then show ?thesis using xs by (simp add: settles_def split_beta Let_def)
  next
    case False
    then have "J (snd (map_thread f xs (snd (f y s))))"
      using y Cons.prems by (intro Cons.IH) (auto simp: settles_def)
    then show ?thesis by (simp add: split_beta Let_def)
  qed
qed simp

text \<open>An entry of a state file that stands for the loader's call of \<open>main\<close>.\<close>

definition main_entry :: "u64 \<times> u64 \<Rightarrow> bool" where
  "main_entry e \<longleftrightarrow> fst e = 0 \<and> snd e AND MAIN_FLAG \<noteq> 0"

definition all_entries :: "lbr_paths \<Rightarrow> (u64 \<times> u64) set" where
  "all_entries P = (\<Union>m \<in> set (lp_state_map P). \<Union>v \<in> set (vm_state m). set (vs_entries v))"

lemma update_main_settles:
  fixes A sm
  defines "d \<equiv> wa_orig_main A - sm"
  assumes "main_entry e \<Longrightarrow> TO_ADDR (snd e) = sm"
  shows "settles (\<lambda>off. off = 0 \<or> off = d) (\<lambda>off. off = d) (\<lambda>off. snd (update_main A e off))"
    and "main_entry e \<Longrightarrow> off = 0 \<or> off = d \<Longrightarrow> snd (update_main A e off) = d"
  using assms by (auto simp: settles_def update_main_def main_entry_def Let_def)

lemma round1_offset:
  assumes same: "\<forall>e \<in> all_entries P. main_entry e \<longrightarrow> TO_ADDR (snd e) = sm"
    and ex: "e \<in> all_entries P" "main_entry e"
  shows "snd (update_round1 A P) = wa_orig_main A - sm"
proof -
  let ?I = "\<lambda>off. off = 0 \<or> off = wa_orig_main A - sm" and ?J = "\<lambda>off. off = wa_orig_main A - sm"
  obtain m v where mv: "m \<in> set (lp_state_map P)" "v \<in> set (vm_state m)" "e \<in> set (vs_entries v)"
    using ex(1) unfolding all_entries_def by blast
  have entry: "settles ?I ?J (\<lambda>off. snd (update_main A e' off))" if "e' \<in> all_entries P" for e'
    using update_main_settles(1) [of e' sm A] same that by blast
  have state: "settles ?I ?J (\<lambda>off. snd (update_main_state A v' off))"
    if "m' \<in> set (lp_state_map P)" "v' \<in> set (vm_state m')" for m' v'
    using settles_map_thread [of "vs_entries v'" ?I ?J "update_main A"] entry that
    unfolding all_entries_def update_main_state_def by (simp add: split_beta Let_def) blast
  have smap: "settles ?I ?J (\<lambda>off. snd (update_main_map A m' off))" if "m' \<in> set (lp_state_map P)" for m'
    using settles_map_thread [of "vm_state m'" ?I ?J "update_main_state A"] state [OF that]
    by (simp add: update_main_map_def split_beta Let_def)
  have "?J (snd (update_main A e off))" if "?I off" for off
    using update_main_settles(2) [where e = e and sm = sm and A = A] same ex that by blast
  moreover have "e' \<in> all_entries P" if "e' \<in> set (vs_entries v)" for e'
    using mv that unfolding all_entries_def by blast
  ultimately have "?J (snd (map_thread (update_main A) (vs_entries v) off))" if "?I off" for off
    using entry by (intro map_thread_reaches [where I = ?I and J = ?J and f = "update_main A", OF mv(3) _ _ that]) blast+
  then have stv: "?J (snd (update_main_state A v off))" if "?I off" for off
    using that by (simp add: update_main_state_def split_beta Let_def)
  have "?J (snd (map_thread (update_main_state A) (vm_state m) off))" if "?I off" for off
    by (rule map_thread_reaches [where I = ?I and J = ?J and f = "update_main_state A", OF mv(2) stv state [OF mv(1)] that])
  then have smv: "?J (snd (update_main_map A m off))" if "?I off" for off
    using that by (simp add: update_main_map_def split_beta Let_def)
  have "?J (snd (map_thread (update_main_map A) (lp_state_map P) 0))"
    by (rule map_thread_reaches [where I = ?I and J = ?J and f = "update_main_map A", OF mv(1) smv smap]) simp_all
  then show ?thesis by (simp add: update_round1_def split_beta Let_def)
qed

lemma tag_add:
  fixes a d hi :: u64
  assumes "a < 2 ^ 48" "a + d < 2 ^ 48" "\<And>n. bit hi n \<Longrightarrow> 48 \<le> n"
  shows "(a OR hi) + d = (a + d) OR hi"
proof -
  have "x + hi = x OR hi" if "x < 2 ^ 48" for x
    using assms(3) bit_above [OF that] by (intro disjunctive_add) (auto simp: not_less [symmetric])
  from this [OF assms(1)] this [OF assms(2)] show ?thesis by (metis add.commute add.left_commute)
qed

lemma tag_parts:
  assumes "a < 2 ^ 48" "\<And>n. bit hi n \<Longrightarrow> 48 \<le> n"
  shows "TO_ADDR (a OR hi) = a" "\<And>n. 48 \<le> n \<Longrightarrow> bit (a OR hi) n = bit hi n"
proof -
  have "bit (TO_ADDR (a OR hi)) n = bit a n" for n
    using bit_above [OF assms(1), of n] assms(2) [of n] by (auto simp: tag_simps)
  then show "TO_ADDR (a OR hi) = a" by (simp add: bit_word_eqI)
  show "bit (a OR hi) n = bit hi n" if "48 \<le> n" for n
    using bit_above [OF assms(1), of n] that by (auto simp: tag_simps)
qed

lemma update_to_target:
  assumes "a < 2 ^ 48" "a + off < 2 ^ 48" "a + off \<noteq> wa_pthread_create_offset A" "base ! 0 = 0"
    "fl = TARG_FLAG \<or> fl = TARG_FLAG OR MAIN_FLAG"
  shows "map_option TO_ADDR (update_to A base off (a OR fl)) = Some (a + off)"
proof -
  have hi: "48 \<le> n" if "bit fl n" for n using assms(5) that by (auto simp: tag_simps)
  have "bit (a OR fl) 62" using assms(5) by (auto simp: tag_simps)
  then have off: "add_offset off (a OR fl) = (a + off) OR fl"
    using tag_add [OF assms(1,2) hi] by (simp add: add_offset_def and_flag_iff)
  have "TO_INDX ((a + off) OR fl) = 0"
    using tag_parts(2) [OF assms(2) hi] assms(5)
    by (intro bit_word_eqI) (auto simp: bit_TO_INDX tag_bits bit_or_iff)
  then show ?thesis
    using assms(3,4) tag_parts(1) [OF assms(2) hi]
    by (simp add: update_to_def off add_base_def base_of_def MAX_LIBS_def)
qed

lemma update_to_library:
  assumes "a < 2 ^ 48" "i < 2 ^ 13" "unat i < MAX_LIBS" "a + base ! unat i < 2 ^ 48" "a \<noteq> wa_pthread_create_offset A"
  shows "map_option TO_ADDR (update_to A base off (SET_INDX a i OR LIB_FLAG)) = Some (a + base ! unat i)"
proof -
  let ?hi = "push_bit ADDR_BITS i OR LIB_FLAG"
  have x: "SET_INDX a i OR LIB_FLAG = a OR ?hi" by (simp add: SET_INDX_def or.assoc)
  have hi: "48 \<le> n" if "bit ?hi n" for n using that by (auto simp: tag_simps ADDR_BITS_def bit_push_bit_iff)
  have "bit (TO_INDX (a OR ?hi)) n = bit i n" for n
    using bit_above [OF assms(2), of n] bit_above [OF assms(1), of "n + 48"]
    by (cases "n < 13") (auto simp: tag_simps ADDR_BITS_def bit_push_bit_iff)
  then have "TO_INDX (a OR ?hi) = i" by (simp add: bit_word_eqI)
  moreover have "\<not> bit (a OR ?hi) 62"
    using bit_above [OF assms(2), of 14] bit_above [OF assms(1), of 62] by (auto simp: tag_simps ADDR_BITS_def bit_push_bit_iff)
  ultimately show ?thesis
    using assms tag_parts(1) [OF assms(1) hi] tag_parts(1) [OF assms(4) hi] tag_add [OF assms(1,4) hi]
    by (simp add: update_to_def x add_base_def base_of_def add_offset_def and_flag_iff)
qed

definition fix_main :: "wrapper_addresses \<Rightarrow> u64 \<times> u64 \<Rightarrow> u64 \<times> u64" where
  "fix_main A e = (if main_entry e then wa_load_from A else fst e, snd e)"

lemma round1_closed:
  "fst (update_round1 A P) = P\<lparr>lp_state_map := map (\<lambda>m. m\<lparr>vm_state :=
     map (\<lambda>v. set_vs_entries (map (fix_main A) (vs_entries v)) v) (vm_state m)\<rparr>) (lp_state_map P)\<rparr>"
proof -
  have "fst (update_main A e off) = fix_main A e" for e off
    by (simp add: update_main_def fix_main_def main_entry_def Let_def prod_eq_iff)
  then have "fst (update_main_state A v off) = set_vs_entries (map (fix_main A) (vs_entries v)) v" for v off
    by (simp add: update_main_state_def split_beta Let_def fst_map_thread)
  then have "fst (update_main_map A m off) = m\<lparr>vm_state :=
      map (\<lambda>v. set_vs_entries (map (fix_main A) (vs_entries v)) v) (vm_state m)\<rparr>" for m off
    by (simp add: update_main_map_def split_beta Let_def fst_map_thread)
  then show ?thesis by (simp add: update_round1_def split_beta Let_def fst_map_thread)
qed

lemma update_map_SomeD:
  "update_map A base off m = Some m' \<Longrightarrow> those (map (update_state A base off) (vm_state m)) = Some (vm_state m')"
  by (auto simp: update_map_def split: option.splits)

text \<open>What becomes of one state, in terms of the entries it had in the file.\<close>

lemma update_paths_state:
  assumes "update_paths md4 A libindex P = Some P'" "i < length (lp_state_map P)"
    "j < length (vm_state (lp_state_map P ! i))" "k < length (vs_entries (vm_state (lp_state_map P ! i) ! j))"
    "update_bases libindex (replicate MAX_LIBS 0) = Some base"
  defines "off \<equiv> snd (update_round1 A P)" and "v \<equiv> vm_state (lp_state_map P ! i) ! j"
    and "v' \<equiv> vm_state (lp_state_map P' ! i) ! j"
  shows "map_option TO_ADDR (update_to A base off (snd (vs_entries v ! k))) = Some (vs_to v' ! k)"
    and "vs_from v' ! k = TO_ADDR (update_from A off (fst (fix_main A (vs_entries v ! k))))"
    and "vs_hash v' = md4 (concat (map (\<lambda>(f, t). [f, t]) (vs_entries v')))"
proof -
  let ?P1 = "fst (update_round1 A P)"
  define v1 where "v1 = set_vs_entries (map (fix_main A) (vs_entries v)) v"
  obtain P2 where P2: "update_round2 A base off ?P1 = Some P2" "P' = hash_paths md4 (update_round3 P2)"
    using assms(1,5) unfolding off_def by (auto simp: update_paths_def split_beta Let_def)
  then obtain ms where ms: "those (map (update_map A base off) (lp_state_map ?P1)) = Some ms" "lp_state_map P2 = ms"
    by (auto simp: update_round2_def split: option.splits)
  have len: "length (lp_state_map ?P1) = length (lp_state_map P)"
    "vm_state (lp_state_map ?P1 ! i) ! j = v1" "length (vm_state (lp_state_map ?P1 ! i)) = length (vm_state (lp_state_map P ! i))"
    using assms(2,3) by (simp_all add: round1_closed v1_def v_def)
  then have "update_map A base off (lp_state_map ?P1 ! i) = Some (ms ! i)" "i < length ms"
    using those_map_nth [OF ms(1)] assms(2) by simp_all
  then obtain vs where vs: "those (map (update_state A base off) (vm_state (lp_state_map ?P1 ! i))) = Some vs" "vm_state (ms ! i) = vs"
    using update_map_SomeD by blast
  then have "update_state A base off v1 = Some (vs ! j)" "j < length vs"
    using those_map_nth [OF vs(1)] assms(3) len by auto
  then obtain ts where ts: "those (map (update_to A base off) (vs_to v1)) = Some ts"
    "vs ! j = set_vs_entries (zip (map (update_from A off) (vs_from v1)) ts) v1"
    by (auto simp: update_state_def)
  have l1: "length (vs_from v1) = length (vs_entries v)" "length (vs_to v1) = length (vs_entries v)"
    by (simp_all add: v1_def set_vs_entries_def)
  have v': "v' = hash_state md4 (strip_state (vs ! j))"
    using \<open>i < length ms\<close> \<open>j < length vs\<close> ms(2) vs(2)
    by (simp add: v'_def P2(2) hash_paths_def update_round3_def)
  have "k < length ts" "update_to A base off (vs_to v1 ! k) = Some (ts ! k)"
    using those_map_nth [OF ts(1)] assms(4) l1 by (simp_all add: v_def)
  then show "map_option TO_ADDR (update_to A base off (snd (vs_entries v ! k))) = Some (vs_to v' ! k)"
    "vs_from v' ! k = TO_ADDR (update_from A off (fst (fix_main A (vs_entries v ! k))))"
    using assms(4) l1 those_map_nth [OF ts(1)]
    by (simp_all add: v' hash_state_def strip_state_def ts(2) set_vs_entries_def v1_def v_def fix_main_def)
  show "vs_hash v' = md4 (concat (map (\<lambda>(f, t). [f, t]) (vs_entries v')))"
    by (simp add: v' hash_state_def vs_entries_def)
qed

lemma update_bases_zero:
  "update_bases ls base = Some b \<Longrightarrow> 0 < length base \<Longrightarrow> b ! 0 = 0 \<and> length b = length base"
  by (induction ls arbitrary: base) (auto split: if_splits)


definition demo_paths :: lbr_paths where
  "demo_paths = \<lparr>lp_func = [], lp_address_taken = [],
     lp_state_map = [\<lparr>vm_to = 0xc2170 OR LIB_FLAG, vm_state =
       [\<lparr>vs_from = [0x400470 OR TARG_FLAG, 0], vs_to = [SET_INDX 0xc2170 6 OR LIB_FLAG, 0x40052d OR (TARG_FLAG OR MAIN_FLAG)],
         vs_hash = []\<rparr>]\<rparr>]\<rparr>"

definition demo_addresses :: wrapper_addresses where
  "demo_addresses = \<lparr>wa_libc_base = 0, wa_load_from = 0x7f01, wa_orig_main = 0x50052d, wa_armor_lib_enter = 1,
     wa_armor_lib_return = 2, wa_armor_cbk_enter = 3, wa_armor_cbk_return = 4, wa_armor_cbk_target_call = 5,
     wa_armor_cbk_target_return = 6, wa_pthread_create_offset = 7, wa_pthread_create = 8, wa_pthread_create_return = 9\<rparr>"

definition demo_libindex :: "lib_index list" where
  "demo_libindex = [\<lparr>li_index = 6, li_libname = ''libc'', li_base = 0x7f0000000000\<rparr>, \<lparr>li_index = 0, li_libname = [], li_base = 0\<rparr>]"

lemmas demo_words = TO_INDX_def TO_ADDR_def SET_INDX_def ADDR_BITS_def INDX_BITS_def LIB_FLAG_def TARG_FLAG_def MAIN_FLAG_def
        MAX_LIBS_def

lemma demo_round1: "update_round1 demo_addresses demo_paths = (demo_paths\<lparr>lp_state_map := [\<lparr>vm_to = 0xc2170 OR LIB_FLAG, vm_state =
       [\<lparr>vs_from = [0x400470 OR TARG_FLAG, 0x7f01], vs_to = [SET_INDX 0xc2170 6 OR LIB_FLAG, 0x40052d OR (TARG_FLAG OR MAIN_FLAG)],
         vs_hash = []\<rparr>]\<rparr>]\<rparr>, 0x100000)"
    by (simp add: update_round1_def update_main_map_def update_main_state_def  
        set_vs_entries_def vs_entries_def demo_paths_def  demo_addresses_def update_main_def Let_def demo_words)

lemma demo_bases: "update_bases demo_libindex (replicate MAX_LIBS 0) = Some ((replicate MAX_LIBS 0)[6 := 0x7f0000000000, 0 := 0])"
    by (simp add: demo_libindex_def MAX_LIBS_def)

lemma demo_to_lib: "update_to demo_addresses base 0x100000 (SET_INDX 0xc2170 6 OR LIB_FLAG) \<noteq> None"
    by (simp add: update_to_def add_base_def base_of_def add_offset_def demo_addresses_def Let_def demo_words)

lemma demo_to_main: "update_to demo_addresses base 0x100000 (0x40052d OR (TARG_FLAG OR MAIN_FLAG)) \<noteq> None"
    by (simp add: update_to_def add_base_def base_of_def add_offset_def demo_addresses_def Let_def demo_words)

lemma demo_map_to: "add_base base (add_offset 0x100000 (0xc2170 OR LIB_FLAG)) \<noteq> None"
    by (simp add: update_to_def add_base_def base_of_def add_offset_def demo_addresses_def Let_def demo_words)

lemma demo_update_defined: "update_paths (\<lambda>_. []) demo_addresses demo_libindex demo_paths \<noteq> None"
proof -
  have f: "lp_func demo_paths = []" by (simp add: demo_paths_def)
  obtain x y z where "update_to demo_addresses ((replicate MAX_LIBS 0)[6 := 0x7f0000000000, 0 := 0]) 0x100000 (SET_INDX 0xc2170 6 OR LIB_FLAG) = Some x"
     "update_to demo_addresses ((replicate MAX_LIBS 0)[6 := 0x7f0000000000, 0 := 0]) 0x100000 (0x40052d OR (TARG_FLAG OR MAIN_FLAG)) = Some y"
     "add_base ((replicate MAX_LIBS 0)[6 := 0x7f0000000000, 0 := 0]) (add_offset 0x100000 (0xc2170 OR LIB_FLAG)) = Some z" using demo_to_lib demo_to_main demo_map_to by blast
  then show ?thesis
  by (simp add: update_paths_def demo_round1 demo_bases update_round2_def update_map_def update_state_def f or.assoc)
qed


end
