(* ===== verification/Armor_Ioctl.thy ===== *)
theory Armor_Ioctl
  imports Armor_Hooks Lbr_Paths
begin

text \<open>
  The device interface of the module (\<open>src/lkm/armor.c\<close>): \<open>armor_open\<close>,
  \<open>armor_close\<close>, \<open>armor_ioctl_get_offsets\<close> and \<open>armor_ioctl\<close> with all its commands.

  What a call needs of the rest of the kernel is the record \<open>user_env\<close>: what
  \<open>copy_from_user\<close> brings in and how many bytes it misses, how many bytes
  \<open>copy_to_user\<close> misses, whether the \<open>i\<close>-th \<open>kmalloc\<close> of the call,
  \<open>__get_free_page\<close> and the crypto allocation succeed, whether a signal interrupts a wait, and the memory map of
  the main task.  A handler returns the new state, the value of the system call
  and what it wrote to user memory, or it sleeps on a semaphore, or it faults.

  \<open>COPY_PATHS\<close> keeps the copied buffer as a list of words; the pointers that
  \<open>lbr_link_paths\<close> writes into it are not used by the module.
\<close>

section \<open>Command numbers\<close>

definition ARMOR_IOC_MAGIC :: u32 where "ARMOR_IOC_MAGIC = 0x6c"
definition IO :: "u32 \<Rightarrow> u32 \<Rightarrow> u32" where "IO ty nr = push_bit 8 ty OR nr"
definition ARMOR_IOC_INIT :: u32 where "ARMOR_IOC_INIT = IO ARMOR_IOC_MAGIC 1"
definition ARMOR_IOC_DUMP :: u32 where "ARMOR_IOC_DUMP = IO ARMOR_IOC_MAGIC 2"
definition ARMOR_IOC_NOTHING :: u32 where "ARMOR_IOC_NOTHING = IO ARMOR_IOC_MAGIC 3"
definition ARMOR_IOC_VALIDATE :: u32 where "ARMOR_IOC_VALIDATE = IO ARMOR_IOC_MAGIC 4"
definition ARMOR_IOC_COPY_PATHS :: u32 where "ARMOR_IOC_COPY_PATHS = IO ARMOR_IOC_MAGIC 5"
definition ARMOR_IOC_ENABLE_LBR :: u32 where "ARMOR_IOC_ENABLE_LBR = IO ARMOR_IOC_MAGIC 6"
definition ARMOR_IOC_DISABLE_LBR :: u32 where "ARMOR_IOC_DISABLE_LBR = IO ARMOR_IOC_MAGIC 7"
definition ARMOR_IOC_LIB_ENTER :: u32 where "ARMOR_IOC_LIB_ENTER = 0x6c08"
definition ARMOR_IOC_LIB_EXIT :: u32 where "ARMOR_IOC_LIB_EXIT = 0x6c09"
definition ARMOR_IOC_CALLBACK_ENTER :: u32 where "ARMOR_IOC_CALLBACK_ENTER = IO ARMOR_IOC_MAGIC 10"
definition ARMOR_IOC_CALLBACK_EXIT :: u32 where "ARMOR_IOC_CALLBACK_EXIT = IO ARMOR_IOC_MAGIC 11"
definition ARMOR_IOC_GET_JIT_WORK :: u32 where "ARMOR_IOC_GET_JIT_WORK = IO ARMOR_IOC_MAGIC 12"
definition ARMOR_IOC_PUT_JIT_WORK :: u32 where "ARMOR_IOC_PUT_JIT_WORK = IO ARMOR_IOC_MAGIC 13"
definition ARMOR_IOC_GET_OFFSETS :: u32 where "ARMOR_IOC_GET_OFFSETS = IO ARMOR_IOC_MAGIC 14"
definition ARMOR_IOC_PUSH_PLTS :: u32 where "ARMOR_IOC_PUSH_PLTS = IO ARMOR_IOC_MAGIC 15"
definition ARMOR_IOC_PULL_PLT_COPY :: u32 where "ARMOR_IOC_PULL_PLT_COPY = IO ARMOR_IOC_MAGIC 16"
definition ARMOR_IOC_PULL_PLTS :: u32 where "ARMOR_IOC_PULL_PLTS = IO ARMOR_IOC_MAGIC 17"
definition ARMOR_IOC_PULL_GOTS :: u32 where "ARMOR_IOC_PULL_GOTS = IO ARMOR_IOC_MAGIC 18"
definition ARMOR_IOC_PUSH_EXITS :: u32 where "ARMOR_IOC_PUSH_EXITS = IO ARMOR_IOC_MAGIC 19"
definition ARMOR_IOC_PULL_EXITS :: u32 where "ARMOR_IOC_PULL_EXITS = IO ARMOR_IOC_MAGIC 20"
definition ARMOR_IOC_PULL_EXITS_DATA :: u32 where "ARMOR_IOC_PULL_EXITS_DATA = IO ARMOR_IOC_MAGIC 21"

lemmas ioc_consts = ARMOR_IOC_INIT_def ARMOR_IOC_DUMP_def ARMOR_IOC_NOTHING_def ARMOR_IOC_VALIDATE_def
  ARMOR_IOC_COPY_PATHS_def ARMOR_IOC_ENABLE_LBR_def ARMOR_IOC_DISABLE_LBR_def ARMOR_IOC_LIB_ENTER_def
  ARMOR_IOC_LIB_EXIT_def ARMOR_IOC_CALLBACK_ENTER_def ARMOR_IOC_CALLBACK_EXIT_def
  ARMOR_IOC_GET_JIT_WORK_def ARMOR_IOC_PUT_JIT_WORK_def ARMOR_IOC_GET_OFFSETS_def
  ARMOR_IOC_PUSH_PLTS_def ARMOR_IOC_PULL_PLT_COPY_def ARMOR_IOC_PULL_PLTS_def ARMOR_IOC_PULL_GOTS_def
  ARMOR_IOC_PUSH_EXITS_def ARMOR_IOC_PULL_EXITS_def ARMOR_IOC_PULL_EXITS_DATA_def

definition EINTR :: int where "EINTR = 4"
definition ENOMEM :: int where "ENOMEM = 12"
definition EINVAL :: int where "EINVAL = 22"
definition ENOTTY :: int where "ENOTTY = 25"
definition ERESTARTSYS :: int where "ERESTARTSYS = 512"

section \<open>Memory map and offsets\<close>

text \<open>
  A mapping of the main task.  \<open>vm_file\<close> is the backing file: whether a page for
  its path can be had, and the result of \<open>d_path\<close>, an errno or the path.
\<close>

record vma =
  vm_start :: u64
  vm_end :: u64
  vm_exec :: bool
  vm_file :: "(bool \<times> (int + string)) option"

text \<open>\<open>strncpy\<close>: \<open>n\<close> characters of the source, padded with NUL; the rest of the buffer is kept.\<close>

definition strncpy :: "string \<Rightarrow> string \<Rightarrow> nat \<Rightarrow> string" where
  "strncpy dst src n = take n (src @ replicate n (CHR 0x00)) @ drop n dst"

definition strcpy :: "string \<Rightarrow> string \<Rightarrow> string" where
  "strcpy dst src = src @ CHR 0x00 # drop (length src + 1) dst"

text \<open>
  The loop over the mappings.  \<open>None\<close> is a write beyond the arrays of
  \<open>offsets_t\<close>; \<open>Inl\<close> is an errno.
\<close>

fun get_offsets_loop :: "vma list \<Rightarrow> nat \<Rightarrow> offsets_t \<Rightarrow> (int + nat \<times> offsets_t) option" where
  "get_offsets_loop [] i off = Some (Inr (i, off))"
| "get_offsets_loop (v # vs) i off =
    (if vm_exec v then
       if MAX_LIBS \<le> i then None
       else
         let off = off\<lparr>o_start := (o_start off)[i := vm_start v], o_end := (o_end off)[i := vm_end v]\<rparr>
         in case vm_file v of
              Some (page_ok, path) \<Rightarrow>
                if \<not> page_ok then Some (Inl (- ENOMEM))
                else (case path of
                        Inl e \<Rightarrow> Some (Inl e)
                      | Inr pathname \<Rightarrow>
                          get_offsets_loop vs (i + 1)
                            (off\<lparr>o_name := (o_name off)[i := strncpy (o_name off ! i) pathname (MAX_LIBNAME_LENGTH - 1)]\<rparr>))
            | None \<Rightarrow>
                get_offsets_loop vs (i + 1)
                  (off\<lparr>o_name := (o_name off)[i := strcpy (o_name off ! i) ''<unknown>'']\<rparr>)
     else get_offsets_loop vs i off)"

section \<open>The environment of a call\<close>

record plt_got_user =
  pu_size :: u64
  pu_items :: u64
  pu_plts :: u64
  pu_gots :: u64

record simples_user =
  su_size :: u64
  su_items :: u64
  su_exitpoints :: u64

record user_env =
  in_tocopy :: "u64 \<Rightarrow> lbr_paths_kernel_copy \<times> u64"
  in_plt_got :: "u64 \<Rightarrow> plt_got_user \<times> u64"
  in_simples :: "u64 \<Rightarrow> simples_user \<times> u64"
  in_words :: "u64 \<Rightarrow> u64 \<Rightarrow> u64 list \<times> u64"
  copy_to_user :: "u64 \<Rightarrow> u64 \<Rightarrow> u64"
  kmalloc_ok :: "nat \<Rightarrow> u64 \<Rightarrow> bool"
  kmalloc_offsets :: offsets_t
  crypto_ok :: bool
  interrupted :: bool
  active_mm :: "task \<Rightarrow> vma list option"

datatype user_value =
    UWords "u64 list"
  | ULbr lbr_t
  | UPltGot u64 u64
  | USimples u64 u64
  | UOffsets offsets_t
  | UMemory u64 u64

text \<open>A call returns, sleeps on a semaphore, or makes an invalid access to kernel memory.\<close>

datatype 'a outcome = Returns 'a | Sleeps | Faults

type_synonym ioctl_result = "(kernel \<times> int \<times> (u64 \<times> user_value) list) outcome"

abbreviation returns :: "int \<Rightarrow> kernel \<Rightarrow> ioctl_result" where
  "returns r k \<equiv> Returns (k, r, [])"

text \<open>A value handed to \<open>copy_to_user\<close>; the call returns the number of bytes missed.\<close>

definition copy_out :: "user_env \<Rightarrow> u64 \<Rightarrow> u64 \<Rightarrow> user_value \<Rightarrow> kernel \<Rightarrow> ioctl_result" where
  "copy_out U addr n v k =
    (let r = copy_to_user U addr n
     in Returns (k, uint r, if r = 0 then [(addr, v)] else []))"

text \<open>
  Copying an array out: the contents of a kernel buffer, or, for an address that
  came from user space, \<open>n\<close> bytes of kernel memory at that address.
\<close>

definition copy_buf :: "user_env \<Rightarrow> u64 \<Rightarrow> u64 \<Rightarrow> buf \<Rightarrow> kernel \<Rightarrow> ioctl_result" where
  "copy_buf U addr n b k =
    copy_out U addr n (case b of KBuf ws \<Rightarrow> UWords ws | RawPtr p \<Rightarrow> UMemory p n) k"

text \<open>\<open>down_interruptible\<close>: \<open>None\<close> sleeps, \<open>Some None\<close> was interrupted.\<close>

definition down_interruptible :: "user_env \<Rightarrow> nat \<Rightarrow> nat option option" where
  "down_interruptible U sem =
    (if 0 < sem then Some (Some (sem - 1)) else if interrupted U then Some None else None)"

section \<open>Open and close\<close>

definition armor_open :: "user_env \<Rightarrow> kernel \<Rightarrow> kernel \<times> int" where
  "armor_open U k =
    (let k = k\<lparr>armor_opens := armor_opens k + 1\<rparr>
     in if armor_initialized k then (k, 0)
        else if \<not> crypto_ok U then (k, - 1)
        else (k\<lparr>jit_work_cond := 0, jit_result_cond := 0, target_started := 0, plt_available := 0,
               exitpoints_available := 0, main_task := NULL, armor_initialized := True\<rparr>, 0))"

definition armor_close :: "kernel \<Rightarrow> kernel \<times> int" where
  "armor_close k =
    (let k = k\<lparr>armor_opens := armor_opens k - 1\<rparr>
     in if armor_opens k \<noteq> 0 then (k, 0)
        else (k\<lparr>paths := None, armor_initialized := False\<rparr>, 0))"

section \<open>The commands\<close>

definition ioctl_lib_enter :: "u64 \<Rightarrow> kernel \<Rightarrow> ioctl_result" where
  "ioctl_lib_enter arg1 k =
    (let k = stat (\<lambda>s. s\<lparr>st_lib_enter := st_lib_enter s + 1\<rparr>) k;
         k = (if arg1 \<noteq> 0 then lib_init arg1 k else k)
     in returns 0 (on_msrs (wrmsrl MSR_IA32_DEBUGCTLMSR 0) k))"

definition ioctl_lib_exit :: "u64 \<Rightarrow> kernel \<Rightarrow> ioctl_result" where
  "ioctl_lib_exit arg1 k =
    (let k = stat (\<lambda>s. s\<lparr>st_lib_return := st_lib_return s + 1\<rparr>) k;
         (k, out) = (if arg1 \<noteq> 0 then let (k, v) = lib_exit k in (k, [(arg1, UWords [v])]) else (k, []))
     in Returns (on_msrs (wrmsrl MSR_IA32_DEBUGCTLMSR IA32_DEBUGCTL) k, 0, out))"

definition ioctl_copy_paths :: "user_env \<Rightarrow> u64 \<Rightarrow> kernel \<Rightarrow> ioctl_result" where
  "ioctl_copy_paths U arg1 k =
    (let (tc, missed) = in_tocopy U arg1;
         k = k\<lparr>tocopy := tc\<rparr>
     in if missed \<noteq> 0 then returns 1 k
        else if \<not> kmalloc_ok U 0 (kc_size tc) then returns 1 (k\<lparr>paths := None\<rparr>)
        else
          let (ws, missed) = (if kc_paths tc \<noteq> NULL then in_words U (kc_paths tc) (kc_size tc) else ([], 0));
              k = k\<lparr>paths := Some ws\<rparr>
          in if missed \<noteq> 0 then returns 1 k
             else returns 0 (k\<lparr>main_task := current k, target_started := target_started k + 1\<rparr>))"

definition ioctl_init :: "user_env \<Rightarrow> u64 \<Rightarrow> kernel \<Rightarrow> ioctl_result" where
  "ioctl_init U arg1 k =
    (if arg1 = 42 then returns 0 k
     else
       let k = k\<lparr>lib_data := replicate LIB_CACHE_SIZE zero_wrapper,
                  cbk_data := replicate CBK_CACHE_SIZE zero_wrapper,
                  sig_data := replicate SIG_CACHE_SIZE zero_wrapper\<rparr>;
           k = init_lbr_cache k;
           k = k\<lparr>stats := zero_stats, jit_cache := zero_jit_cache, disable_jit := False\<rparr>;
           k = k\<lparr>notifiers := (notifiers k)(current k := True)\<rparr>;
           k = k\<lparr>msrs := (\<lambda>c. enable_lbr (msrs k c))\<rparr>;
           k = set_personality set_task_lbr k;
           code = [start_code k (current k), end_code k (current k)]
       in copy_out U arg1 16 (UWords code) k)"

definition ioctl_callback_enter :: "jit_env \<Rightarrow> u64 \<Rightarrow> kernel \<Rightarrow> ioctl_result" where
  "ioctl_callback_enter J arg1 k =
    (let k = stat (\<lambda>s. s\<lparr>st_cbk_enter := st_cbk_enter s + 1\<rparr>) k;
         k = validate_lbr J k
     in returns 0 (cbk_init arg1 k))"

definition ioctl_callback_exit :: "u64 \<Rightarrow> kernel \<Rightarrow> ioctl_result" where
  "ioctl_callback_exit arg1 k =
    (let k = stat (\<lambda>s. s\<lparr>st_cbk_return := st_cbk_return s + 1\<rparr>) k;
         (k, v) = cbk_exit k
     in Returns (k, 0, if arg1 \<noteq> 0 then [(arg1, UWords [v])] else []))"

definition ioctl_get_jit_work :: "user_env \<Rightarrow> u64 \<Rightarrow> kernel \<Rightarrow> ioctl_result" where
  "ioctl_get_jit_work U arg1 k =
    (case down_interruptible U (jit_work_cond k) of
       None \<Rightarrow> Sleeps
     | Some None \<Rightarrow> returns (- EINTR) k
     | Some (Some n) \<Rightarrow>
         (case jit_work k of
            None \<Rightarrow> Faults
          | Some lbr \<Rightarrow> copy_out U arg1 288 (ULbr lbr) (k\<lparr>jit_work_cond := n\<rparr>)))"

definition armor_ioctl_get_offsets :: "user_env \<Rightarrow> u64 \<Rightarrow> kernel \<Rightarrow> ioctl_result" where
  "armor_ioctl_get_offsets U arg1 k =
    (case down_interruptible U (target_started k) of
       None \<Rightarrow> Sleeps
     | Some None \<Rightarrow> returns (- ERESTARTSYS) k
     | Some (Some n) \<Rightarrow>
         let k = k\<lparr>target_started := n\<rparr>; tc = tocopy k;
             off = (kmalloc_offsets U)\<lparr>
               o_indirect_call_source := kc_indirect_call_source tc, o_load_from := kc_load_from tc,
               o_armor_lib_enter := kc_armor_lib_enter tc, o_armor_lib_return := kc_armor_lib_return tc,
               o_pthread_create := kc_pthread_create tc, o_pthread_create_return := kc_pthread_create_return tc\<rparr>
         in if \<not> kmalloc_ok U 0 4664 then returns (- ENOMEM) k
            else if main_task k = NULL then returns (- EINVAL) k
            else case active_mm U (main_task k) of
                   None \<Rightarrow> returns (- EINVAL) k
                 | Some [] \<Rightarrow> returns (- EINVAL) k
                 | Some vs \<Rightarrow>
                     (case get_offsets_loop vs 0 off of
                        None \<Rightarrow> Faults
                      | Some (Inl e) \<Rightarrow> returns e k
                      | Some (Inr (i, off)) \<Rightarrow>
                          let off = off\<lparr>o_libs := word_of_nat i\<rparr>
                          in if copy_to_user U arg1 4664 \<noteq> 0 then returns 1 k
                             else Returns (k, 0, [(arg1, UOffsets off)])))"

definition ioctl_push_plts :: "user_env \<Rightarrow> u64 \<Rightarrow> kernel \<Rightarrow> ioctl_result" where
  "ioctl_push_plts U arg1 k =
    (let (pu, missed) = in_plt_got U arg1;
         k = k\<lparr>plt_got_copy := \<lparr>pg_size = pu_size pu, pg_items = pu_items pu,
                 pg_plts = RawPtr (pu_plts pu), pg_gots = RawPtr (pu_gots pu)\<rparr>\<rparr>
     in if missed \<noteq> 0 then returns 1 k
        else if \<not> kmalloc_ok U 0 (pu_size pu) then returns 1 k
        else let (plts, missed) = in_words U (pu_plts pu) (pu_size pu)
        in if missed \<noteq> 0 then returns 1 k
        else if \<not> kmalloc_ok U 1 (pu_size pu) then returns 1 k
        else let (gots, missed) = in_words U (pu_gots pu) (pu_size pu)
        in if missed \<noteq> 0 then returns 1 k
        else returns 0 (k\<lparr>plt_got_copy := (plt_got_copy k)\<lparr>pg_plts := KBuf plts, pg_gots := KBuf gots\<rparr>,
                          plt_available := plt_available k + 1\<rparr>))"

definition ioctl_push_exits :: "user_env \<Rightarrow> u64 \<Rightarrow> kernel \<Rightarrow> ioctl_result" where
  "ioctl_push_exits U arg1 k =
    (let (su, missed) = in_simples U arg1;
         k = k\<lparr>simples := \<lparr>sm_size = su_size su, sm_items = su_items su,
                 sm_exitpoints = RawPtr (su_exitpoints su)\<rparr>\<rparr>
     in if missed \<noteq> 0 then returns 1 k
        else if \<not> kmalloc_ok U 0 (su_size su) then returns 1 k
        else let (exits, missed) = in_words U (su_exitpoints su) (su_size su)
        in if missed \<noteq> 0 then returns 1 k
        else returns 0 (k\<lparr>simples := (simples k)\<lparr>sm_exitpoints := KBuf exits\<rparr>,
                          exitpoints_available := exitpoints_available k + 1\<rparr>))"

definition ioctl_pull_plt_copy :: "user_env \<Rightarrow> u64 \<Rightarrow> kernel \<Rightarrow> ioctl_result" where
  "ioctl_pull_plt_copy U arg1 k =
    (case down_interruptible U (plt_available k) of
       None \<Rightarrow> Sleeps
     | Some None \<Rightarrow> returns (- ERESTARTSYS) k
     | Some (Some n) \<Rightarrow>
         copy_out U arg1 32 (UPltGot (pg_size (plt_got_copy k)) (pg_items (plt_got_copy k))) (k\<lparr>plt_available := n\<rparr>))"

definition ioctl_pull_exits :: "user_env \<Rightarrow> u64 \<Rightarrow> kernel \<Rightarrow> ioctl_result" where
  "ioctl_pull_exits U arg1 k =
    (case down_interruptible U (exitpoints_available k) of
       None \<Rightarrow> Sleeps
     | Some None \<Rightarrow> returns (- ERESTARTSYS) k
     | Some (Some n) \<Rightarrow>
         copy_out U arg1 24 (USimples (sm_size (simples k)) (sm_items (simples k))) (k\<lparr>exitpoints_available := n\<rparr>))"

definition armor_ioctl :: "jit_env \<Rightarrow> user_env \<Rightarrow> u32 \<Rightarrow> u64 \<Rightarrow> kernel \<Rightarrow> ioctl_result" where
  "armor_ioctl J U cmd arg1 k =
    (if cmd = ARMOR_IOC_LIB_ENTER then ioctl_lib_enter arg1 k
     else if cmd = ARMOR_IOC_LIB_EXIT then ioctl_lib_exit arg1 k
     else if cmd = ARMOR_IOC_COPY_PATHS then ioctl_copy_paths U arg1 k
     else if cmd = ARMOR_IOC_INIT then ioctl_init U arg1 k
     else if cmd = ARMOR_IOC_NOTHING then returns 0 k
     else if cmd = ARMOR_IOC_VALIDATE then returns 0 (validate_lbr J k)
     else if cmd = ARMOR_IOC_DISABLE_LBR then returns 0 (on_msrs (wrmsrl MSR_IA32_DEBUGCTLMSR 0) k)
     else if cmd = ARMOR_IOC_ENABLE_LBR then returns 0 (on_msrs (wrmsrl MSR_IA32_DEBUGCTLMSR IA32_DEBUGCTL) k)
     else if cmd = ARMOR_IOC_DUMP then returns 0 k
     else if cmd = ARMOR_IOC_CALLBACK_ENTER then ioctl_callback_enter J arg1 k
     else if cmd = ARMOR_IOC_CALLBACK_EXIT then ioctl_callback_exit arg1 k
     else if cmd = ARMOR_IOC_GET_JIT_WORK then ioctl_get_jit_work U arg1 k
     else if cmd = ARMOR_IOC_PUT_JIT_WORK then returns 0 (put_jit_work arg1 k)
     else if cmd = ARMOR_IOC_GET_OFFSETS then armor_ioctl_get_offsets U arg1 k
     else if cmd = ARMOR_IOC_PUSH_PLTS then ioctl_push_plts U arg1 k
     else if cmd = ARMOR_IOC_PUSH_EXITS then ioctl_push_exits U arg1 k
     else if cmd = ARMOR_IOC_PULL_PLT_COPY then ioctl_pull_plt_copy U arg1 k
     else if cmd = ARMOR_IOC_PULL_PLTS
       then copy_buf U arg1 (pg_size (plt_got_copy k)) (pg_plts (plt_got_copy k)) k
     else if cmd = ARMOR_IOC_PULL_GOTS
       then copy_buf U arg1 (pg_size (plt_got_copy k)) (pg_gots (plt_got_copy k)) k
     else if cmd = ARMOR_IOC_PULL_EXITS then ioctl_pull_exits U arg1 k
     else if cmd = ARMOR_IOC_PULL_EXITS_DATA
       then copy_buf U arg1 (sm_size (simples k)) (sm_exitpoints (simples k)) k
     else returns (- ENOTTY) k)"

section \<open>The memory map\<close>

text \<open>A mapping whose name can be obtained.\<close>

definition vma_named :: "vma \<Rightarrow> bool" where
  "vma_named v \<longleftrightarrow> (case vm_file v of None \<Rightarrow> True | Some (ok, p) \<Rightarrow> ok \<and> (\<exists>n. p = Inr n))"

abbreviation wf_offsets :: "offsets_t \<Rightarrow> bool" where
  "wf_offsets off \<equiv> length (o_start off) = MAX_LIBS \<and> length (o_end off) = MAX_LIBS"

lemma get_offsets_loop_step:
  assumes "vma_named v" "vm_exec v" "i < MAX_LIBS"
  shows "\<exists>nm. get_offsets_loop (v # vs) i off = get_offsets_loop vs (i + 1)
    (off\<lparr>o_start := (o_start off)[i := vm_start v], o_end := (o_end off)[i := vm_end v], o_name := nm\<rparr>)"
  using assms by (auto simp: vma_named_def Let_def split: option.splits prod.splits)

lemma get_offsets_loop_fits:
  assumes "\<forall>v \<in> set vs. vma_named v" "i + length (filter vm_exec vs) \<le> MAX_LIBS" "wf_offsets off"
  shows "\<exists>off'. get_offsets_loop vs i off = Some (Inr (i + length (filter vm_exec vs), off'))
    \<and> wf_offsets off' \<and> take i (o_start off') = take i (o_start off) \<and> take i (o_end off') = take i (o_end off)
    \<and> (\<forall>j < length (filter vm_exec vs). o_start off' ! (i + j) = vm_start (filter vm_exec vs ! j)
          \<and> o_end off' ! (i + j) = vm_end (filter vm_exec vs ! j))"
  using assms
proof (induction vs arbitrary: i off)
  case (Cons v vs)
  show ?case
  proof (cases "vm_exec v")
    case True
    with Cons.prems have i: "i < MAX_LIBS" by simp
    obtain nm where nm: "get_offsets_loop (v # vs) i off = get_offsets_loop vs (i + 1)
      (off\<lparr>o_start := (o_start off)[i := vm_start v], o_end := (o_end off)[i := vm_end v], o_name := nm\<rparr>)"
      using get_offsets_loop_step [OF _ True i] Cons.prems(1) by (meson list.set_intros(1))
    let ?o = "off\<lparr>o_start := (o_start off)[i := vm_start v], o_end := (o_end off)[i := vm_end v], o_name := nm\<rparr>"
    have "\<forall>v \<in> set vs. vma_named v" "i + 1 + length (filter vm_exec vs) \<le> MAX_LIBS" "wf_offsets ?o"
      using Cons.prems True by auto
    from Cons.IH [OF this] obtain off' where off':
      "get_offsets_loop vs (i + 1) ?o = Some (Inr (i + 1 + length (filter vm_exec vs), off'))" "wf_offsets off'"
      "take (i + 1) (o_start off') = take (i + 1) (o_start ?o)" "take (i + 1) (o_end off') = take (i + 1) (o_end ?o)"
      "\<forall>j < length (filter vm_exec vs). o_start off' ! (i + 1 + j) = vm_start (filter vm_exec vs ! j)
          \<and> o_end off' ! (i + 1 + j) = vm_end (filter vm_exec vs ! j)" by blast
    have hd: "o_start off' ! i = vm_start v" "o_end off' ! i = vm_end v"
      using arg_cong [OF off'(3), of "\<lambda>xs. xs ! i"] arg_cong [OF off'(4), of "\<lambda>xs. xs ! i"] i Cons.prems(3)
      by (simp_all del: take_Suc_conv_app_nth)
    have tk: "take i (o_start off') = take i (o_start off)" "take i (o_end off') = take i (o_end off)"
      using arg_cong [OF off'(3), of "take i"] arg_cong [OF off'(4), of "take i"] by (simp_all add: min_def)
    have "o_start off' ! (i + j) = vm_start (filter vm_exec (v # vs) ! j)
        \<and> o_end off' ! (i + j) = vm_end (filter vm_exec (v # vs) ! j)"
      if "j < length (filter vm_exec (v # vs))" for j
      using that off'(5) hd True by (cases j) auto
    with nm off'(1,2) tk True show ?thesis by auto
  next
    case False
    with Cons show ?thesis by simp
  qed
qed simp

lemma get_offsets_loop_overflows:
  assumes "\<forall>v \<in> set vs. vma_named v" "MAX_LIBS < i + length (filter vm_exec vs)" "i \<le> MAX_LIBS"
  shows "get_offsets_loop vs i off = None"
  using assms
proof (induction vs arbitrary: i off)
  case (Cons v vs)
  show ?case
  proof (cases "vm_exec v")
    case True
    show ?thesis
    proof (cases "i < MAX_LIBS")
      case lt: True
      with get_offsets_loop_step [OF _ True lt, of vs off] Cons True show ?thesis by auto
    qed (use True in simp)
  qed (use Cons in simp)
qed simp

section \<open>Properties\<close>

text \<open>
  Initialisation puts the module into a known state.  \<open>ARMOR_IOC_INIT\<close> (with a
  buffer argument) empties every cache, clears the statistics and the digest
  cache, enables validation, marks the calling task as supervised and installs
  its preemption hook; on every CPU the LBR is flushed, enabled and filtered by
  \<open>LBR_SELECT\<close>; the caller receives the bounds of its code.
\<close>

theorem init_establishes:
  assumes "arg1 \<noteq> 42" "copy_to_user U arg1 16 = 0"
  shows "\<exists>k'. armor_ioctl J U ARMOR_IOC_INIT arg1 k =
      Returns (k', 0, [(arg1, UWords [start_code k (current k), end_code k (current k)])])
    \<and> wf_lib k' \<and> wf_cbk k' \<and> wf_sig k' \<and> wf_lbr_cache (lbr_cache k') \<and> wf_jit_cache (jit_cache k')
    \<and> (\<forall>t. lib_stacks k' t = [] \<and> cbk_stacks k' t = [] \<and> sig_stacks k' t = [] \<and> stored_view (lbr_cache k') t = None)
    \<and> (\<forall>h. \<not> jit_cache_lookup (jit_cache k') h) \<and> \<not> disable_jit k' \<and> stats k' = zero_stats
    \<and> supervised k' (current k) \<and> notifiers k' (current k)
    \<and> (\<forall>c. lbr_view (msrs k' c) =
          (IA32_DEBUGCTL, LBR_SELECT, 0, replicate LBR_ENTRIES 0, replicate LBR_ENTRIES 0))"
proof -
  have cmd: "ARMOR_IOC_INIT \<noteq> ARMOR_IOC_LIB_ENTER" "ARMOR_IOC_INIT \<noteq> ARMOR_IOC_LIB_EXIT"
    "ARMOR_IOC_INIT \<noteq> ARMOR_IOC_COPY_PATHS"
    by (simp_all add: ioc_consts IO_def ARMOR_IOC_MAGIC_def)
  have lbr: "lbr_view (enable_lbr m) =
      (IA32_DEBUGCTL, LBR_SELECT, 0, replicate LBR_ENTRIES 0, replicate LBR_ENTRIES 0)" for m
    by (simp add: enable_lbr_def lbr_view_flush wrmsrl_def)
  show ?thesis
    using assms cmd lbr
    by (simp add: armor_ioctl_def ioctl_init_def copy_out_def init_lbr_cache_def set_personality_def Let_def
        wf_table_zero wf_lbr_cache_init)
qed

definition demo_user :: user_env where
  "demo_user = \<lparr>in_tocopy = (\<lambda>_. (tocopy boot_kernel, 0)), in_plt_got = (\<lambda>_. (\<lparr>pu_size = 8, pu_items = 1,
      pu_plts = 0x100, pu_gots = 0x200\<rparr>, 0)),
     in_simples = (\<lambda>_. (\<lparr>su_size = 8, su_items = 1, su_exitpoints = 0x300\<rparr>, 0)),
     in_words = (\<lambda>p n. ([p], 0)), copy_to_user = (\<lambda>_ _. 0), kmalloc_ok = (\<lambda>_ _. True),
     kmalloc_offsets = \<lparr>o_name = replicate MAX_LIBS (replicate MAX_LIBNAME_LENGTH (CHR 0x00)),
       o_start = replicate MAX_LIBS 0, o_end = replicate MAX_LIBS 0, o_libs = 0, o_indirect_call_source = 0,
       o_load_from = 0, o_armor_lib_enter = 0, o_armor_lib_return = 0, o_pthread_create = 0,
       o_pthread_create_return = 0\<rparr>,
     crypto_ok = True, interrupted = False, active_mm = (\<lambda>_. None)\<rparr>"

theorem init_establishes_witness:
  "\<exists>k'. armor_ioctl (demo_env (\<lambda>_. 1)) demo_user ARMOR_IOC_INIT 0x1000 (boot_kernel\<lparr>current := 7\<rparr>) =
      Returns (k', 0, [(0x1000, UWords [0, 0])]) \<and> supervised k' 7"
  using init_establishes [of "0x1000" demo_user "demo_env (\<lambda>_. 1)" "boot_kernel\<lparr>current := 7\<rparr>"]
  by (auto simp: demo_user_def)

text \<open>
  A library call is invisible to the LBR and returns to its caller.
  \<open>LIB_ENTER\<close> with a return address stops the recording of branches, and the
  matching \<open>LIB_EXIT\<close> writes that address to the location it is given, resumes
  recording, and leaves the branch registers of the CPU untouched.
\<close>

theorem lib_call_roundtrip:
  assumes "wf_lib k" "current k \<noteq> NULL" "table_room (lib_data k) (current k)"
    "length (lib_stacks k (current k)) < STACKSIZE" "ret \<noteq> 0" "slot \<noteq> 0"
    and "armor_ioctl J U ARMOR_IOC_LIB_ENTER ret k = Returns (k1, r1, out1)"
    and "armor_ioctl J U ARMOR_IOC_LIB_EXIT slot k1 = Returns (k2, r2, out2)"
  shows "r1 = 0 \<and> r2 = 0 \<and> out1 = [] \<and> out2 = [(slot, UWords [ret])]
    \<and> my_msrs k1 = (my_msrs k)(MSR_IA32_DEBUGCTLMSR := 0)
    \<and> my_msrs k2 = (my_msrs k)(MSR_IA32_DEBUGCTLMSR := IA32_DEBUGCTL)
    \<and> lib_stacks k2 = lib_stacks k \<and> killed k2 = killed k"
proof -
  have ne: "ARMOR_IOC_LIB_EXIT \<noteq> ARMOR_IOC_LIB_ENTER" by (simp add: ioc_consts)
  let ?k = "stat (\<lambda>s. s\<lparr>st_lib_enter := st_lib_enter s + 1\<rparr>) k"
  have k1: "k1 = on_msrs (wrmsrl MSR_IA32_DEBUGCTLMSR 0) (lib_init ret ?k)" "r1 = 0" "out1 = []"
    using assms(5,7) by (simp_all add: armor_ioctl_def ioctl_lib_enter_def)
  have li: "killed (lib_init ret ?k) = killed k" "wf_lib (lib_init ret ?k)"
    "lib_stacks (lib_init ret ?k) = (lib_stacks k)(current k := ret # lib_stacks k (current k))"
    "msrs (lib_init ret ?k) = msrs k" "current (lib_init ret ?k) = current k" "cpu (lib_init ret ?k) = cpu k"
    using lib_init_refines [of ?k ret] assms(1-4) by (simp_all add: lib_init_def split_beta)
  let ?k1 = "stat (\<lambda>s. s\<lparr>st_lib_return := st_lib_return s + 1\<rparr>) k1"
  have k2: "k2 = on_msrs (wrmsrl MSR_IA32_DEBUGCTLMSR IA32_DEBUGCTL) (fst (lib_exit ?k1))" "r2 = 0"
    "out2 = [(slot, UWords [snd (lib_exit ?k1)])]"
    using assms(6,8) ne by (simp_all add: armor_ioctl_def ioctl_lib_exit_def split_beta Let_def)
  have le: "snd (lib_exit ?k1) = ret" "killed (fst (lib_exit ?k1)) = killed k"
    "lib_stacks (fst (lib_exit ?k1)) = lib_stacks k" "msrs (fst (lib_exit ?k1)) = msrs k1"
    "cpu (fst (lib_exit ?k1)) = cpu k1"
    using lib_exit_refines [of ?k1 ret "lib_stacks k (current k)"] li assms(2)
    by (simp_all add: k1(1) lib_exit_def split: option.splits)
  show ?thesis using k1 k2 li le by (simp add: wrmsrl_def)
qed

theorem lib_call_roundtrip_witness:
  "let k = boot_kernel\<lparr>current := 7\<rparr>; J = demo_env (\<lambda>_. 1)
   in \<exists>k1 k2. armor_ioctl J demo_user ARMOR_IOC_LIB_ENTER 0x40 k = Returns (k1, 0, [])
     \<and> armor_ioctl J demo_user ARMOR_IOC_LIB_EXIT 0x2000 k1 = Returns (k2, 0, [(0x2000, UWords [0x40])])"
proof -
  let ?k = "boot_kernel\<lparr>current := 7\<rparr>" and ?J = "demo_env (\<lambda>_. 1)"
  have "\<exists>k1. armor_ioctl ?J demo_user ARMOR_IOC_LIB_ENTER 0x40 ?k = Returns (k1, 0, [])"
    by (simp add: armor_ioctl_def ioctl_lib_enter_def)
  then obtain k1 where e1: "armor_ioctl ?J demo_user ARMOR_IOC_LIB_ENTER 0x40 ?k = Returns (k1, 0, [])" by blast
  have "\<exists>k2 r o2. armor_ioctl ?J demo_user ARMOR_IOC_LIB_EXIT 0x2000 k1 = Returns (k2, r, o2)"
    by (simp add: armor_ioctl_def ioctl_lib_exit_def ioc_consts split_beta Let_def)
  then obtain k2 r2 o2 where e2: "armor_ioctl ?J demo_user ARMOR_IOC_LIB_EXIT 0x2000 k1 = Returns (k2, r2, o2)"
    by blast
  have "wf_lib ?k" "current ?k \<noteq> NULL" "table_room (lib_data ?k) (current ?k)"
    "length (lib_stacks ?k (current ?k)) < STACKSIZE"
    by (simp_all add: boot_tables LIB_CACHE_SIZE_def STACKSIZE_def)
  from lib_call_roundtrip [OF this _ _ e1 e2] e1 e2 show ?thesis by (simp add: Let_def)
qed

text \<open>
  \<open>GET_OFFSETS\<close> reports every executable mapping of the target, in order, as long
  as there are at most \<open>MAX_LIBS\<close> of them; the loop has no bound of its own, and
  with one mapping more it writes beyond the arrays of \<open>struct offsets_t\<close>.
\<close>

theorem get_offsets_bounds:
  assumes "0 < target_started k" "kmalloc_ok U 0 4664" "main_task k \<noteq> NULL" "active_mm U (main_task k) = Some vs"
    "vs \<noteq> []" "\<forall>v \<in> set vs. vma_named v" "wf_offsets (kmalloc_offsets U)" "copy_to_user U arg1 4664 = 0"
  defines "xs \<equiv> filter vm_exec vs"
  shows "(MAX_LIBS < length xs \<longrightarrow> armor_ioctl_get_offsets U arg1 k = Faults)
    \<and> (length xs \<le> MAX_LIBS \<longrightarrow> (\<exists>off. armor_ioctl_get_offsets U arg1 k =
          Returns (k\<lparr>target_started := target_started k - 1\<rparr>, 0, [(arg1, UOffsets off)])
        \<and> o_libs off = word_of_nat (length xs)
        \<and> (\<forall>j < length xs. o_start off ! j = vm_start (xs ! j) \<and> o_end off ! j = vm_end (xs ! j))))"
proof -
  define off where "off = (kmalloc_offsets U)\<lparr>
    o_indirect_call_source := kc_indirect_call_source (tocopy k), o_load_from := kc_load_from (tocopy k),
    o_armor_lib_enter := kc_armor_lib_enter (tocopy k), o_armor_lib_return := kc_armor_lib_return (tocopy k),
    o_pthread_create := kc_pthread_create (tocopy k), o_pthread_create_return := kc_pthread_create_return (tocopy k)\<rparr>"
  have run: "armor_ioctl_get_offsets U arg1 k =
     (case get_offsets_loop vs 0 off of
        None \<Rightarrow> Faults
      | Some (Inl e) \<Rightarrow> returns e (k\<lparr>target_started := target_started k - 1\<rparr>)
      | Some (Inr (i, off)) \<Rightarrow> Returns (k\<lparr>target_started := target_started k - 1\<rparr>, 0,
            [(arg1, UOffsets (off\<lparr>o_libs := word_of_nat i\<rparr>))]))"
    using assms(1-5,8)
    by (cases vs) (auto simp: armor_ioctl_get_offsets_def down_interruptible_def off_def Let_def
        simp del: get_offsets_loop.simps split: option.splits sum.splits)
  have wf: "wf_offsets off" using assms(7) by (simp add: off_def)
  have "armor_ioctl_get_offsets U arg1 k = Faults" if "MAX_LIBS < length xs"
    using get_offsets_loop_overflows [OF assms(6), of 0 off] that by (simp add: run xs_def)
  moreover have "\<exists>off. armor_ioctl_get_offsets U arg1 k =
          Returns (k\<lparr>target_started := target_started k - 1\<rparr>, 0, [(arg1, UOffsets off)])
        \<and> o_libs off = word_of_nat (length xs)
        \<and> (\<forall>j < length xs. o_start off ! j = vm_start (xs ! j) \<and> o_end off ! j = vm_end (xs ! j))"
    if le: "length xs \<le> MAX_LIBS"
  proof -
    from get_offsets_loop_fits [OF assms(6) _ wf, of 0] le obtain off'
      where "get_offsets_loop vs 0 off = Some (Inr (length xs, off'))"
        "\<forall>j < length xs. o_start off' ! j = vm_start (xs ! j) \<and> o_end off' ! j = vm_end (xs ! j)"
      by (auto simp: xs_def)
    then show ?thesis by (intro exI [of _ "off'\<lparr>o_libs := word_of_nat (length xs)\<rparr>"]) (simp add: run)
  qed
  ultimately show ?thesis by blast
qed

definition demo_vma :: vma where
  "demo_vma = \<lparr>vm_start = 0x400000, vm_end = 0x401000, vm_exec = True, vm_file = None\<rparr>"

theorem get_offsets_bounds_witness:
  "let k = boot_kernel\<lparr>main_task := 7, target_started := 1\<rparr>;
       U = (\<lambda>n. demo_user\<lparr>active_mm := (\<lambda>_. Some (replicate n demo_vma))\<rparr>)
   in armor_ioctl_get_offsets (U 33) 0x1000 k = Faults
      \<and> (\<exists>k' off. armor_ioctl_get_offsets (U 2) 0x1000 k = Returns (k', 0, [(0x1000, UOffsets off)])
           \<and> o_libs off = 2 \<and> o_start off ! 1 = 0x400000)"
proof -
  let ?k = "boot_kernel\<lparr>main_task := 7, target_started := 1\<rparr>"
  let ?U = "\<lambda>n. demo_user\<lparr>active_mm := (\<lambda>_. Some (replicate n demo_vma))\<rparr>"
  have a: "0 < target_started ?k" "kmalloc_ok (?U n) 0 4664" "main_task ?k \<noteq> NULL"
    "active_mm (?U n) (main_task ?k) = Some (replicate n demo_vma)"
    "\<forall>v \<in> set (replicate n demo_vma). vma_named v" "wf_offsets (kmalloc_offsets (?U n))"
    "copy_to_user (?U n) 0x1000 4664 = 0" for n
    by (simp_all add: demo_user_def vma_named_def demo_vma_def)
  note bounds = get_offsets_bounds [OF a(1) a(2) a(3) a(4) _ a(5) a(6) a(7)]
  have f: "filter vm_exec (replicate n demo_vma) = replicate n demo_vma" for n by (simp add: demo_vma_def)
  have "armor_ioctl_get_offsets (?U 33) 0x1000 ?k = Faults"
    using bounds [of 33] by (simp add: f MAX_LIBS_def)
  moreover obtain k' off where "armor_ioctl_get_offsets (?U 2) 0x1000 ?k = Returns (k', 0, [(0x1000, UOffsets off)])"
    "o_libs off = 2" "o_start off ! 1 = 0x400000"
    using bounds [of 2] by (auto simp: f MAX_LIBS_def numeral_2_eq_2 demo_vma_def)
  ultimately show ?thesis by (auto simp: Let_def)
qed

text \<open>
  What is pushed is what is pulled.  After a successful \<open>PUSH_PLTS\<close> the analyzer's
  \<open>PULL_PLT_COPY\<close>, \<open>PULL_PLTS\<close> and \<open>PULL_GOTS\<close> return the sizes and the two tables
  that were pushed, and the first of them does not sleep.
\<close>

theorem plt_push_pull:
  assumes "in_plt_got U a = (pu, 0)" "kmalloc_ok U 0 (pu_size pu)" "kmalloc_ok U 1 (pu_size pu)"
    "in_words U (pu_plts pu) (pu_size pu) = (plts, 0)" "in_words U (pu_gots pu) (pu_size pu) = (gots, 0)"
    "\<And>p n. copy_to_user U' p n = 0"
  shows "\<exists>k1 k2. armor_ioctl J U ARMOR_IOC_PUSH_PLTS a k = returns 0 k1
    \<and> armor_ioctl J U' ARMOR_IOC_PULL_PLT_COPY b k1 =
        Returns (k2, 0, [(b, UPltGot (pu_size pu) (pu_items pu))])
    \<and> armor_ioctl J U' ARMOR_IOC_PULL_PLTS c k2 = Returns (k2, 0, [(c, UWords plts)])
    \<and> armor_ioctl J U' ARMOR_IOC_PULL_GOTS d k2 = Returns (k2, 0, [(d, UWords gots)])"
  using assms
  by (simp add: armor_ioctl_def ioctl_push_plts_def ioctl_pull_plt_copy_def copy_buf_def copy_out_def
      down_interruptible_def ioc_consts IO_def ARMOR_IOC_MAGIC_def Let_def)

theorem plt_push_pull_witness:
  "\<exists>k1 k2. armor_ioctl (demo_env (\<lambda>_. 1)) demo_user ARMOR_IOC_PUSH_PLTS 1 boot_kernel = returns 0 k1
    \<and> armor_ioctl (demo_env (\<lambda>_. 1)) demo_user ARMOR_IOC_PULL_PLT_COPY 2 k1 = Returns (k2, 0, [(2, UPltGot 8 1)])
    \<and> armor_ioctl (demo_env (\<lambda>_. 1)) demo_user ARMOR_IOC_PULL_PLTS 3 k2 = Returns (k2, 0, [(3, UWords [0x100])])"
  using plt_push_pull [of demo_user 1 "\<lparr>pu_size = 8, pu_items = 1, pu_plts = 0x100, pu_gots = 0x200\<rparr>"
      "[0x100]" "[0x200]" demo_user "demo_env (\<lambda>_. 1)" boot_kernel 2 3 4]
  by (auto simp: demo_user_def)



definition ioctl_numbers :: "u32 list" where
  "ioctl_numbers = [ARMOR_IOC_INIT, ARMOR_IOC_DUMP, ARMOR_IOC_NOTHING, ARMOR_IOC_VALIDATE,
    ARMOR_IOC_COPY_PATHS, ARMOR_IOC_ENABLE_LBR, ARMOR_IOC_DISABLE_LBR, ARMOR_IOC_LIB_ENTER,
    ARMOR_IOC_LIB_EXIT, ARMOR_IOC_CALLBACK_ENTER, ARMOR_IOC_CALLBACK_EXIT, ARMOR_IOC_GET_JIT_WORK,
    ARMOR_IOC_PUT_JIT_WORK, ARMOR_IOC_GET_OFFSETS, ARMOR_IOC_PUSH_PLTS, ARMOR_IOC_PULL_PLT_COPY,
    ARMOR_IOC_PULL_PLTS, ARMOR_IOC_PULL_GOTS, ARMOR_IOC_PUSH_EXITS, ARMOR_IOC_PULL_EXITS,
    ARMOR_IOC_PULL_EXITS_DATA]"

text \<open>
  The command numbers are pairwise different, so every command of the interface
  reaches its own handler, and any other number is rejected with \<open>-ENOTTY\<close> and
  without an effect.
\<close>

theorem ioctl_dispatch_total:
  "distinct ioctl_numbers \<and> (cmd \<in> set ioctl_numbers \<or> armor_ioctl J U cmd arg1 k = returns (- ENOTTY) k)"
proof -
  have "distinct ioctl_numbers"
    by (simp add: ioctl_numbers_def ioc_consts IO_def ARMOR_IOC_MAGIC_def)
  moreover have "armor_ioctl J U cmd arg1 k = returns (- ENOTTY) k" if "cmd \<notin> set ioctl_numbers"
    using that by (simp add: ioctl_numbers_def armor_ioctl_def)
  ultimately show ?thesis by blast
qed

end
