(* ===== verification/Armor_Module.thy ===== *)
theory Armor_Module
  imports PA_Prelude
begin

text \<open>
  Loading and unloading the module: code patching and system call interception
  (\<open>src/lkm/intercept.c\<close>, \<open>src/lkm/syscall-handler.S\<close>) and the registration ladder of
  \<open>armor_init\<close> and \<open>armor_exit\<close> (\<open>src/lkm/armor.c\<close>).

  Kernel memory is a function from addresses to bytes, the page table entries
  that \<open>lookup_address\<close> finds are a function from addresses of entries, and the
  registrations of the module are a list.  \<open>mod_env\<close> says how the kernel answers:
  which registrations succeed, where \<open>kallsyms\<close> finds a symbol (0: nowhere), and
  the addresses of the module's own code.
\<close>

section \<open>State\<close>

datatype resource =
    Sysctl | Workqueue | ProbeWakeUp | ProbeDoExit | ProbeExecve | Syscalls | SignalHook | Miscdev

record mod_state =
  resources :: "resource list"
  lstar :: "nat \<Rightarrow> u64"
  syscall_orig :: u64
  kmem :: "u64 \<Rightarrow> u8"
  ptes :: "u64 \<Rightarrow> u64"
  irqs_on :: bool

record mod_env =
  this_cpu :: nat
  kallsyms :: "string \<Rightarrow> u64"
  lookup_address :: "u64 \<Rightarrow> u64"
  syscall_new :: u64
  pre_signal_delivered :: u64
  pre_signal_delivered_exit :: u64
  sysctl_ok :: bool
  workqueue_ok :: bool
  jprobe_wake_ok :: bool
  jprobe_exit_ok :: bool
  kretprobe_ok :: bool
  misc_ok :: bool

section \<open>Patching kernel code\<close>

definition PAGE_RW :: u64 where "PAGE_RW = 2"

definition make_rw :: "mod_env \<Rightarrow> u64 \<Rightarrow> mod_state \<Rightarrow> mod_state" where
  "make_rw E address s =
    (let p = lookup_address E address
     in if ptes s p AND NOT PAGE_RW \<noteq> 0
        then s\<lparr>ptes := (ptes s)(p := ptes s p OR PAGE_RW)\<rparr> else s)"

definition make_ro :: "mod_env \<Rightarrow> u64 \<Rightarrow> mod_state \<Rightarrow> mod_state" where
  "make_ro E address s =
    (let p = lookup_address E address
     in s\<lparr>ptes := (ptes s)(p := ptes s p AND NOT PAGE_RW)\<rparr>)"

text \<open>The displacement \<open>(s32)((long) to - ((long) from + 5))\<close> and the five bytes of the jump.\<close>

definition reljump_disp :: "u64 \<Rightarrow> u64 \<Rightarrow> u32" where
  "reljump_disp from to = ucast (to - (from + 5))"

definition byte_of :: "u32 \<Rightarrow> nat \<Rightarrow> u8" where
  "byte_of d i = ucast (drop_bit (8 * i) d)"

definition synthesize_reljump :: "u64 \<Rightarrow> u64 \<Rightarrow> mod_state \<Rightarrow> mod_state" where
  "synthesize_reljump from to s =
    (let d = reljump_disp from to
     in s\<lparr>kmem := (kmem s)(from + 1 := byte_of d 0, from + 2 := byte_of d 1,
            from + 3 := byte_of d 2, from + 4 := byte_of d 3, from := 0xe9)\<rparr>)"

definition intercept_symbol :: "mod_env \<Rightarrow> string \<Rightarrow> u64 \<Rightarrow> u64 \<Rightarrow> mod_state \<Rightarrow> mod_state \<times> int" where
  "intercept_symbol E symbol jmp_dst jmp_back_src s =
    (let jmp_src = kallsyms E symbol
     in if jmp_src = 0 then (s, - 1)
        else
          let jmp_back_dst = jmp_src + 5;
              s = s\<lparr>irqs_on := False\<rparr>;
              s = make_rw E jmp_back_src (make_rw E jmp_dst (make_rw E jmp_src s));
              s = synthesize_reljump jmp_src jmp_dst s;
              s = synthesize_reljump jmp_back_src jmp_back_dst s;
              s = make_ro E jmp_back_src (make_ro E jmp_dst (make_ro E jmp_src s))
          in (s\<lparr>irqs_on := True\<rparr>, 0))"

definition restore_symbol :: "mod_env \<Rightarrow> string \<Rightarrow> mod_state \<Rightarrow> mod_state \<times> int" where
  "restore_symbol E symbol s =
    (let jmp_src = kallsyms E symbol
     in if jmp_src = 0 then (s, - 1)
        else
          let s = make_rw E jmp_src (s\<lparr>irqs_on := False\<rparr>);
              s = s\<lparr>kmem := (kmem s)(jmp_src := 0x90, jmp_src + 1 := 0x90, jmp_src + 2 := 0x90,
                      jmp_src + 3 := 0x90, jmp_src + 4 := 0x90)\<rparr>;
              s = make_ro E jmp_src s
          in (s\<lparr>irqs_on := True\<rparr>, 0))"

section \<open>Intercepting system calls\<close>

definition intercept_syscalls_init :: "mod_env \<Rightarrow> mod_state \<Rightarrow> mod_state \<times> int" where
  "intercept_syscalls_init E s =
    (let value = lstar s (this_cpu E)
     in (s\<lparr>syscall_orig := value, lstar := (\<lambda>c. syscall_new E)\<rparr>, 0))"

definition intercept_syscalls_exit :: "mod_state \<Rightarrow> mod_state" where
  "intercept_syscalls_exit s =
    (if syscall_orig s = 0 then s
     else s\<lparr>lstar := (\<lambda>c. syscall_orig s), syscall_orig := 0\<rparr>)"

section \<open>Loading and unloading\<close>

definition register_res :: "resource \<Rightarrow> mod_state \<Rightarrow> mod_state" where
  "register_res r s = s\<lparr>resources := r # resources s\<rparr>"

definition unregister_res :: "resource \<Rightarrow> mod_state \<Rightarrow> mod_state" where
  "unregister_res r s = s\<lparr>resources := remove1 r (resources s)\<rparr>"

text \<open>The labels of the error path, from the last to the first.\<close>

datatype unroll_label =
    err_unroll_register_sysctl
  | err_unroll_workqueue
  | err_unroll_register_new_task
  | err_unroll_register_do_exit
  | err_unroll_register_execve
  | err_unroll_intercept_syscalls
  | err_unroll_intercept_signal_delivered

fun label_rank :: "unroll_label \<Rightarrow> nat" where
  "label_rank err_unroll_register_sysctl = 0"
| "label_rank err_unroll_workqueue = 1"
| "label_rank err_unroll_register_new_task = 2"
| "label_rank err_unroll_register_do_exit = 3"
| "label_rank err_unroll_register_execve = 4"
| "label_rank err_unroll_intercept_syscalls = 5"
| "label_rank err_unroll_intercept_signal_delivered = 6"

text \<open>Control falls through from a label to the next.\<close>

function unroll :: "mod_env \<Rightarrow> unroll_label \<Rightarrow> mod_state \<Rightarrow> mod_state" where
  "unroll E err_unroll_register_sysctl s = unregister_res Sysctl s"
| "unroll E err_unroll_workqueue s = unroll E err_unroll_register_sysctl (unregister_res Workqueue s)"
| "unroll E err_unroll_register_new_task s = unroll E err_unroll_workqueue (unregister_res ProbeWakeUp s)"
| "unroll E err_unroll_register_do_exit s = unroll E err_unroll_register_new_task (unregister_res ProbeDoExit s)"
| "unroll E err_unroll_register_execve s = unroll E err_unroll_register_do_exit (unregister_res ProbeExecve s)"
| "unroll E err_unroll_intercept_syscalls s =
    unroll E err_unroll_register_execve (unregister_res Syscalls (intercept_syscalls_exit s))"
| "unroll E err_unroll_intercept_signal_delivered s =
    unroll E err_unroll_intercept_syscalls
      (unregister_res SignalHook (fst (restore_symbol E ''signal_delivered'' s)))"
  by pat_completeness auto

termination
  by (relation "measure (\<lambda>(E, l, s). label_rank l)") auto

definition armor_init :: "mod_env \<Rightarrow> mod_state \<Rightarrow> mod_state \<times> int" where
  "armor_init E s =
    (if \<not> sysctl_ok E then (s, - 1) else
     let s = register_res Sysctl s in
     if \<not> workqueue_ok E then (unroll E err_unroll_register_sysctl s, - 1) else
     let s = register_res Workqueue s in
     if kallsyms E ''wake_up_new_task'' = 0 then (unroll E err_unroll_workqueue s, - 1) else
     if kallsyms E ''do_exit'' = 0 then (unroll E err_unroll_workqueue s, - 1) else
     if kallsyms E ''sys_execve'' = 0 then (unroll E err_unroll_workqueue s, - 1) else
     if \<not> jprobe_wake_ok E then (unroll E err_unroll_workqueue s, - 1) else
     let s = register_res ProbeWakeUp s in
     if \<not> jprobe_exit_ok E then (unroll E err_unroll_register_new_task s, - 1) else
     let s = register_res ProbeDoExit s in
     if \<not> kretprobe_ok E then (unroll E err_unroll_register_do_exit s, - 1) else
     let s = register_res ProbeExecve s;
         (s, r) = intercept_syscalls_init E s in
     if r < 0 then (unroll E err_unroll_register_execve s, - 1) else
     let s = register_res Syscalls s;
         (s, r) = intercept_symbol E ''signal_delivered'' (pre_signal_delivered E) (pre_signal_delivered_exit E) s in
     if r < 0 then (unroll E err_unroll_intercept_syscalls s, - 1) else
     let s = register_res SignalHook s in
     if \<not> misc_ok E then (unroll E err_unroll_intercept_signal_delivered s, - 1) else
     (register_res Miscdev s, 0))"

definition armor_exit :: "mod_env \<Rightarrow> mod_state \<Rightarrow> mod_state" where
  "armor_exit E s =
    (let s = unregister_res SignalHook (fst (restore_symbol E ''signal_delivered'' s));
         s = unregister_res Syscalls (intercept_syscalls_exit s);
         s = unregister_res ProbeExecve s;
         s = unregister_res ProbeDoExit s;
         s = unregister_res ProbeWakeUp s;
         s = unregister_res Workqueue s;
         s = unregister_res Sysctl s
     in unregister_res Miscdev s)"

section \<open>The system call stub\<close>

text \<open>
  The registers the stub saves and restores, the stack slots it uses (by offset
  from the lowered stack pointer), and the per-CPU variables it goes through.
\<close>

record stub_regs =
  rax :: u64
  rdi :: u64
  rsi :: u64
  rdx :: u64
  rcx :: u64
  r8 :: u64
  r9 :: u64
  r10 :: u64
  r11 :: u64
  rsp :: u64

record stub_mem =
  old_rsp :: u64
  kernel_stack :: u64
  r11_scratch :: u64
  stack_at :: "u64 \<Rightarrow> u64"

definition stub_save :: "stub_regs \<times> stub_mem \<Rightarrow> stub_regs \<times> stub_mem" where
  "stub_save w =
    (let (g, m) = w;
         m = m\<lparr>r11_scratch := r11 g\<rparr>;
         m = m\<lparr>old_rsp := rsp g\<rparr>;
         g = g\<lparr>rsp := kernel_stack m\<rparr>;
         g = g\<lparr>r11 := r11_scratch m\<rparr>;
         g = g\<lparr>rsp := rsp g - 0x50\<rparr>;
         st = (stack_at m)(rsp g + 0x40 := rdi g, rsp g + 0x38 := rsi g, rsp g + 0x30 := rdx g,
                rsp g + 0x20 := rax g, rsp g + 0x18 := r8 g, rsp g + 0x10 := r9 g,
                rsp g + 0x8 := r10 g, rsp g := r11 g, rsp g + 0x48 := rax g, rsp g + 0x50 := rcx g)
     in (g, m\<lparr>stack_at := st\<rparr>))"

definition stub_continue :: "u64 \<Rightarrow> stub_regs \<times> stub_mem \<Rightarrow> stub_regs \<times> stub_mem" where
  "stub_continue addr_old_rsp w =
    (let (g, m) = w; st = stack_at m; sp = rsp g;
         g = g\<lparr>rcx := st (sp + 0x50), r11 := st sp, r10 := st (sp + 0x8), r9 := st (sp + 0x10),
               r8 := st (sp + 0x18), rax := st (sp + 0x20), rdx := st (sp + 0x30),
               rsi := st (sp + 0x38), rdi := st (sp + 0x40)\<rparr>;
         g = g\<lparr>r11 := addr_old_rsp\<rparr>;
         g = g\<lparr>rsp := old_rsp m\<rparr>
     in (g, m))"

text \<open>
  The entry point: system calls are told apart by their number in \<open>rax\<close>, the
  intercepted ones go through the handler and then behind the \<open>swapgs\<close> of the
  original entry, every other one goes to the original entry untouched.
\<close>

datatype syscall_hook = do_mmap | do_mprotect | do_sigaction | do_sigreturn | do_execve

datatype stub_exit = syscall_orig_entry | syscall_after_swapgs

definition syscall_dispatch :: "u64 \<Rightarrow> syscall_hook option" where
  "syscall_dispatch nr =
    (if nr = 0x09 then Some do_mmap
     else if nr = 0x0a then Some do_mprotect
     else if nr = 0x0d then Some do_sigaction
     else if nr = 0x0f then Some do_sigreturn
     else if nr = 0x3b then Some do_execve
     else None)"

definition syscall_stub ::
  "(syscall_hook \<Rightarrow> stub_regs \<times> stub_mem \<Rightarrow> stub_regs \<times> stub_mem) \<Rightarrow> u64 \<Rightarrow> stub_regs \<times> stub_mem
    \<Rightarrow> stub_exit \<times> stub_regs \<times> stub_mem" where
  "syscall_stub call addr_old_rsp w =
    (case syscall_dispatch (rax (fst w)) of
       None \<Rightarrow> (syscall_orig_entry, w)
     | Some h \<Rightarrow> (syscall_after_swapgs, stub_continue addr_old_rsp (call h (stub_save w))))"

text \<open>What a C function called from the stub leaves alone: the stack pointer and its caller's frame.\<close>

definition keeps_frame :: "(syscall_hook \<Rightarrow> stub_regs \<times> stub_mem \<Rightarrow> stub_regs \<times> stub_mem) \<Rightarrow> bool" where
  "keeps_frame call \<longleftrightarrow> (\<forall>h g m. rsp (fst (call h (g, m))) = rsp g \<and> old_rsp (snd (call h (g, m))) = old_rsp m
     \<and> (\<forall>off \<in> {0, 0x8, 0x10, 0x18, 0x20, 0x30, 0x38, 0x40, 0x48, 0x50}.
          stack_at (snd (call h (g, m))) (rsp g + off) = stack_at m (rsp g + off)))"

section \<open>Relative jumps\<close>

text \<open>Where the processor goes from an \<open>e9 rel32\<close> instruction.\<close>

definition rel32_at :: "(u64 \<Rightarrow> u8) \<Rightarrow> u64 \<Rightarrow> u32" where
  "rel32_at m a = ucast (m (a + 1)) OR push_bit 8 (ucast (m (a + 2)))
     OR push_bit 16 (ucast (m (a + 3))) OR push_bit 24 (ucast (m (a + 4)))"

definition jump_target :: "(u64 \<Rightarrow> u8) \<Rightarrow> u64 \<Rightarrow> u64 option" where
  "jump_target m a = (if m a = 0xe9 then Some (a + 5 + scast (rel32_at m a)) else None)"

lemma bytes_recombine:
  "ucast (byte_of d 0) OR push_bit 8 (ucast (byte_of d 1)) OR push_bit 16 (ucast (byte_of d 2))
     OR push_bit 24 (ucast (byte_of d 3)) = d" (is "?l = d")
proof (rule bit_word_eqI)
  fix n assume "n < LENGTH(32)"
  then consider "n < 8" | "8 \<le> n" "n < 16" | "16 \<le> n" "n < 24" | "24 \<le> n" "n < 32" by fastforce
  then show "bit ?l n = bit d n"
    by cases (auto simp: byte_of_def bit_or_iff bit_push_bit_iff bit_ucast_iff bit_drop_bit_eq)
qed

lemma scast_ucast_fits:
  fixes x :: u64
  assumes "- (2 ^ 31) \<le> sint x" "sint x < 2 ^ 31"
  shows "scast (ucast x :: u32) = x"
proof -
  have "sint (ucast x :: u32) = signed_take_bit 31 (uint x)" by (simp add: signed_ucast_eq)
  also have "\<dots> = signed_take_bit 31 (signed_take_bit 63 (uint x))" by (simp add: signed_take_bit_signed_take_bit)
  also have "\<dots> = signed_take_bit 31 (sint x)" by (simp add: sint_uint)
  also have "\<dots> = sint x" using assms by (intro signed_take_bit_int_eq_self) simp_all
  finally show ?thesis by (simp add: scast_eq)
qed

text \<open>The distance a relative jump can bridge.\<close>

definition in_reach :: "u64 \<Rightarrow> u64 \<Rightarrow> bool" where
  "in_reach from to \<longleftrightarrow> - (2 ^ 31) \<le> sint (to - (from + 5)) \<and> sint (to - (from + 5)) < 2 ^ 31"

definition jump_bytes :: "u64 \<Rightarrow> u64 set" where
  "jump_bytes a = {a, a + 1, a + 2, a + 3, a + 4}"

lemma jump_target_cong:
  "(\<And>x. x \<in> jump_bytes a \<Longrightarrow> m x = m' x) \<Longrightarrow> jump_target m a = jump_target m' a"
  by (simp add: jump_target_def rel32_at_def jump_bytes_def)

lemma synthesize_frame: "x \<notin> jump_bytes from \<Longrightarrow> kmem (synthesize_reljump from to s) x = kmem s x"
  by (simp add: synthesize_reljump_def jump_bytes_def Let_def)

lemma synthesize_target:
  assumes "in_reach from to"
  shows "jump_target (kmem (synthesize_reljump from to s)) from = Some to"
proof -
  let ?m = "kmem (synthesize_reljump from to s)"
  have "?m from = 0xe9" "?m (from + 1) = byte_of (reljump_disp from to) 0"
    "?m (from + 2) = byte_of (reljump_disp from to) 1" "?m (from + 3) = byte_of (reljump_disp from to) 2"
    "?m (from + 4) = byte_of (reljump_disp from to) 3"
    by (simp_all add: synthesize_reljump_def Let_def)
  then have "jump_target ?m from = Some (from + 5 + scast (reljump_disp from to))"
    by (simp add: jump_target_def rel32_at_def bytes_recombine [unfolded One_nat_def])
  then show ?thesis
    using scast_ucast_fits [of "to - (from + 5)"] assms by (simp add: reljump_disp_def in_reach_def)
qed

lemma page_kmem [simp]:
  "kmem (make_rw E a s) = kmem s" "kmem (make_ro E a s) = kmem s"
  "resources (make_rw E a s) = resources s" "resources (make_ro E a s) = resources s"
  "lstar (make_rw E a s) = lstar s" "lstar (make_ro E a s) = lstar s"
  "syscall_orig (make_rw E a s) = syscall_orig s" "syscall_orig (make_ro E a s) = syscall_orig s"
  by (simp_all add: make_rw_def make_ro_def Let_def)

lemma synthesize_simps [simp]:
  "resources (synthesize_reljump f t s) = resources s" "lstar (synthesize_reljump f t s) = lstar s"
  "syscall_orig (synthesize_reljump f t s) = syscall_orig s"
  by (simp_all add: synthesize_reljump_def Let_def)

lemma synthesize_kmem_cong:
  "kmem s = kmem s' \<Longrightarrow> kmem (synthesize_reljump f t s) = kmem (synthesize_reljump f t s')"
  by (simp add: synthesize_reljump_def Let_def)

lemma intercept_symbol_kmem:
  assumes "kallsyms E name \<noteq> 0"
  shows "kmem (fst (intercept_symbol E name d b s)) =
      kmem (synthesize_reljump b (kallsyms E name + 5) (synthesize_reljump (kallsyms E name) d s))"
    and "snd (intercept_symbol E name d b s) = 0" and "irqs_on (fst (intercept_symbol E name d b s))"
  using assms by (auto simp: intercept_symbol_def Let_def intro!: synthesize_kmem_cong)

lemma patch_simps [simp]:
  "resources (fst (intercept_symbol E name d b s)) = resources s"
  "lstar (fst (intercept_symbol E name d b s)) = lstar s"
  "syscall_orig (fst (intercept_symbol E name d b s)) = syscall_orig s"
  "resources (fst (restore_symbol E name s)) = resources s" "lstar (fst (restore_symbol E name s)) = lstar s"
  "syscall_orig (fst (restore_symbol E name s)) = syscall_orig s"
  by (simp_all add: intercept_symbol_def restore_symbol_def Let_def)

lemma restore_symbol_kmem:
  assumes "kallsyms E name \<noteq> 0"
  shows "kmem (fst (restore_symbol E name s)) x = (if x \<in> jump_bytes (kallsyms E name) then 0x90 else kmem s x)"
  using assms by (auto simp: restore_symbol_def Let_def jump_bytes_def)

lemma res_simps [simp]:
  "resources (register_res r s) = r # resources s" "resources (unregister_res r s) = remove1 r (resources s)"
  "lstar (register_res r s) = lstar s" "lstar (unregister_res r s) = lstar s"
  "syscall_orig (register_res r s) = syscall_orig s" "syscall_orig (unregister_res r s) = syscall_orig s"
  "kmem (register_res r s) = kmem s" "kmem (unregister_res r s) = kmem s"
  by (simp_all add: register_res_def unregister_res_def)

lemma syscalls_simps [simp]:
  "resources (intercept_syscalls_exit s) = resources s" "kmem (intercept_syscalls_exit s) = kmem s"
  "resources (fst (intercept_syscalls_init E s)) = resources s" "snd (intercept_syscalls_init E s) = 0"
  by (simp_all add: intercept_syscalls_exit_def intercept_syscalls_init_def)

lemma stub_save_slots:
  defines "w \<equiv> \<lambda>g m. stub_save (g, m)"
  shows "old_rsp (snd (w g m)) = rsp g" "stack_at (snd (w g m)) (rsp (fst (w g m))) = r11 g"
    "stack_at (snd (w g m)) (rsp (fst (w g m)) + 0x8) = r10 g" "stack_at (snd (w g m)) (rsp (fst (w g m)) + 0x10) = r9 g"
    "stack_at (snd (w g m)) (rsp (fst (w g m)) + 0x18) = r8 g" "stack_at (snd (w g m)) (rsp (fst (w g m)) + 0x20) = rax g"
    "stack_at (snd (w g m)) (rsp (fst (w g m)) + 0x30) = rdx g" "stack_at (snd (w g m)) (rsp (fst (w g m)) + 0x38) = rsi g"
    "stack_at (snd (w g m)) (rsp (fst (w g m)) + 0x40) = rdi g" "stack_at (snd (w g m)) (rsp (fst (w g m)) + 0x50) = rcx g"
  by (simp_all add: w_def stub_save_def Let_def)

lemma stub_continue_after:
  assumes "keeps_frame call"
  shows "fst (stub_continue a (call h w)) =
    (let st = stack_at (snd w); sp = rsp (fst w) in
     \<lparr>rax = st (sp + 0x20), rdi = st (sp + 0x40), rsi = st (sp + 0x38), rdx = st (sp + 0x30), rcx = st (sp + 0x50),
      r8 = st (sp + 0x18), r9 = st (sp + 0x10), r10 = st (sp + 0x8), r11 = a, rsp = old_rsp (snd w)\<rparr>)"
proof -
  obtain g m g' m' where w: "w = (g, m)" "call h w = (g', m')" by (metis surj_pair)
  then have "rsp g' = rsp g" "old_rsp m' = old_rsp m"
    "\<forall>off \<in> {0, 0x8, 0x10, 0x18, 0x20, 0x30, 0x38, 0x40, 0x48, 0x50}. stack_at m' (rsp g + off) = stack_at m (rsp g + off)"
    using assms unfolding keeps_frame_def by (metis fst_conv snd_conv)+
  moreover have "call h (g, m) = (g', m')" using w by simp
  ultimately show ?thesis by (simp add: w(1) stub_continue_def Let_def)
qed

section \<open>Properties\<close>

text \<open>
  C26: Interception redirects control and comes back.  When the symbol exists, the
  two jumps are in reach of a 32-bit displacement and their bytes do not overlap,
  the function entry jumps to the interceptor, the end of the interceptor jumps
  back to the sixth byte of the function, and no other byte of kernel memory is
  changed; restoring the symbol leaves five NOPs at the entry.
\<close>

theorem intercept_redirects:
  assumes "kallsyms E name = src" "src \<noteq> 0" "in_reach src dst" "in_reach hook (src + 5)"
    "jump_bytes src \<inter> jump_bytes hook = {}" "intercept_symbol E name dst hook s = (s', r)"
  shows "r = 0 \<and> jump_target (kmem s') src = Some dst \<and> jump_target (kmem s') hook = Some (src + 5)
    \<and> (\<forall>x. x \<notin> jump_bytes src \<union> jump_bytes hook \<longrightarrow> kmem s' x = kmem s x) \<and> irqs_on s'
    \<and> (\<forall>x. kmem (fst (restore_symbol E name s')) x = (if x \<in> jump_bytes src then 0x90 else kmem s' x))"
proof -
  let ?s1 = "synthesize_reljump src dst s"
  let ?s2 = "synthesize_reljump hook (src + 5) ?s1"
  have m: "kmem s' = kmem ?s2" "r = 0" "irqs_on s'"
    using intercept_symbol_kmem [of E name dst hook s] assms(1,2,6) by simp_all
  have "jump_target (kmem ?s2) src = jump_target (kmem ?s1) src"
    using assms(5) by (intro jump_target_cong synthesize_frame) auto
  then have "jump_target (kmem s') src = Some dst" using synthesize_target [OF assms(3)] m by simp
  moreover have "jump_target (kmem s') hook = Some (src + 5)" using synthesize_target [OF assms(4)] m by simp
  moreover have "kmem s' x = kmem s x" if "x \<notin> jump_bytes src \<union> jump_bytes hook" for x
    using that m by (simp add: synthesize_frame)
  ultimately show ?thesis using m restore_symbol_kmem [of E name s'] assms(1,2) by simp
qed

definition demo_mod_env :: mod_env where
  "demo_mod_env = \<lparr>this_cpu = 0, kallsyms = (\<lambda>_. 0x1000), lookup_address = id, syscall_new = 0x9000,
     pre_signal_delivered = 0x2000, pre_signal_delivered_exit = 0x3000, sysctl_ok = True,
     workqueue_ok = True, jprobe_wake_ok = True, jprobe_exit_ok = True, kretprobe_ok = True, misc_ok = True\<rparr>"

definition demo_mod_state :: mod_state where
  "demo_mod_state = \<lparr>resources = [], lstar = (\<lambda>_. 0x8000), syscall_orig = 0, kmem = (\<lambda>_. 0), ptes = (\<lambda>_. 0),
     irqs_on = True\<rparr>"

theorem intercept_redirects_witness:
  "jump_target (kmem (fst (intercept_symbol demo_mod_env ''signal_delivered'' 0x2000 0x3000 demo_mod_state))) 0x1000
     = Some 0x2000"
  using intercept_redirects [of demo_mod_env "''signal_delivered''" "0x1000" "0x2000" "0x3000" demo_mod_state
      "fst (intercept_symbol demo_mod_env ''signal_delivered'' 0x2000 0x3000 demo_mod_state)" 0]
    intercept_symbol_kmem(2) [of demo_mod_env "''signal_delivered''" "0x2000" "0x3000" demo_mod_state]
  by (simp add: demo_mod_env_def in_reach_def jump_bytes_def prod_eq_iff)

text \<open>
  C27: Loading the module is all or nothing.  \<open>armor_init\<close> either returns 0 with every
  hook and device registered once, or returns -1 with nothing registered and,
  when all CPUs had the same system call entry, with that entry in place.
\<close>

theorem init_all_or_nothing:
  assumes "resources s = []" "\<And>c. lstar s c = v" "v \<noteq> 0" "armor_init E s = (s', r)"
  shows "r = 0 \<and> distinct (resources s') \<and> set (resources s') = UNIV \<and> lstar s' = (\<lambda>_. syscall_new E)
      \<and> syscall_orig s' = v
    \<or> r = - 1 \<and> resources s' = [] \<and> lstar s' = lstar s"
proof -
  have all: "UNIV = {Sysctl, Workqueue, ProbeWakeUp, ProbeDoExit, ProbeExecve, Syscalls, SignalHook, Miscdev}"
    using resource.exhaust by auto
  have l: "lstar s = (\<lambda>_. v)" using assms(2) by auto
  show ?thesis
    using assms(1,3,4) l
    by (auto simp: armor_init_def Let_def intercept_syscalls_init_def intercept_syscalls_exit_def all
        split_beta split: if_splits)
qed

theorem init_all_or_nothing_witness:
  "snd (armor_init demo_mod_env demo_mod_state) = 0
    \<and> set (resources (fst (armor_init demo_mod_env demo_mod_state))) = UNIV"
proof -
  have "snd (armor_init demo_mod_env demo_mod_state) = 0"
    using intercept_symbol_kmem(2) [of demo_mod_env "''signal_delivered''"]
    by (simp add: armor_init_def Let_def demo_mod_env_def split_beta)
  then show ?thesis
    using init_all_or_nothing [of demo_mod_state "0x8000" demo_mod_env "fst (armor_init demo_mod_env demo_mod_state)" 0]
    by (simp add: demo_mod_state_def prod_eq_iff)
qed

text \<open>
  Unloading undoes loading: after a successful \<open>armor_init\<close>, \<open>armor_exit\<close> leaves
  nothing registered and every CPU on the original system call entry.
\<close>

theorem exit_undoes_init:
  assumes "resources s = []" "\<And>c. lstar s c = v" "v \<noteq> 0" "armor_init E s = (s', 0)"
  shows "resources (armor_exit E s') = [] \<and> lstar (armor_exit E s') = lstar s
    \<and> syscall_orig (armor_exit E s') = 0"
proof -
  have l: "lstar s = (\<lambda>_. v)" using assms(2) by auto
  show ?thesis
    using assms(1,3,4)
    by (auto simp: armor_init_def armor_exit_def Let_def l intercept_syscalls_init_def
        intercept_syscalls_exit_def split_beta split: if_splits)
qed

theorem exit_undoes_init_witness:
  "resources (armor_exit demo_mod_env (fst (armor_init demo_mod_env demo_mod_state))) = []"
proof -
  have "snd (armor_init demo_mod_env demo_mod_state) = 0"
    using intercept_symbol_kmem(2) [of demo_mod_env "''signal_delivered''"]
    by (simp add: armor_init_def Let_def demo_mod_env_def split_beta)
  then show ?thesis
    using exit_undoes_init [of demo_mod_state "0x8000" demo_mod_env "fst (armor_init demo_mod_env demo_mod_state)"]
    by (simp add: demo_mod_state_def prod_eq_iff)
qed

text \<open>
  C36: The system call stub does not preserve \<open>r11\<close>.  A system call that is not
  intercepted reaches the original entry with every register as the caller left
  it.  An intercepted one does so for every register but \<open>r11\<close>: the \<open>syscall\<close>
  instruction has saved the caller's flags there, and they arrive as the address
  of the \<open>old_rsp\<close> variable.
\<close>

theorem syscall_stub_clobbers_r11:
  assumes "keeps_frame call" "syscall_stub call a (g, m) = (e, g', m')"
  shows "(e = syscall_orig_entry \<longrightarrow> syscall_dispatch (rax g) = None \<and> g' = g)
    \<and> (e = syscall_after_swapgs \<longrightarrow> syscall_dispatch (rax g) \<noteq> None \<and> g' = g\<lparr>r11 := a\<rparr>)"
proof (cases "syscall_dispatch (rax g)")
  case None
  then show ?thesis using assms(2) by (auto simp: syscall_stub_def)
next
  case (Some h)
  have g': "g' = fst (stub_continue a (call h (stub_save (g, m))))" "e = syscall_after_swapgs"
    using assms(2) Some by (auto simp: syscall_stub_def prod_eq_iff)
  have "g' = g\<lparr>r11 := a\<rparr>"
    using stub_continue_after [OF assms(1), of a h "stub_save (g, m)"] stub_save_slots [of g m] g' by (simp add: Let_def)
  then show ?thesis using Some g' by simp
qed

definition demo_regs :: stub_regs where
  "demo_regs = \<lparr>rax = 9, rdi = 1, rsi = 2, rdx = 3, rcx = 4, r8 = 5, r9 = 6, r10 = 7, r11 = 0x246, rsp = 0x7000\<rparr>"

definition demo_frame :: stub_mem where
  "demo_frame = \<lparr>old_rsp = 0, kernel_stack = 0x5000, r11_scratch = 0, stack_at = (\<lambda>_. 0)\<rparr>"

theorem syscall_stub_clobbers_r11_witness:
  "r11 (fst (snd (syscall_stub (\<lambda>h w. w) 0x1234 (demo_regs, demo_frame)))) = 0x1234"
proof -
  let ?w = "syscall_stub (\<lambda>h w. w) 0x1234 (demo_regs, demo_frame)"
  have "fst ?w = syscall_after_swapgs" by (simp add: syscall_stub_def syscall_dispatch_def demo_regs_def)
  then show ?thesis
    using syscall_stub_clobbers_r11 [of "\<lambda>h w. w" "0x1234" demo_regs demo_frame "fst ?w" "fst (snd ?w)" "snd (snd ?w)"]
    by (simp add: keeps_frame_def prod_eq_iff)
qed

end
