(* ===== verification/Wrapper_Stubs.thy ===== *)
theory Wrapper_Stubs
  imports Armor_Ioctl Armor_Module
begin

text \<open>
  The assembly stubs of the wrapper library (\<open>src/shared/libenter.S\<close> and
  \<open>src/shared/callback.S\<close>) on top of the ioctls of the kernel module.
  \<open>armor_lib_enter\<close> is called at the start of a wrapped library function,
  \<open>armor_cbk_enter\<close> in front of an indirect call of a library into the target, and
  \<open>armor_pthread_enter\<close> starts a thread.  Memory is the cells of eight bytes that the
  stubs push and pop; the code that the stubs call is a parameter, a function from the
  state at its first instruction to the state after its return.
\<close>

section \<open>Machine\<close>

record user_state =
  regs :: stub_regs
  mem :: "u64 \<Rightarrow> u64"
  kern :: kernel

text \<open>
  The variables of \<open>wrappers.c\<close> with their addresses.  \<open>armor_fd\<close> is four bytes large,
  the stubs load the eight bytes at its address.
\<close>

record wrapper_vars =
  armor_fd :: u64
  armor_start_code :: u64
  armor_range_code :: u64
  addr_armor_fd :: u64
  addr_start_code :: u64
  addr_range_code :: u64

text \<open>The environment of system calls, and what they leave in \<open>rcx\<close> and \<open>r11\<close>.\<close>

record syscall_env =
  se_jit :: jit_env
  se_user :: user_env
  se_rcx :: u64
  se_r11 :: u64

abbreviation on_regs :: "(stub_regs \<Rightarrow> stub_regs) \<Rightarrow> user_state \<Rightarrow> user_state" where
  "on_regs f s \<equiv> s\<lparr>regs := f (regs s)\<rparr>"

definition pushq :: "u64 \<Rightarrow> user_state \<Rightarrow> user_state" where
  "pushq v s = (let sp = rsp (regs s) - 8 in s\<lparr>regs := (regs s)\<lparr>rsp := sp\<rparr>, mem := (mem s)(sp := v)\<rparr>)"

definition popq :: "(u64 \<Rightarrow> stub_regs \<Rightarrow> stub_regs) \<Rightarrow> user_state \<Rightarrow> user_state" where
  "popq set_reg s = (let sp = rsp (regs s) in s\<lparr>regs := set_reg (mem s sp) ((regs s)\<lparr>rsp := sp + 8\<rparr>)\<rparr>)"

definition retq :: "user_state \<Rightarrow> u64 \<times> user_state" where
  "retq s = (mem s (rsp (regs s)), on_regs (\<lambda>g. g\<lparr>rsp := rsp g + 8\<rparr>) s)"

text \<open>\<open>call *reg\<close>: the code at the target runs until it returns to the pushed address.\<close>

definition callq :: "(u64 \<Rightarrow> user_state \<Rightarrow> user_state option) \<Rightarrow> u64 \<Rightarrow> u64 \<Rightarrow> user_state \<Rightarrow> user_state option" where
  "callq code ret target s = code target (pushq ret s)"

fun copy_out_words :: "u64 \<Rightarrow> u64 list \<Rightarrow> (u64 \<Rightarrow> u64) \<Rightarrow> u64 \<Rightarrow> u64" where
  "copy_out_words a [] m = m"
| "copy_out_words a (w # ws) m = copy_out_words (a + 8) ws (m(a := w))"

definition apply_output :: "(u64 \<times> user_value) list \<Rightarrow> (u64 \<Rightarrow> u64) \<Rightarrow> u64 \<Rightarrow> u64" where
  "apply_output out m = (case out of [(a, UWords ws)] \<Rightarrow> copy_out_words a ws m | _ \<Rightarrow> m)"

text \<open>The system call of the stubs: \<open>ioctl\<close> on the descriptor of the device.\<close>

definition SYS_IOCTL :: u64 where "SYS_IOCTL = 0x10"

definition syscall :: "wrapper_vars \<Rightarrow> syscall_env \<Rightarrow> user_state \<Rightarrow> user_state option" where
  "syscall V E s =
    (if rax (regs s) \<noteq> SYS_IOCTL \<or> (ucast (rdi (regs s)) :: u32) \<noteq> ucast (armor_fd V) then None
     else case armor_ioctl (se_jit E) (se_user E) (ucast (rsi (regs s))) (rdx (regs s)) (kern s) of
         Returns (k, r, out) \<Rightarrow>
           Some (s\<lparr>kern := k, mem := apply_output out (mem s),
                  regs := (regs s)\<lparr>rax := word_of_int r, rcx := se_rcx E, r11 := se_r11 E\<rparr>\<rparr>)
       | _ \<Rightarrow> None)"

section \<open>Library calls\<close>

text \<open>
  \<open>armor_lib_enter\<close> up to \<open>return_in_range\<close> and \<open>armor_fd_set\<close>: the value compared with
  the code range is in \<open>r11\<close>.
\<close>

definition in_range :: "wrapper_vars \<Rightarrow> u64 \<Rightarrow> user_state \<Rightarrow> bool \<times> user_state" where
  "in_range V addr s =
    (let s = on_regs (r11_update (\<lambda>_. addr - armor_start_code V) \<circ> r10_update (\<lambda>_. addr_range_code V)) s
     in (r11 (regs s) < armor_range_code V, s))"

definition fd_set :: "wrapper_vars \<Rightarrow> user_state \<Rightarrow> bool \<times> user_state" where
  "fd_set V s = ((ucast (armor_fd V) :: u32) \<noteq> 0, on_regs (r11_update (\<lambda>_. addr_armor_fd V)) s)"

definition setup_ioctl :: "wrapper_vars \<Rightarrow> u32 \<Rightarrow> u64 \<Rightarrow> user_state \<Rightarrow> user_state" where
  "setup_ioctl V cmd arg s =
    on_regs (\<lambda>g. g\<lparr>rax := SYS_IOCTL, rdi := armor_fd V, rsi := ucast cmd, rdx := arg\<rparr>) s"

definition push_args :: "user_state \<Rightarrow> user_state" where
  "push_args s =
    (let s = pushq (rdi (regs s)) s; s = pushq (rsi (regs s)) s; s = pushq (rdx (regs s)) s;
         s = pushq (rcx (regs s)) s; s = pushq (r8 (regs s)) s; s = pushq (r9 (regs s)) s
     in s)"

definition pop_args :: "user_state \<Rightarrow> user_state" where
  "pop_args s =
    (let s = popq (\<lambda>v. r9_update (\<lambda>_. v)) s; s = popq (\<lambda>v. r8_update (\<lambda>_. v)) s; s = popq (\<lambda>v. rcx_update (\<lambda>_. v)) s;
         s = popq (\<lambda>v. rdx_update (\<lambda>_. v)) s; s = popq (\<lambda>v. rsi_update (\<lambda>_. v)) s; s = popq (\<lambda>v. rdi_update (\<lambda>_. v)) s
     in s)"

text \<open>
  The second half of both stubs: a slot for the return address, the registers, the
  ioctl, the registers back, and \<open>ret\<close>.
\<close>

definition leave_stub :: "wrapper_vars \<Rightarrow> syscall_env \<Rightarrow> u32 \<Rightarrow> u64 \<Rightarrow> user_state \<Rightarrow> (u64 \<times> user_state) option" where
  "leave_stub V E cmd dummy s =
    (let s = pushq dummy s; s = push_args s; s = pushq (rax (regs s)) s
     in case syscall V E (setup_ioctl V cmd (rsp (regs s) + 0x38) s) of
          None \<Rightarrow> None
        | Some s \<Rightarrow> Some (retq (pop_args (popq (\<lambda>v. rax_update (\<lambda>_. v)) s))))"

definition armor_lib_enter ::
  "wrapper_vars \<Rightarrow> syscall_env \<Rightarrow> (u64 \<Rightarrow> user_state \<Rightarrow> user_state option) \<Rightarrow> u64 \<Rightarrow> user_state \<Rightarrow> (u64 \<times> user_state) option" where
  "armor_lib_enter V E code lib_function_returned s =
    (case in_range V (mem s (rsp (regs s) + 0x8)) s of (inside, s) \<Rightarrow>
     if \<not> inside then Some (retq s)
     else case fd_set V s of (fd, s) \<Rightarrow>
     if \<not> fd then Some (retq s)
     else
       let s = push_args s
       in case syscall V E (setup_ioctl V ARMOR_IOC_LIB_ENTER (mem s (rsp (regs s) + 0x38)) s) of
            None \<Rightarrow> None
          | Some s \<Rightarrow>
              let s = pop_args s;
                  s = popq (\<lambda>v. r10_update (\<lambda>_. v)) s;
                  s = popq (\<lambda>v. r11_update (\<lambda>_. v)) s
              in case callq code lib_function_returned (r10 (regs s)) s of
                   None \<Rightarrow> None
                 | Some s \<Rightarrow> leave_stub V E ARMOR_IOC_LIB_EXIT 0xdead s)"

section \<open>Callbacks and threads\<close>

definition armor_cbk_pthread_hook ::
  "wrapper_vars \<Rightarrow> syscall_env \<Rightarrow> (u64 \<Rightarrow> user_state \<Rightarrow> user_state option) \<Rightarrow> u64 \<Rightarrow> user_state \<Rightarrow> (u64 \<times> user_state) option" where
  "armor_cbk_pthread_hook V E code cbk_target_return s =
    (case syscall V E (setup_ioctl V ARMOR_IOC_CALLBACK_ENTER (r11 (regs s)) s) of
       None \<Rightarrow> None
     | Some s \<Rightarrow>
         let s = on_regs (\<lambda>g. g\<lparr>rsp := rsp g + 0x8\<rparr>) s;
             s = popq (\<lambda>v. rdi_update (\<lambda>_. v)) s; s = popq (\<lambda>v. rsi_update (\<lambda>_. v)) s; s = popq (\<lambda>v. rdx_update (\<lambda>_. v)) s;
             s = popq (\<lambda>v. rcx_update (\<lambda>_. v)) s; s = popq (\<lambda>v. r9_update (\<lambda>_. v)) s; s = popq (\<lambda>v. r8_update (\<lambda>_. v)) s;
             s = popq (\<lambda>v. rax_update (\<lambda>_. v)) s;
             s = on_regs (\<lambda>g. g\<lparr>rsp := mem s (rsp g)\<rparr>) s
         in case callq code cbk_target_return (r10 (regs s)) s of
              None \<Rightarrow> None
            | Some s \<Rightarrow> leave_stub V E ARMOR_IOC_CALLBACK_EXIT 0xcafe s)"

definition armor_cbk_enter ::
  "wrapper_vars \<Rightarrow> syscall_env \<Rightarrow> (u64 \<Rightarrow> user_state \<Rightarrow> user_state option) \<Rightarrow> u64 \<Rightarrow> user_state \<Rightarrow> (u64 \<times> user_state) option" where
  "armor_cbk_enter V E code cbk_target_return s =
    (case in_range V (rdi (regs s)) s of (inside, s) \<Rightarrow>
     if \<not> inside then Some (retq s)
     else case fd_set V s of (fd, s) \<Rightarrow>
     if \<not> fd then Some (retq s)
     else
       let s = on_regs (\<lambda>g. g\<lparr>r10 := rdi g\<rparr>) s;
           s = popq (\<lambda>v. r11_update (\<lambda>_. v)) s;
           s = on_regs (\<lambda>g. g\<lparr>r11 := r11 g + 18\<rparr>) s;
           s = on_regs (\<lambda>g. g\<lparr>r11 := r11 g + rsi g\<rparr>) s
       in armor_cbk_pthread_hook V E code cbk_target_return s)"

definition armor_pthread_enter ::
  "wrapper_vars \<Rightarrow> syscall_env \<Rightarrow> (u64 \<Rightarrow> user_state \<Rightarrow> user_state option) \<Rightarrow> u64 \<Rightarrow> user_state \<Rightarrow> (u64 \<times> user_state) option" where
  "armor_pthread_enter V E code cbk_target_return s =
    (let s = on_regs (\<lambda>g. g\<lparr>r10 := rsi g\<rparr>) s;
         s = on_regs (\<lambda>g. g\<lparr>r11 := mem s (rsp g)\<rparr>) s;
         s = pushq (rsp (regs s)) s;
         s = pushq (rax (regs s)) s; s = pushq (r8 (regs s)) s; s = pushq (r9 (regs s)) s;
         s = pushq (rcx (regs s)) s; s = pushq (rdx (regs s)) s; s = pushq (rsi (regs s)) s; s = pushq (rdi (regs s)) s;
         s = on_regs (\<lambda>g. g\<lparr>rsp := rsp g - 0x8\<rparr>) s
     in armor_cbk_pthread_hook V E code cbk_target_return s)"

section \<open>Running the stubs\<close>

lemma ucast_cmd [simp]: "ucast (ucast (c :: u32) :: u64) = c"
  by (rule bit_word_eqI) (simp add: bit_ucast_iff)

lemma rsp_same: "rsp_update (\<lambda>_. rsp g) g = g"
  by (cases g) simp

lemma sp_arith:
  "(sp :: u64) - 8 - 8 = sp - 16" "sp - 16 - 8 = sp - 24" "sp - 24 - 8 = sp - 32" "sp - 32 - 8 = sp - 40" "sp - 40 - 8 = sp - 48"
  "sp - 48 - 8 = sp - 56" "sp - 56 - 8 = sp - 64" "sp - 64 - 8 = sp - 72"
  "sp - 72 + 8 = sp - 64" "sp - 64 + 8 = sp - 56" "sp - 56 + 8 = sp - 48" "sp - 48 + 8 = sp - 40" "sp - 40 + 8 = sp - 32" "sp - 32 + 8 = sp - 24"
  "sp - 24 + 8 = sp - 16" "sp - 16 + 8 = sp - 8" "sp - 64 + 0x38 = sp - 8" "sp - 48 + 0x38 = sp + 8"
  by simp_all

text \<open>The cells below a stack pointer that a stub may use.\<close>

definition scratch :: "u64 \<Rightarrow> u64 set" where
  "scratch sp = {sp - 8, sp - 16, sp - 24, sp - 32, sp - 40, sp - 48, sp - 56, sp - 64, sp - 72}"

lemmas stub_defs = push_args_def pop_args_def pushq_def popq_def retq_def setup_ioctl_def syscall_def apply_output_def Let_def

lemma leave_stub_run:
  fixes s :: user_state
  defines "sp \<equiv> rsp (regs s)"
  assumes "armor_ioctl (se_jit E) (se_user E) cmd (sp - 8) (kern s) = Returns (k, r, [(sp - 8, UWords [v])])"
  shows "\<exists>m. leave_stub V E cmd dummy s = Some (v, s\<lparr>regs := (regs s)\<lparr>r11 := se_r11 E\<rparr>, mem := m, kern := k\<rparr>) \<and>
    (\<forall>a. a \<notin> scratch sp \<longrightarrow> m a = mem s a)"
proof -
  have "(regs s)\<lparr>r11 := se_r11 E, rsp := sp\<rparr> = (regs s)\<lparr>r11 := se_r11 E\<rparr>"
    using rsp_same [of "(regs s)\<lparr>r11 := se_r11 E\<rparr>"] by (simp add: sp_def)
  note eq = this
  define m where "m = (mem s)(sp - 16 := rdi (regs s), sp - 24 := rsi (regs s), sp - 32 := rdx (regs s), sp - 40 := rcx (regs s),
    sp - 48 := r8 (regs s), sp - 56 := r9 (regs s), sp - 64 := rax (regs s), sp - 8 := v)"
  have "leave_stub V E cmd dummy s = Some (v, s\<lparr>regs := (regs s)\<lparr>r11 := se_r11 E\<rparr>, mem := m, kern := k\<rparr>)"
    using assms(2) by (simp add: leave_stub_def stub_defs sp_def [symmetric] sp_arith eq m_def)
  moreover have "\<forall>a. a \<notin> scratch sp \<longrightarrow> m a = mem s a" by (simp add: m_def scratch_def)
  ultimately show ?thesis by blast
qed

text \<open>\<open>LIB_ENTER\<close> stores the return address, \<open>LIB_EXIT\<close> writes it to the slot.\<close>

lemma lib_enter_call:
  assumes "wf_lib k" "current k \<noteq> NULL" "table_room (lib_data k) (current k)" "length (lib_stacks k (current k)) < STACKSIZE" "ret \<noteq> 0"
  shows "\<exists>k'. armor_ioctl J U ARMOR_IOC_LIB_ENTER ret k = Returns (k', 0, []) \<and> wf_lib k' \<and> current k' = current k \<and>
    killed k' = killed k \<and> lib_stacks k' = (lib_stacks k)(current k := ret # lib_stacks k (current k)) \<and>
    my_msrs k' = (my_msrs k)(MSR_IA32_DEBUGCTLMSR := 0)"
proof -
  let ?k = "stat (\<lambda>s. s\<lparr>st_lib_enter := st_lib_enter s + 1\<rparr>) k"
  have "cpu (lib_init ret ?k) = cpu k" by (simp add: lib_init_def split_beta)
  then show ?thesis
    using lib_init_refines [of ?k ret] assms by (simp add: armor_ioctl_def ioctl_lib_enter_def wrmsrl_def)
qed

lemma lib_exit_call:
  assumes "wf_lib k" "current k \<noteq> NULL" "lib_stacks k (current k) = ret # xs" "slot \<noteq> 0"
  shows "\<exists>k'. armor_ioctl J U ARMOR_IOC_LIB_EXIT slot k = Returns (k', 0, [(slot, UWords [ret])]) \<and> wf_lib k' \<and> killed k' = killed k \<and>
    lib_stacks k' = (lib_stacks k)(current k := xs) \<and> my_msrs k' = (my_msrs k)(MSR_IA32_DEBUGCTLMSR := IA32_DEBUGCTL)"
proof -
  let ?k = "stat (\<lambda>s. s\<lparr>st_lib_return := st_lib_return s + 1\<rparr>) k"
  have "cpu (fst (lib_exit ?k)) = cpu k" by (simp add: lib_exit_def split: option.splits)
  moreover have "ARMOR_IOC_LIB_EXIT \<noteq> ARMOR_IOC_LIB_ENTER" by (simp add: ioc_consts)
  ultimately show ?thesis
    using lib_exit_refines [of ?k ret xs] assms by (simp add: armor_ioctl_def ioctl_lib_exit_def wrmsrl_def split_beta Let_def)
qed

text \<open>A call from outside the target, or before the device is open, goes on in the library function.\<close>

lemma lib_wrapper_passes:
  fixes s :: user_state
  defines "sp \<equiv> rsp (regs s)"
  assumes "\<not> mem s (sp + 8) - armor_start_code V < armor_range_code V \<or> (ucast (armor_fd V) :: u32) = 0"
  shows "\<exists>x y. armor_lib_enter V E code fr s = Some (mem s sp, s\<lparr>regs := (regs s)\<lparr>r10 := x, r11 := y, rsp := sp + 8\<rparr>\<rparr>)"
  using assms(2) by (auto simp: armor_lib_enter_def in_range_def fd_set_def retq_def sp_def)

lemma lib_enter_half:
  fixes s :: user_state
  defines "sp \<equiv> rsp (regs s)"
  assumes range: "mem s (sp + 8) - armor_start_code V < armor_range_code V" and fd: "(ucast (armor_fd V) :: u32) \<noteq> 0"
    and call: "armor_ioctl (se_jit E) (se_user E) ARMOR_IOC_LIB_ENTER (mem s (sp + 8)) (kern s) = Returns (k, 0, [])"
  shows "\<exists>m. (\<forall>a. a \<notin> scratch sp \<longrightarrow> m a = mem s a) \<and>
    armor_lib_enter V E code fr s =
      (case code (mem s sp) (s\<lparr>kern := k, regs := (regs s)\<lparr>rax := 0, rsp := sp + 8, r10 := mem s sp, r11 := mem s (sp + 8)\<rparr>,
                              mem := m(sp + 8 := fr)\<rparr>) of
         None \<Rightarrow> None
       | Some s \<Rightarrow> leave_stub V E ARMOR_IOC_LIB_EXIT 0xdead s)"
proof -
  define m where "m = (mem s)(sp - 8 := rdi (regs s), sp - 16 := rsi (regs s), sp - 24 := rdx (regs s), sp - 32 := rcx (regs s),
    sp - 40 := r8 (regs s), sp - 48 := r9 (regs s))"
  have "armor_lib_enter V E code fr s =
      (case code (mem s sp) (s\<lparr>kern := k, regs := (regs s)\<lparr>rax := 0, rsp := sp + 8, r10 := mem s sp, r11 := mem s (sp + 8)\<rparr>,
                              mem := m(sp + 8 := fr)\<rparr>) of
         None \<Rightarrow> None
       | Some s \<Rightarrow> leave_stub V E ARMOR_IOC_LIB_EXIT 0xdead s)"
    using range fd call
    by (simp add: armor_lib_enter_def in_range_def fd_set_def callq_def stub_defs sp_def [symmetric] sp_arith m_def)
  moreover have "\<forall>a. a \<notin> scratch sp \<longrightarrow> m a = mem s a" by (simp add: m_def scratch_def)
  ultimately show ?thesis by blast
qed

text \<open>
  What the library function has to do: return, in the same task, and leave the pending
  library calls of the task as they are (its own ones are finished).
\<close>

definition lib_balanced :: "(user_state \<Rightarrow> user_state option) \<Rightarrow> bool" where
  "lib_balanced f \<longleftrightarrow> (\<forall>s s'. f s = Some s' \<longrightarrow> wf_lib (kern s) \<longrightarrow>
     rsp (regs s') = rsp (regs s) + 8 \<and> current (kern s') = current (kern s) \<and> wf_lib (kern s') \<and>
     lib_stacks (kern s') (current (kern s)) = lib_stacks (kern s) (current (kern s)))"

text \<open>
  C6: The wrapper of a library call.  Called at the start of a library function by code
  of the target, the stub runs the function in a state in which the stack pointer and
  the six argument registers are those of the call, the return address is in the stub,
  branches are not recorded, and only \<open>rax\<close>, \<open>r10\<close>, \<open>r11\<close> and cells below the stack
  pointer have changed.  When the function returns, the stub goes to the return address
  of the call with the stack pointer behind it, with the function's result and
  registers but \<open>r11\<close>, with the pending library calls of the task as before, and with
  recording switched on.
\<close>

theorem lib_wrapper_transparent:
  fixes s :: user_state
  defines "sp \<equiv> rsp (regs s)" and "R \<equiv> mem s (rsp (regs s) + 8)" and "t \<equiv> current (kern s)"
  assumes range: "R - armor_start_code V < armor_range_code V" and fd: "(ucast (armor_fd V) :: u32) \<noteq> 0"
    and k: "wf_lib (kern s)" "t \<noteq> NULL" "table_room (lib_data (kern s)) t" "length (lib_stacks (kern s) t) < STACKSIZE"
    and R: "R \<noteq> 0" "sp + 8 \<noteq> 0" and lib: "lib_balanced (code (mem s sp))"
  shows "\<exists>m k1. let s1 = s\<lparr>kern := k1, regs := (regs s)\<lparr>rax := 0, rsp := sp + 8, r10 := mem s sp, r11 := R\<rparr>, mem := m(sp + 8 := fr)\<rparr> in
    (\<forall>a. a \<notin> scratch sp \<longrightarrow> m a = mem s a) \<and> my_msrs k1 MSR_IA32_DEBUGCTLMSR = 0 \<and> lib_stacks k1 t = R # lib_stacks (kern s) t \<and>
    (case code (mem s sp) s1 of
       None \<Rightarrow> armor_lib_enter V E code fr s = None
     | Some s2 \<Rightarrow> \<exists>m' k2. armor_lib_enter V E code fr s = Some (R, s2\<lparr>regs := (regs s2)\<lparr>r11 := se_r11 E\<rparr>, mem := m', kern := k2\<rparr>) \<and>
         rsp (regs s2) = sp + 16 \<and> (\<forall>a. a \<notin> scratch (sp + 16) \<longrightarrow> m' a = mem s2 a) \<and> killed k2 = killed (kern s2) \<and>
         lib_stacks k2 t = lib_stacks (kern s) t \<and> my_msrs k2 = (my_msrs (kern s2))(MSR_IA32_DEBUGCTLMSR := IA32_DEBUGCTL))"
proof -
  obtain k1 where e: "armor_ioctl (se_jit E) (se_user E) ARMOR_IOC_LIB_ENTER R (kern s) = Returns (k1, 0, [])" and k1: "wf_lib k1" "current k1 = t"
      "lib_stacks k1 = (lib_stacks (kern s))(t := R # lib_stacks (kern s) t)" "my_msrs k1 = (my_msrs (kern s))(MSR_IA32_DEBUGCTLMSR := 0)"
    using lib_enter_call [OF k [unfolded t_def] R(1)] unfolding t_def by blast
  from lib_enter_half [OF range [unfolded R_def] fd e [unfolded R_def], folded sp_def R_def] obtain m where
    m: "\<forall>a. a \<notin> scratch sp \<longrightarrow> m a = mem s a" and run: "armor_lib_enter V E code fr s =
      (case code (mem s sp) (s\<lparr>kern := k1, regs := (regs s)\<lparr>rax := 0, rsp := sp + 8, r10 := mem s sp, r11 := R\<rparr>, mem := m(sp + 8 := fr)\<rparr>) of
         None \<Rightarrow> None | Some s \<Rightarrow> leave_stub V E ARMOR_IOC_LIB_EXIT 0xdead s)"
    unfolding sp_def R_def by blast
  let ?s1 = "s\<lparr>kern := k1, regs := (regs s)\<lparr>rax := 0, rsp := sp + 8, r10 := mem s sp, r11 := R\<rparr>, mem := m(sp + 8 := fr)\<rparr>"
  have after: "\<exists>m' k2. armor_lib_enter V E code fr s = Some (R, s2\<lparr>regs := (regs s2)\<lparr>r11 := se_r11 E\<rparr>, mem := m', kern := k2\<rparr>) \<and>
         rsp (regs s2) = sp + 16 \<and> (\<forall>a. a \<notin> scratch (sp + 16) \<longrightarrow> m' a = mem s2 a) \<and> killed k2 = killed (kern s2) \<and>
         lib_stacks k2 t = lib_stacks (kern s) t \<and> my_msrs k2 = (my_msrs (kern s2))(MSR_IA32_DEBUGCTLMSR := IA32_DEBUGCTL)"
    if s2: "code (mem s sp) ?s1 = Some s2" for s2
  proof -
    have b: "rsp (regs s2) = sp + 16" "current (kern s2) = t" "wf_lib (kern s2)" "lib_stacks (kern s2) t = R # lib_stacks (kern s) t"
      using lib s2 k1 unfolding lib_balanced_def by fastforce+
    have "rsp (regs s2) - 8 \<noteq> 0" using b(1) R(2) by (simp add: add.commute)
    with lib_exit_call [OF b(3), of R "lib_stacks (kern s) t" "rsp (regs s2) - 8" "se_jit E" "se_user E"] b(2,4) k(2)
    obtain k2 where x: "armor_ioctl (se_jit E) (se_user E) ARMOR_IOC_LIB_EXIT (rsp (regs s2) - 8) (kern s2) = Returns (k2, 0, [(rsp (regs s2) - 8, UWords [R])])"
      "killed k2 = killed (kern s2)" "lib_stacks k2 t = lib_stacks (kern s) t" "my_msrs k2 = (my_msrs (kern s2))(MSR_IA32_DEBUGCTLMSR := IA32_DEBUGCTL)"
      by auto
    from leave_stub_run [OF x(1), of V "0xdead"] show ?thesis using x(2-4) b(1) s2 run by auto
  qed
  show ?thesis
    by (rule exI [of _ m], rule exI [of _ k1]) (use m k1 run after in \<open>auto simp: Let_def split: option.split\<close>)
qed

section \<open>Running callbacks\<close>

lemma cbk_enter_call:
  assumes sv: "served J A k" and k: "wf_cbk k" "current k \<noteq> NULL" "table_room (cbk_data k) (current k)" "length (cbk_stacks k (current k)) < STACKSIZE"
  shows "\<exists>k'. armor_ioctl J U ARMOR_IOC_CALLBACK_ENTER ret k = Returns (k', 0, []) \<and> wf_cbk k' \<and> current k' = current k \<and>
    killed k' = killed k \<and> cbk_stacks k' = (cbk_stacks k)(current k := (ret, lbr_view (my_msrs k)) # cbk_stacks k (current k)) \<and>
    my_msrs k' = flush_lbr True (my_msrs k)"
proof -
  let ?k = "stat (\<lambda>s. s\<lparr>st_cbk_enter := st_cbk_enter s + 1\<rparr>) k"
  have "served J A ?k" using sv by (simp add: served_def)
  note f = validate_served_frame [OF this]
  let ?v = "validate_lbr J ?k"
  have c: "cbk_data ?v = cbk_data k" "current ?v = current k" "killed ?v = killed k" "my_msrs ?v = my_msrs k"
    using f by simp_all
  have r: "wf_cbk ?v" "current ?v \<noteq> NULL" "table_room (cbk_data ?v) (current ?v)" "length (cbk_stacks ?v (current ?v)) < STACKSIZE"
    using c k by simp_all
  have "current (cbk_init ret ?v) = current ?v" by (simp add: cbk_init_def split_beta)
  then have "wf_cbk (cbk_init ret ?v) \<and> current (cbk_init ret ?v) = current k \<and> killed (cbk_init ret ?v) = killed k \<and>
      cbk_stacks (cbk_init ret ?v) = (cbk_stacks k)(current k := (ret, lbr_view (my_msrs k)) # cbk_stacks k (current k)) \<and>
      my_msrs (cbk_init ret ?v) = flush_lbr True (my_msrs k)"
    using cbk_init_refines [OF r, of ret] unfolding c by simp
  moreover have "armor_ioctl J U ARMOR_IOC_CALLBACK_ENTER ret k = Returns (cbk_init ret ?v, 0, [])"
    by (simp add: armor_ioctl_def ioctl_callback_enter_def ioc_consts IO_def ARMOR_IOC_MAGIC_def)
  ultimately show ?thesis by blast
qed

lemma cbk_exit_call:
  assumes "wf_cbk k" "current k \<noteq> NULL" "cbk_stacks k (current k) = (ret, v) # xs" "slot \<noteq> 0"
  shows "\<exists>k'. armor_ioctl J U ARMOR_IOC_CALLBACK_EXIT slot k = Returns (k', 0, [(slot, UWords [ret])]) \<and> wf_cbk k' \<and> killed k' = killed k \<and>
    cbk_stacks k' = (cbk_stacks k)(current k := xs) \<and> lbr_view (my_msrs k') = v"
proof -
  let ?k = "stat (\<lambda>s. s\<lparr>st_cbk_return := st_cbk_return s + 1\<rparr>) k"
  have "armor_ioctl J U ARMOR_IOC_CALLBACK_EXIT slot k = Returns (fst (cbk_exit ?k), 0, [(slot, UWords [snd (cbk_exit ?k)])])"
    using assms(4) by (simp add: armor_ioctl_def ioctl_callback_exit_def ioc_consts IO_def ARMOR_IOC_MAGIC_def split_beta Let_def)
  then show ?thesis using cbk_exit_refines [of ?k ret v xs] assms(1-3) by simp
qed

definition cbk_balanced :: "(user_state \<Rightarrow> user_state option) \<Rightarrow> bool" where
  "cbk_balanced f \<longleftrightarrow> (\<forall>s s'. f s = Some s' \<longrightarrow> wf_cbk (kern s) \<longrightarrow>
     rsp (regs s') = rsp (regs s) + 8 \<and> current (kern s') = current (kern s) \<and> wf_cbk (kern s') \<and>
     cbk_stacks (kern s') (current (kern s)) = cbk_stacks (kern s) (current (kern s)))"

text \<open>The registers that the hook takes from the frame that starts at \<open>f\<close>.\<close>

definition frame_regs :: "(u64 \<Rightarrow> u64) \<Rightarrow> u64 \<Rightarrow> stub_regs \<Rightarrow> stub_regs" where
  "frame_regs m f g = g\<lparr>rdi := m f, rsi := m (f + 8), rdx := m (f + 16), rcx := m (f + 24), r9 := m (f + 32), r8 := m (f + 40),
     rax := m (f + 48), rsp := m (f + 56) - 8\<rparr>"

lemma hook_half:
  fixes s :: user_state
  defines "sp \<equiv> rsp (regs s)"
  assumes call: "armor_ioctl (se_jit E) (se_user E) ARMOR_IOC_CALLBACK_ENTER (r11 (regs s)) (kern s) = Returns (k, 0, [])"
  shows "armor_cbk_pthread_hook V E code cr s =
    (case code (r10 (regs s)) (s\<lparr>kern := k, regs := frame_regs (mem s) (sp + 8) ((regs s)\<lparr>r11 := se_r11 E\<rparr>),
                                mem := (mem s)(mem s (sp + 64) - 8 := cr)\<rparr>) of
       None \<Rightarrow> None
     | Some s \<Rightarrow> leave_stub V E ARMOR_IOC_CALLBACK_EXIT 0xcafe s)"
  using call by (simp add: armor_cbk_pthread_hook_def callq_def stub_defs frame_regs_def sp_def [symmetric] sp_arith add.commute [of sp 64])

text \<open>The hook as a whole, for a target that returns.\<close>

lemma hook_run:
  fixes s :: user_state
  defines "t \<equiv> current (kern s)" and "f \<equiv> rsp (regs s) + 8"
  assumes sv: "served (se_jit E) A (kern s)"
    and k: "wf_cbk (kern s)" "t \<noteq> NULL" "table_room (cbk_data (kern s)) t" "length (cbk_stacks (kern s) t) < STACKSIZE"
    and O: "mem s (f + 56) - 8 \<noteq> 0" and bal: "cbk_balanced (code (r10 (regs s)))"
  shows "\<exists>k1. let s1 = s\<lparr>kern := k1, regs := frame_regs (mem s) f ((regs s)\<lparr>r11 := se_r11 E\<rparr>), mem := (mem s)(mem s (f + 56) - 8 := cr)\<rparr> in
    my_msrs k1 = flush_lbr True (my_msrs (kern s)) \<and>
    (case code (r10 (regs s)) s1 of
       None \<Rightarrow> armor_cbk_pthread_hook V E code cr s = None
     | Some s2 \<Rightarrow> \<exists>m k2. armor_cbk_pthread_hook V E code cr s = Some (r11 (regs s), s2\<lparr>regs := (regs s2)\<lparr>r11 := se_r11 E\<rparr>, mem := m, kern := k2\<rparr>) \<and>
         rsp (regs s2) = mem s (f + 56) \<and> (\<forall>a. a \<notin> scratch (mem s (f + 56)) \<longrightarrow> m a = mem s2 a) \<and>
         killed k2 = killed (kern s2) \<and> cbk_stacks k2 t = cbk_stacks (kern s) t \<and> lbr_view (my_msrs k2) = lbr_view (my_msrs (kern s)))"
proof -
  let ?R = "r11 (regs s)"
  obtain k1 where e: "armor_ioctl (se_jit E) (se_user E) ARMOR_IOC_CALLBACK_ENTER ?R (kern s) = Returns (k1, 0, [])" and k1: "wf_cbk k1" "current k1 = t"
      "cbk_stacks k1 = (cbk_stacks (kern s))(t := (?R, lbr_view (my_msrs (kern s))) # cbk_stacks (kern s) t)" "my_msrs k1 = flush_lbr True (my_msrs (kern s))"
    using cbk_enter_call [OF sv k [unfolded t_def]] unfolding t_def by blast
  let ?s1 = "s\<lparr>kern := k1, regs := frame_regs (mem s) f ((regs s)\<lparr>r11 := se_r11 E\<rparr>), mem := (mem s)(mem s (f + 56) - 8 := cr)\<rparr>"
  have f: "rsp (regs s) + 64 = f + 56" by (simp add: f_def)
  have run: "armor_cbk_pthread_hook V E code cr s =
      (case code (r10 (regs s)) ?s1 of None \<Rightarrow> None | Some s \<Rightarrow> leave_stub V E ARMOR_IOC_CALLBACK_EXIT 0xcafe s)"
    using hook_half [OF e, of V code cr] unfolding f f_def [symmetric] .
  have after: "\<exists>m k2. armor_cbk_pthread_hook V E code cr s = Some (?R, s2\<lparr>regs := (regs s2)\<lparr>r11 := se_r11 E\<rparr>, mem := m, kern := k2\<rparr>) \<and>
         rsp (regs s2) = mem s (f + 56) \<and> (\<forall>a. a \<notin> scratch (mem s (f + 56)) \<longrightarrow> m a = mem s2 a) \<and>
         killed k2 = killed (kern s2) \<and> cbk_stacks k2 t = cbk_stacks (kern s) t \<and> lbr_view (my_msrs k2) = lbr_view (my_msrs (kern s))"
    if s2: "code (r10 (regs s)) ?s1 = Some s2" for s2
  proof -
    have "rsp (regs ?s1) = mem s (f + 56) - 8" by (simp add: frame_regs_def)
    then have b: "rsp (regs s2) = mem s (f + 56)" "current (kern s2) = t" "wf_cbk (kern s2)"
        "cbk_stacks (kern s2) t = (?R, lbr_view (my_msrs (kern s))) # cbk_stacks (kern s) t"
      using bal s2 k1 unfolding cbk_balanced_def by fastforce+
    have "rsp (regs s2) - 8 \<noteq> 0" using b(1) O by simp
    with cbk_exit_call [OF b(3), of ?R "lbr_view (my_msrs (kern s))" "cbk_stacks (kern s) t" "rsp (regs s2) - 8" "se_jit E" "se_user E"] b(2,4) k(2)
    obtain k2 where x: "armor_ioctl (se_jit E) (se_user E) ARMOR_IOC_CALLBACK_EXIT (rsp (regs s2) - 8) (kern s2) = Returns (k2, 0, [(rsp (regs s2) - 8, UWords [?R])])"
      "killed k2 = killed (kern s2)" "cbk_stacks k2 t = cbk_stacks (kern s) t" "lbr_view (my_msrs k2) = lbr_view (my_msrs (kern s))"
      by auto
    from leave_stub_run [OF x(1), of V "0xcafe"] show ?thesis using x(2-4) b(1) s2 run by auto
  qed
  show ?thesis
    by (rule exI [of _ k1]) (use k1 run after in \<open>auto simp: Let_def split: option.split\<close>)
qed

text \<open>
  C17: The wrapper of a callback.  In front of an indirect call of a library into the
  target, the stub restores the registers and the stack pointer that the instrumentation
  saved and calls the target itself, with a flushed LBR.  When the target returns, the
  stub continues behind the original call instruction (18 bytes of restore code and the
  call are skipped), with the stack pointer of the library, the target's registers but
  \<open>r11\<close>, and the LBR of the library code.
\<close>

theorem callback_wrapper_transparent:
  fixes s :: user_state
  defines "sp \<equiv> rsp (regs s)" and "t \<equiv> current (kern s)"
  defines "f \<equiv> sp + 16" and "ret \<equiv> mem s sp + 18 + rsi (regs s)" and "target \<equiv> rdi (regs s)"
  assumes range: "target - armor_start_code V < armor_range_code V" and fd: "(ucast (armor_fd V) :: u32) \<noteq> 0"
    and sv: "served (se_jit E) A (kern s)"
    and k: "wf_cbk (kern s)" "t \<noteq> NULL" "table_room (cbk_data (kern s)) t" "length (cbk_stacks (kern s) t) < STACKSIZE"
    and O: "mem s (f + 56) - 8 \<noteq> 0" and bal: "cbk_balanced (code target)"
  shows "\<exists>k1. let s1 = s\<lparr>kern := k1, regs := frame_regs (mem s) f ((regs s)\<lparr>r10 := target, r11 := se_r11 E\<rparr>), mem := (mem s)(mem s (f + 56) - 8 := cr)\<rparr> in
    my_msrs k1 = flush_lbr True (my_msrs (kern s)) \<and>
    (case code target s1 of
       None \<Rightarrow> armor_cbk_enter V E code cr s = None
     | Some s2 \<Rightarrow> \<exists>m k2. armor_cbk_enter V E code cr s = Some (ret, s2\<lparr>regs := (regs s2)\<lparr>r11 := se_r11 E\<rparr>, mem := m, kern := k2\<rparr>) \<and>
         rsp (regs s2) = mem s (f + 56) \<and> (\<forall>a. a \<notin> scratch (mem s (f + 56)) \<longrightarrow> m a = mem s2 a) \<and>
         killed k2 = killed (kern s2) \<and> cbk_stacks k2 t = cbk_stacks (kern s) t \<and> lbr_view (my_msrs k2) = lbr_view (my_msrs (kern s)))"
proof -
  define s0 where "s0 = s\<lparr>regs := (regs s)\<lparr>r10 := target, rsp := sp + 8, r11 := ret\<rparr>\<rparr>"
  have run: "armor_cbk_enter V E code cr s = armor_cbk_pthread_hook V E code cr s0"
    using range fd by (simp add: armor_cbk_enter_def in_range_def fd_set_def popq_def Let_def s0_def sp_def ret_def target_def)
  have e: "kern s0 = kern s" "mem s0 = mem s" "r10 (regs s0) = target" "r11 (regs s0) = ret" "rsp (regs s0) + 8 = f"
    "frame_regs (mem s) f ((regs s0)\<lparr>r11 := se_r11 E\<rparr>) = frame_regs (mem s) f ((regs s)\<lparr>r10 := target, r11 := se_r11 E\<rparr>)"
    "s0\<lparr>kern := k1, regs := g, mem := m\<rparr> = s\<lparr>kern := k1, regs := g, mem := m\<rparr>" for k1 g m
    by (simp_all add: s0_def f_def frame_regs_def)
  show ?thesis
    using hook_run [of E A s0 code cr V, unfolded e] sv k O bal unfolding run t_def by blast
qed

text \<open>
  C40: The wrapper of a thread leaves its caller with a wrong stack pointer.  The thread
  function gets its argument and runs as a callback, and the stub returns to its caller;
  but the address it returns to is still on the stack, so the stack pointer is eight
  bytes below what a returning call leaves.
\<close>

theorem pthread_wrapper_unbalanced:
  fixes s :: user_state
  defines "sp \<equiv> rsp (regs s)" and "t \<equiv> current (kern s)"
  assumes sv: "served (se_jit E) A (kern s)"
    and k: "wf_cbk (kern s)" "t \<noteq> NULL" "table_room (cbk_data (kern s)) t" "length (cbk_stacks (kern s) t) < STACKSIZE"
    and O: "sp - 8 \<noteq> 0" and bal: "cbk_balanced (code (rsi (regs s)))"
    and returns: "\<And>s1. code (rsi (regs s)) s1 \<noteq> None"
  shows "\<exists>s1 s2 s3. code (rsi (regs s)) s1 = Some s2 \<and> rdi (regs s1) = rdi (regs s) \<and> rsp (regs s1) = sp - 8 \<and>
    armor_pthread_enter V E code cr s = Some (mem s sp, s3) \<and> rax (regs s3) = rax (regs s2) \<and> rsp (regs s3) = sp"
proof -
  define s0 where "s0 = s\<lparr>mem := (mem s)(sp - 8 := sp, sp - 16 := rax (regs s), sp - 24 := r8 (regs s), sp - 32 := r9 (regs s),
      sp - 40 := rcx (regs s), sp - 48 := rdx (regs s), sp - 56 := rsi (regs s), sp - 64 := rdi (regs s)),
    regs := (regs s)\<lparr>r10 := rsi (regs s), r11 := mem s sp, rsp := sp - 72\<rparr>\<rparr>"
  have run: "armor_pthread_enter V E code cr s = armor_cbk_pthread_hook V E code cr s0"
    by (simp add: armor_pthread_enter_def pushq_def Let_def s0_def sp_def [symmetric] sp_arith)
  define f where "f = sp - 64"
  have e: "kern s0 = kern s" "r10 (regs s0) = rsi (regs s)" "r11 (regs s0) = mem s sp" "rsp (regs s0) + 8 = f"
      "mem s0 (f + 56) = sp" "mem s0 f = rdi (regs s)"
    by (simp_all add: s0_def f_def sp_arith)
  have "mem s0 (f + 56) - 8 \<noteq> 0" using O by (simp add: e)
  define s1 where "s1 k = s0\<lparr>kern := k, regs := frame_regs (mem s0) f ((regs s0)\<lparr>r11 := se_r11 E\<rparr>), mem := (mem s0)(sp - 8 := cr)\<rparr>" for k
  from hook_run [of E A s0 code cr V, unfolded e, folded s1_def, unfolded Let_def] sv k O bal
  obtain k1 where k1: "case code (rsi (regs s)) (s1 k1) of None \<Rightarrow> armor_cbk_pthread_hook V E code cr s0 = None
     | Some s2 \<Rightarrow> \<exists>m k2. armor_cbk_pthread_hook V E code cr s0 = Some (mem s sp, s2\<lparr>regs := (regs s2)\<lparr>r11 := se_r11 E\<rparr>, mem := m, kern := k2\<rparr>) \<and>
         rsp (regs s2) = sp \<and> (\<forall>a. a \<notin> scratch sp \<longrightarrow> m a = mem s2 a) \<and>
         killed k2 = killed (kern s2) \<and> cbk_stacks k2 t = cbk_stacks (kern s) t \<and> lbr_view (my_msrs k2) = lbr_view (my_msrs (kern s))"
    unfolding t_def by blast
  obtain s2 where s2: "code (rsi (regs s)) (s1 k1) = Some s2" using returns by blast
  with k1 obtain m k2 where "armor_cbk_pthread_hook V E code cr s0 = Some (mem s sp, s2\<lparr>regs := (regs s2)\<lparr>r11 := se_r11 E\<rparr>, mem := m, kern := k2\<rparr>)"
    "rsp (regs s2) = sp" by auto
  moreover have "rdi (regs (s1 k1)) = rdi (regs s)" "rsp (regs (s1 k1)) = sp - 8" by (simp_all add: s1_def frame_regs_def e)
  ultimately show ?thesis unfolding run using s2 by fastforce
qed

section \<open>Examples\<close>

text \<open>A function that returns 5, in a task with one pending stack frame.\<close>

definition return_5 :: "u64 \<Rightarrow> user_state \<Rightarrow> user_state option" where
  "return_5 a s = Some (on_regs (\<lambda>g. g\<lparr>rax := 5, rsp := rsp g + 8\<rparr>) s)"

definition demo_vars :: wrapper_vars where
  "demo_vars = \<lparr>armor_fd = 3, armor_start_code = 0x400000, armor_range_code = 0x7f0000000000 - 0x400000, addr_armor_fd = 0x601000,
     addr_start_code = 0x601008, addr_range_code = 0x601010\<rparr>"

definition demo_syscalls :: syscall_env where
  "demo_syscalls = \<lparr>se_jit = demo_env (\<lambda>_. 1), se_user = demo_user, se_rcx = 0, se_r11 = 0x246\<rparr>"

definition demo_caller :: user_state where
  "demo_caller = \<lparr>regs = demo_regs\<lparr>rdi := 0x400800, rsi := 0x400800\<rparr>,
     mem = (\<lambda>_. 0)(0x7000 := 0x7f1234567000, 0x7008 := 0x400500, 0x7048 := 0x7100), kern = boot_kernel\<lparr>current := 7\<rparr>\<rparr>"

lemma return_5_balanced: "lib_balanced (return_5 a)" "cbk_balanced (return_5 a)"
  by (auto simp: lib_balanced_def cbk_balanced_def return_5_def)

lemma demo_caller_tables:
  "wf_lib (kern demo_caller)" "wf_cbk (kern demo_caller)" "current (kern demo_caller) \<noteq> NULL"
  "table_room (lib_data (kern demo_caller)) (current (kern demo_caller))" "table_room (cbk_data (kern demo_caller)) (current (kern demo_caller))"
  "length (lib_stacks (kern demo_caller) (current (kern demo_caller))) < STACKSIZE"
  "length (cbk_stacks (kern demo_caller) (current (kern demo_caller))) < STACKSIZE"
  "served (se_jit demo_syscalls) (\<lambda>_. 1) (kern demo_caller)"
  by (simp_all add: demo_caller_def demo_syscalls_def boot_tables LIB_CACHE_SIZE_def CBK_CACHE_SIZE_def STACKSIZE_def served_def demo_env_def)

theorem lib_wrapper_transparent_witness:
  "\<exists>s'. armor_lib_enter demo_vars demo_syscalls return_5 0x7f0000001000 demo_caller = Some (0x400500, s') \<and> rax (regs s') = 5 \<and> rsp (regs s') = 0x7010"
proof -
  have "mem demo_caller (rsp (regs demo_caller) + 8) = 0x400500" "rsp (regs demo_caller) = 0x7000"
    by (simp_all add: demo_caller_def demo_regs_def)
  then show ?thesis
    using lib_wrapper_transparent [where s = demo_caller and V = demo_vars and code = return_5 and E = demo_syscalls and fr = "0x7f0000001000"] demo_caller_tables return_5_balanced
    by (auto simp: demo_vars_def Let_def return_5_def)
qed

theorem callback_wrapper_transparent_witness:
  "\<exists>s'. armor_cbk_enter demo_vars demo_syscalls return_5 0x7f0000002000 (demo_caller\<lparr>regs := (regs demo_caller)\<lparr>rsi := 2\<rparr>\<rparr>) =
     Some (0x7f1234567014, s') \<and> rax (regs s') = 5 \<and> rsp (regs s') = 0x7100"
proof -
  let ?s = "demo_caller\<lparr>regs := (regs demo_caller)\<lparr>rsi := 2\<rparr>\<rparr>"
  have "mem demo_caller (rsp (regs demo_caller) + 16 + 56) = 0x7100" "rdi (regs demo_caller) = 0x400800"
    "mem demo_caller (rsp (regs demo_caller)) = 0x7f1234567000"
    by (simp_all add: demo_caller_def demo_regs_def)
  then show ?thesis
    using callback_wrapper_transparent [where s = ?s and V = demo_vars and code = return_5 and E = demo_syscalls and cr = "0x7f0000002000" and A = "\<lambda>_. 1"]
      demo_caller_tables return_5_balanced
    by (auto simp: demo_vars_def Let_def return_5_def)
qed

theorem pthread_wrapper_unbalanced_witness:
  "\<exists>s'. armor_pthread_enter demo_vars demo_syscalls return_5 0x7f0000002000 demo_caller = Some (0x7f1234567000, s') \<and> rsp (regs s') = 0x7000"
proof -
  have "mem demo_caller (rsp (regs demo_caller)) = 0x7f1234567000" "rsp (regs demo_caller) = 0x7000"
    by (simp_all add: demo_caller_def demo_regs_def)
  moreover have "return_5 a s \<noteq> None" for a s by (simp add: return_5_def)
  ultimately show ?thesis
    using pthread_wrapper_unbalanced [where s = demo_caller and V = demo_vars and code = return_5 and E = demo_syscalls and cr = "0x7f0000002000" and A = "\<lambda>_. 1"]
      demo_caller_tables return_5_balanced
    by auto
qed

end
