(* ===== verification/Wrapper_Start.thy ===== *)
theory Wrapper_Start
  imports Wrapper_Stubs
begin

text \<open>
  The C part of the wrapper library (\<open>src/shared/wrappers.c\<close>): what happens between
  \<open>__libc_start_main\<close> and the target's \<open>main\<close>, and the replacement of
  \<open>pthread_create\<close>.  The environment of a process is the record \<open>process_env\<close>: its
  arguments and environment variables, the addresses of the stubs and of local
  variables, and the descriptor that \<open>util_safeio_get_fd\<close> makes of the opened device.
\<close>

section \<open>Starting the target\<close>

record process_env =
  pe_jit :: jit_env
  pe_user :: user_env
  pe_argv0 :: string
  pe_initialized :: bool
  pe_fd :: int
  pe_load_from :: u64
  pe_addr_tocopy :: u64
  pe_addr_code :: u64
  pe_addr_armor_fd :: u64
  pe_addr_start_code :: u64
  pe_addr_range_code :: u64
  pe_cbk_target_call :: u64
  pe_lib_enter :: u64
  pe_lib_return :: u64
  pe_pthread_create :: u64
  pe_pthread_create_marker :: u64
  pe_armor_pthread :: u64

text \<open>Control goes on, the process exits, or a system call does not return.\<close>

datatype 'a process = Goes 'a kernel | Exits kernel | Stuck

definition ARMOR_END_CODE :: u64 where "ARMOR_END_CODE = 0x7f0000000000"

definition initial_vars :: "process_env \<Rightarrow> wrapper_vars" where
  "initial_vars P = \<lparr>armor_fd = 0, armor_start_code = 0, armor_range_code = ARMOR_END_CODE,
     addr_armor_fd = pe_addr_armor_fd P, addr_start_code = pe_addr_start_code P, addr_range_code = pe_addr_range_code P\<rparr>"

fun strstr :: "string \<Rightarrow> string \<Rightarrow> bool" where
  "strstr [] needle = (needle = [])"
| "strstr (c # cs) needle = (take (length needle) (c # cs) = needle \<or> strstr cs needle)"

definition copy_struct :: "process_env \<Rightarrow> u64 \<Rightarrow> lbr_paths_kernel_copy" where
  "copy_struct P load_from = \<lparr>kc_paths = NULL, kc_size = 0, kc_indirect_call_source = pe_cbk_target_call P, kc_load_from = load_from,
     kc_armor_lib_enter = pe_lib_enter P, kc_armor_lib_return = pe_lib_return P, kc_pthread_create = pe_pthread_create P,
     kc_pthread_create_return = pe_pthread_create_marker P - 1\<rparr>"

definition initialize_armor :: "process_env \<Rightarrow> u64 \<Rightarrow> kernel \<Rightarrow> int process" where
  "initialize_armor P load_from k =
    (let U = pe_user P; (k, r) = armor_open U k; fd = (if r < 0 then - 1 else pe_fd P)
     in if fd < 0 then Exits k
        else if load_from = 0 then
          (case armor_ioctl (pe_jit P) U ARMOR_IOC_INIT 42 k of Returns (k, _, _) \<Rightarrow> Goes fd k | _ \<Rightarrow> Stuck)
        else
          let U = U\<lparr>in_tocopy := (in_tocopy U)(pe_addr_tocopy P := (copy_struct P load_from, snd (in_tocopy U (pe_addr_tocopy P))))\<rparr>
          in case armor_ioctl (pe_jit P) U ARMOR_IOC_COPY_PATHS (pe_addr_tocopy P) k of
               Returns (k, ret, _) \<Rightarrow> if ret \<noteq> 0 then Exits k else Goes fd k
             | _ \<Rightarrow> Stuck)"

text \<open>\<open>armor_main\<close> up to the call of the target's \<open>main\<close>, with the variables the target then finds.  The buffer \<open>code\<close> is on the stack, so its address is not 42.\<close>

definition armor_main :: "process_env \<Rightarrow> kernel \<Rightarrow> wrapper_vars process" where
  "armor_main P k =
    (if strstr (pe_argv0 P) ''di-opt'' then Goes (initial_vars P) k
     else if pe_initialized P then
       (case initialize_armor P 0 k of
          Goes fd k \<Rightarrow> Goes ((initial_vars P)\<lparr>armor_fd := word_of_int fd\<rparr>) k
        | Exits k \<Rightarrow> Exits k
        | Stuck \<Rightarrow> Stuck)
     else
       (case initialize_armor P (pe_load_from P) k of
          Goes fd k \<Rightarrow>
            (case armor_ioctl (pe_jit P) (pe_user P) ARMOR_IOC_INIT (pe_addr_code P) k of
               Returns (k, ret, [(_, UWords [start, _])]) \<Rightarrow>
                 if ret \<noteq> 0 then Exits k
                 else Goes ((initial_vars P)\<lparr>armor_fd := word_of_int fd, armor_start_code := start,
                              armor_range_code := ARMOR_END_CODE - start\<rparr>) k
             | Returns (k, ret, _) \<Rightarrow> Exits k
             | _ \<Rightarrow> Stuck)
        | Exits k \<Rightarrow> Exits k
        | Stuck \<Rightarrow> Stuck))"

section \<open>Starting threads\<close>

text \<open>
  \<open>real_create start arg k\<close> is the C library's \<open>pthread_create\<close>; \<open>data\<close> is the block
  that \<open>malloc\<close> returns for \<open>struct armor_pthread_data\<close>.
\<close>

definition pthread_create :: "process_env \<Rightarrow> wrapper_vars \<Rightarrow> (u64 \<Rightarrow> u64 \<Rightarrow> kernel \<Rightarrow> int \<times> kernel) \<Rightarrow> u64 option \<Rightarrow>
    u64 \<Rightarrow> u64 \<Rightarrow> kernel \<Rightarrow> int process" where
  "pthread_create P V real_create data start_routine arg k =
    (case armor_ioctl (pe_jit P) (pe_user P) ARMOR_IOC_LIB_ENTER 0 k of
       Returns (k, _, _) \<Rightarrow>
         (let wrap = (ucast (armor_fd V) :: u32) \<noteq> 0 \<and> start_routine > armor_start_code V \<and> start_routine < ARMOR_END_CODE
          in if wrap \<and> data = None then Exits k
             else let (ret, k) = (if wrap then real_create (pe_armor_pthread P) (the data) k else real_create start_routine arg k)
                  in case armor_ioctl (pe_jit P) (pe_user P) ARMOR_IOC_LIB_EXIT 0 k of
                       Returns (k, _, _) \<Rightarrow> Goes ret k
                     | _ \<Rightarrow> Stuck)
     | _ \<Rightarrow> Stuck)"

section \<open>What is established\<close>

lemma init_command: "armor_ioctl J U ARMOR_IOC_INIT a k = ioctl_init U a k"
  by (simp add: armor_ioctl_def ioc_consts IO_def ARMOR_IOC_MAGIC_def)

lemma copy_command: "armor_ioctl J U ARMOR_IOC_COPY_PATHS a k = ioctl_copy_paths U a k"
  by (simp add: armor_ioctl_def ioc_consts IO_def ARMOR_IOC_MAGIC_def)

text \<open>One unsigned comparison decides both bounds.\<close>

lemma range_test:
  fixes a lo hi :: u64
  assumes "lo \<le> hi"
  shows "a - lo < hi - lo \<longleftrightarrow> lo \<le> a \<and> a < hi"
proof -
  have "unat hi < 2 ^ 64" using unsigned_less [of hi] by simp
  then show ?thesis using assms by (simp add: word_less_nat_alt word_le_nat_alt unat_sub_if') auto
qed

lemma initialize_first:
  fixes P :: process_env and k :: kernel
  defines "U \<equiv> pe_user P"
  assumes "armor_initialized k \<or> crypto_ok U" "pe_fd P \<ge> 0" "lf \<noteq> 0" "snd (in_tocopy U (pe_addr_tocopy P)) = 0" "kmalloc_ok U 0 0"
  shows "\<exists>k1. initialize_armor P lf k = Goes (pe_fd P) k1 \<and> tocopy k1 = copy_struct P lf \<and> main_task k1 = current k \<and>
    target_started k1 = (if armor_initialized k then target_started k else 0) + 1 \<and> current k1 = current k \<and> start_code k1 = start_code k"
proof -
  have "kc_paths (copy_struct P lf) = 0" "kc_size (copy_struct P lf) = 0" by (simp_all add: copy_struct_def)
  then show ?thesis
    using assms(2-6) by (auto simp: initialize_armor_def armor_open_def U_def copy_command ioctl_copy_paths_def Let_def split_beta)
qed

lemma init_keeps:
  "ioctl_init U a k = Returns (k', r, out) \<Longrightarrow> tocopy k' = tocopy k \<and> main_task k' = main_task k \<and> target_started k' = target_started k"
  by (auto simp: ioctl_init_def copy_out_def init_lbr_cache_def set_personality_def Let_def split: if_splits)

text \<open>
  C18: Starting the target.  When the target of the protection starts for the first time
  and its system calls succeed, then at the call of its \<open>main\<close> the module knows the
  addresses of the stubs, has the task as the main task and has signalled the analyzer;
  the task is supervised, the LBR is empty and enabled on every CPU and validation is
  switched on.  The comparison that the stubs make with the variables of the wrapper is
  the test that an address lies between the start of the target's code and the upper
  bound.
\<close>

theorem target_start_supervised:
  fixes P :: process_env and k :: kernel
  defines "U \<equiv> pe_user P"
  assumes first: "\<not> strstr (pe_argv0 P) ''di-opt''" "\<not> pe_initialized P" "pe_load_from P \<noteq> 0" "pe_addr_code P \<noteq> 42"
    and opens: "armor_initialized k \<or> crypto_ok U" "pe_fd P \<ge> 0"
    and copies: "snd (in_tocopy U (pe_addr_tocopy P)) = 0" "kmalloc_ok U 0 0" "copy_to_user U (pe_addr_code P) 16 = 0"
    and code: "start_code k (current k) \<le> ARMOR_END_CODE"
  shows "\<exists>V k'. armor_main P k = Goes V k' \<and> tocopy k' = copy_struct P (pe_load_from P) \<and> main_task k' = current k \<and>
    target_started k' = (if armor_initialized k then target_started k else 0) + 1 \<and> supervised k' (current k) \<and>
    (\<forall>c. lbr_view (msrs k' c) = (IA32_DEBUGCTL, LBR_SELECT, 0, replicate LBR_ENTRIES 0, replicate LBR_ENTRIES 0)) \<and>
    \<not> disable_jit k' \<and> armor_fd V = word_of_int (pe_fd P) \<and>
    (\<forall>a. a - armor_start_code V < armor_range_code V \<longleftrightarrow> start_code k (current k) \<le> a \<and> a < ARMOR_END_CODE)"
proof -
  obtain k1 where i: "initialize_armor P (pe_load_from P) k = Goes (pe_fd P) k1" and k1: "tocopy k1 = copy_struct P (pe_load_from P)" "main_task k1 = current k"
      "target_started k1 = (if armor_initialized k then target_started k else 0) + 1" "current k1 = current k" "start_code k1 = start_code k"
    using initialize_first [of k P "pe_load_from P"] opens copies first(3) unfolding U_def by blast
  obtain k' where c: "armor_ioctl (pe_jit P) U ARMOR_IOC_INIT (pe_addr_code P) k1 =
        Returns (k', 0, [(pe_addr_code P, UWords [start_code k (current k), end_code k1 (current k)])])"
      and k': "supervised k' (current k)" "\<not> disable_jit k'"
        "\<forall>c. lbr_view (msrs k' c) = (IA32_DEBUGCTL, LBR_SELECT, 0, replicate LBR_ENTRIES 0, replicate LBR_ENTRIES 0)"
    using init_establishes [OF first(4) copies(3), of "pe_jit P" k1] unfolding k1 by blast
  let ?V = "(initial_vars P)\<lparr>armor_fd := word_of_int (pe_fd P), armor_start_code := start_code k (current k),
    armor_range_code := ARMOR_END_CODE - start_code k (current k)\<rparr>"
  have "armor_main P k = Goes ?V k'" using first(1,2) i c by (simp add: armor_main_def U_def)
  moreover have "tocopy k' = tocopy k1 \<and> main_task k' = main_task k1 \<and> target_started k' = target_started k1"
    using init_keeps c unfolding init_command by blast
  ultimately show ?thesis using k1 k' range_test [OF code] by simp
qed

definition demo_process :: process_env where
  "demo_process = \<lparr>pe_jit = demo_env (\<lambda>_. 1), pe_user = demo_user, pe_argv0 = ''./nginx'', pe_initialized = False, pe_fd = 1000,
     pe_load_from = 0x7f0000003000, pe_addr_tocopy = 0x7f10, pe_addr_code = 0x7f80, pe_addr_armor_fd = 0x601000, pe_addr_start_code = 0x601008,
     pe_addr_range_code = 0x601010, pe_cbk_target_call = 0x7f0000003100, pe_lib_enter = 0x7f0000003200, pe_lib_return = 0x7f0000003300,
     pe_pthread_create = 0x7f0000003400, pe_pthread_create_marker = 0x7f0000003500, pe_armor_pthread = 0x7f0000003600\<rparr>"

theorem target_start_supervised_witness:
  "\<exists>V k'. armor_main demo_process (boot_kernel\<lparr>current := 7\<rparr>) = Goes V k' \<and> supervised k' 7 \<and> main_task k' = 7 \<and> target_started k' = 1"
proof -
  have "\<not> strstr (pe_argv0 demo_process) ''di-opt''" by (simp add: demo_process_def)
  then show ?thesis
    using target_start_supervised [of demo_process "boot_kernel\<lparr>current := 7\<rparr>"]
    by (auto simp: demo_process_def demo_user_def boot_kernel_def ARMOR_END_CODE_def)
qed

text \<open>A thread is started without a trace in the LBR; the wrapped routine is the one inside the target.\<close>

lemma pthread_create_silent:
  assumes "pthread_create P V real_create data start arg k = Goes ret k'" "\<And>s a k. cpu (snd (real_create s a k)) = cpu k"
  shows "my_msrs k' MSR_IA32_DEBUGCTLMSR = IA32_DEBUGCTL \<and> (\<exists>k1. my_msrs k1 MSR_IA32_DEBUGCTLMSR = 0 \<and>
    (if (ucast (armor_fd V) :: u32) \<noteq> 0 \<and> armor_start_code V < start \<and> start < ARMOR_END_CODE
     then \<exists>d. data = Some d \<and> ret = fst (real_create (pe_armor_pthread P) d k1) else ret = fst (real_create start arg k1)))"
proof -
  have ne: "ARMOR_IOC_LIB_EXIT \<noteq> ARMOR_IOC_LIB_ENTER" by (simp add: ioc_consts)
  show ?thesis
    using assms(1) ne
    by (auto simp: pthread_create_def armor_ioctl_def ioctl_lib_enter_def ioctl_lib_exit_def wrmsrl_def Let_def split_beta split: if_splits option.splits
        intro!: exI)
qed

end
