(* ===== verification/Paths_Memory.thy ===== *)
theory Paths_Memory
  imports Lbr_Paths
begin

text \<open>
  The serialisation of the valid paths into one region of memory and back
  (\<open>lbr_sizeof_paths\<close>, \<open>lbr_pack_paths\<close>, \<open>lbr_link_paths\<close>, \<open>write_paths\<close> and \<open>read_paths\<close>
  in \<open>src/include/patharmor/lbr-state.h\<close>).

  Memory holds whole objects, each at the address where it starts; addresses are
  natural numbers, since no allocation wraps around.  \<open>memcpy\<close> moves every object
  that starts in the source range.  \<open>paths_value\<close> reads a structure back through
  its pointers: it is what a serialisation has to preserve.
\<close>

section \<open>Memory\<close>

type_synonym ptr = nat

record paths_hdr =
  ph_funcs :: nat
  ph_func :: ptr
  ph_ats :: nat
  ph_address_taken :: ptr
  ph_state_maps :: nat
  ph_state_map :: ptr

record map_hdr =
  mh_to :: u64
  mh_states :: nat
  mh_state :: ptr

datatype cell =
    CPaths paths_hdr
  | CFunc lbr_function
  | CAt u64
  | CMap map_hdr
  | CState lbr_valid_state

type_synonym memory = "ptr \<Rightarrow> cell option"

definition sizeof_lbr_paths :: nat where "sizeof_lbr_paths = 48"
definition sizeof_lbr_function :: nat where "sizeof_lbr_function = 24"
definition sizeof_uint64 :: nat where "sizeof_uint64 = 8"
definition sizeof_state_map :: nat where "sizeof_state_map = 24"
definition sizeof_valid_state :: nat where "sizeof_valid_state = 272"

definition the_hdr :: "cell option \<Rightarrow> paths_hdr" where
  "the_hdr c = (case c of Some (CPaths h) \<Rightarrow> h | _ \<Rightarrow> \<lparr>ph_funcs = 0, ph_func = 0, ph_ats = 0, ph_address_taken = 0,
     ph_state_maps = 0, ph_state_map = 0\<rparr>)"

definition the_map :: "cell option \<Rightarrow> map_hdr" where
  "the_map c = (case c of Some (CMap d) \<Rightarrow> d | _ \<Rightarrow> \<lparr>mh_to = 0, mh_states = 0, mh_state = 0\<rparr>)"

definition memcpy :: "memory \<Rightarrow> ptr \<Rightarrow> ptr \<Rightarrow> nat \<Rightarrow> memory" where
  "memcpy m dst src len = (\<lambda>a. if dst \<le> a \<and> a < dst + len then m (src + (a - dst)) else m a)"

text \<open>The \<open>i\<close>-th element of the array of state maps.\<close>

definition map_at :: "memory \<Rightarrow> ptr \<Rightarrow> nat \<Rightarrow> map_hdr" where
  "map_at m a i = the_map (m (a + i * sizeof_state_map))"

section \<open>Operations\<close>

definition lbr_sizeof_paths :: "memory \<Rightarrow> ptr \<Rightarrow> nat" where
  "lbr_sizeof_paths m paths =
    (let h = the_hdr (m paths)
     in fold (\<lambda>i size. size + mh_states (map_at m (ph_state_map h) i) * sizeof_valid_state) [0..<ph_state_maps h]
          (sizeof_lbr_paths + ph_funcs h * sizeof_lbr_function + ph_ats h * sizeof_uint64
            + ph_state_maps h * sizeof_state_map))"

definition link_map :: "ptr \<Rightarrow> nat \<Rightarrow> memory \<times> ptr \<Rightarrow> memory \<times> ptr" where
  "link_map maps i w =
    (let (m, p) = w; d = map_at m maps i
     in (m(maps + i * sizeof_state_map \<mapsto> CMap (d\<lparr>mh_state := p\<rparr>)), p + mh_states d * sizeof_valid_state))"

definition lbr_link_paths :: "memory \<Rightarrow> ptr \<Rightarrow> memory" where
  "lbr_link_paths m paths =
    (let h = the_hdr (m paths);
         p = paths + sizeof_lbr_paths;
         h = h\<lparr>ph_func := p\<rparr>; p = p + ph_funcs h * sizeof_lbr_function;
         h = h\<lparr>ph_address_taken := p\<rparr>; p = p + ph_ats h * sizeof_uint64;
         h = h\<lparr>ph_state_map := p\<rparr>; p = p + ph_state_maps h * sizeof_state_map
     in fst (fold (link_map (ph_state_map h)) [0..<ph_state_maps h] (m(paths \<mapsto> CPaths h), p)))"

definition pack_map :: "ptr \<Rightarrow> nat \<Rightarrow> memory \<times> ptr \<Rightarrow> memory \<times> ptr" where
  "pack_map maps i w =
    (let (m, p) = w; d = map_at m maps i; len = mh_states d * sizeof_valid_state
     in (memcpy m p (mh_state d) len, p + len))"

text \<open>\<open>packed\<close> is the address that \<open>my_malloc\<close> returned.\<close>

definition lbr_pack_paths :: "memory \<Rightarrow> ptr \<Rightarrow> ptr \<Rightarrow> memory" where
  "lbr_pack_paths m paths packed =
    (let h = the_hdr (m paths); p = packed;
         m = memcpy m p paths sizeof_lbr_paths; p = p + sizeof_lbr_paths;
         m = memcpy m p (ph_func h) (ph_funcs h * sizeof_lbr_function); p = p + ph_funcs h * sizeof_lbr_function;
         m = memcpy m p (ph_address_taken h) (ph_ats h * sizeof_uint64); p = p + ph_ats h * sizeof_uint64;
         m = memcpy m p (ph_state_map h) (ph_state_maps h * sizeof_state_map); p = p + ph_state_maps h * sizeof_state_map;
         m = fst (fold (pack_map (ph_state_map h)) [0..<ph_state_maps h] (m, p))
     in lbr_link_paths m packed)"

text \<open>
  A file as the objects at their offsets.  Opening, seeking and reading can fail;
  \<open>base\<close> is where \<open>my_malloc\<close> puts the contents.
\<close>

type_synonym paths_file = "nat \<times> (nat \<Rightarrow> cell option)"

definition write_paths :: "bool \<Rightarrow> memory \<Rightarrow> ptr \<Rightarrow> (paths_file option) \<times> int" where
  "write_paths io_ok m paths =
    (if \<not> io_ok then (None, 1)
     else (Some (lbr_sizeof_paths m paths,
        \<lambda>off. if off < lbr_sizeof_paths m paths then m (paths + off) else None), 0))"

definition read_paths :: "bool \<Rightarrow> paths_file option \<Rightarrow> memory \<Rightarrow> ptr \<Rightarrow> memory option" where
  "read_paths io_ok f m base =
    (case f of
       None \<Rightarrow> None
     | Some (len, contents) \<Rightarrow>
         if \<not> io_ok then None
         else Some (lbr_link_paths (\<lambda>a. if base \<le> a \<and> a < base + len then contents (a - base) else m a) base))"

section \<open>The value of a structure\<close>

text \<open>The functions, the address-taken entries, and for each map its target and its states.\<close>

definition paths_value ::
  "memory \<Rightarrow> ptr \<Rightarrow> cell option list \<times> cell option list \<times> (u64 \<times> cell option list) list" where
  "paths_value m paths =
    (let h = the_hdr (m paths)
     in (map (\<lambda>i. m (ph_func h + i * sizeof_lbr_function)) [0..<ph_funcs h],
         map (\<lambda>i. m (ph_address_taken h + i * sizeof_uint64)) [0..<ph_ats h],
         map (\<lambda>i. let d = map_at m (ph_state_map h) i
                  in (mh_to d, map (\<lambda>j. m (mh_state d + j * sizeof_valid_state)) [0..<mh_states d]))
           [0..<ph_state_maps h]))"

text \<open>The objects a structure consists of are where its pointers say.\<close>

definition valid_paths :: "memory \<Rightarrow> ptr \<Rightarrow> bool" where
  "valid_paths m paths \<longleftrightarrow> (\<exists>h. m paths = Some (CPaths h)
     \<and> (\<forall>i < ph_state_maps h. \<exists>d. m (ph_state_map h + i * sizeof_state_map) = Some (CMap d)))"

text \<open>The arrays of a structure, as pairs of address and size.\<close>

definition path_arrays :: "memory \<Rightarrow> ptr \<Rightarrow> (ptr \<times> nat) list" where
  "path_arrays m paths =
    (let h = the_hdr (m paths)
     in [(paths, sizeof_lbr_paths), (ph_func h, ph_funcs h * sizeof_lbr_function),
         (ph_address_taken h, ph_ats h * sizeof_uint64), (ph_state_map h, ph_state_maps h * sizeof_state_map)]
        @ map (\<lambda>i. let d = map_at m (ph_state_map h) i in (mh_state d, mh_states d * sizeof_valid_state)) [0..<ph_state_maps h])"

definition apart :: "ptr \<times> nat \<Rightarrow> ptr \<times> nat \<Rightarrow> bool" where
  "apart x y \<longleftrightarrow> fst x + snd x \<le> fst y \<or> fst y + snd y \<le> fst x"

section \<open>Copying arrays one after the other\<close>

fun copy_all :: "memory \<Rightarrow> ptr \<Rightarrow> (ptr \<times> nat) list \<Rightarrow> memory" where
  "copy_all m q [] = m"
| "copy_all m q ((src, len) # segs) = copy_all (memcpy m q src len) (q + len) segs"

abbreviation seg_start :: "(ptr \<times> nat) list \<Rightarrow> nat \<Rightarrow> nat" where
  "seg_start segs k \<equiv> sum_list (map snd (take k segs))"

lemma copy_all_append: "copy_all m q (xs @ ys) = copy_all (copy_all m q xs) (q + sum_list (map snd xs)) ys"
  by (induction m q xs rule: copy_all.induct) (simp_all add: add.assoc)

lemma copy_all_outside: "a < q \<or> q + sum_list (map snd segs) \<le> a \<Longrightarrow> copy_all m q segs a = m a"
  by (induction m q segs rule: copy_all.induct) (auto simp: memcpy_def)

lemma memcpy_apart: "apart (q, len) (s, l) \<Longrightarrow> off < l \<Longrightarrow> memcpy m q src len (s + off) = m (s + off)"
  by (auto simp: memcpy_def apart_def)

lemma copy_all_inside:
  assumes "\<And>s. s \<in> set segs \<Longrightarrow> apart (q, sum_list (map snd segs)) s" "k < length segs" "off < snd (segs ! k)"
  shows "copy_all m q segs (q + seg_start segs k + off) = m (fst (segs ! k) + off)"
  using assms
proof (induction m q segs arbitrary: k rule: copy_all.induct)
  case (2 m q src len segs)
  show ?case
  proof (cases k)
    case 0
    then show ?thesis using "2.prems"(3) copy_all_outside [of "q + off" "q + len" segs]
      by (simp add: memcpy_def)
  next
    case (Suc j)
    let ?m = "memcpy m q src len"
    have ap: "apart (q + len, sum_list (map snd segs)) s" "apart (q, len) s" if "s \<in> set segs" for s
      using "2.prems"(1) [of s] that by (auto simp: apart_def)
    have j: "j < length segs" "off < snd (segs ! j)" using "2.prems" Suc by simp_all
    have "copy_all ?m (q + len) segs (q + len + seg_start segs j + off) = ?m (fst (segs ! j) + off)"
      using ap(1) j by (intro "2.IH") simp_all
    also have "\<dots> = m (fst (segs ! j) + off)"
      using ap(2) [of "segs ! j"] j by (metis memcpy_apart nth_mem prod.collapse)
    finally show ?thesis using Suc by (simp add: add.assoc)
  qed
qed simp

section \<open>Packing\<close>

lemma pack_map_app:
  "pack_map maps i (m, p) = (let d = map_at m maps i; len = mh_states d * sizeof_valid_state
     in (memcpy m p (mh_state d) len, p + len))"
  by (simp add: pack_map_def)

lemma link_map_app:
  "link_map maps i (m, p) = (let d = map_at m maps i
     in (m(maps + i * sizeof_state_map \<mapsto> CMap (d\<lparr>mh_state := p\<rparr>)), p + mh_states d * sizeof_valid_state))"
  by (simp add: link_map_def)

definition states_len :: "memory \<Rightarrow> ptr \<Rightarrow> nat \<Rightarrow> nat" where
  "states_len m maps n = (\<Sum>i < n. mh_states (map_at m maps i) * sizeof_valid_state)"

lemma states_len_Suc [simp]:
  "states_len m maps 0 = 0"
  "states_len m maps (Suc n) = states_len m maps n + mh_states (map_at m maps n) * sizeof_valid_state"
  by (simp_all add: states_len_def)

lemma sizeof_paths_eq:
  "m paths = Some (CPaths h) \<Longrightarrow> lbr_sizeof_paths m paths =
    sizeof_lbr_paths + ph_funcs h * sizeof_lbr_function + ph_ats h * sizeof_uint64 + ph_state_maps h * sizeof_state_map
      + states_len m (ph_state_map h) (ph_state_maps h)"
proof -
  assume h: "m paths = Some (CPaths h)"
  have "fold (\<lambda>i size. size + mh_states (map_at m a i) * sizeof_valid_state) [0..<n] s = s + states_len m a n" for n s a
    by (induction n) simp_all
  then show ?thesis using h by (simp add: lbr_sizeof_paths_def the_hdr_def)
qed

lemma sum_path_arrays:
  "m paths = Some (CPaths h) \<Longrightarrow> sum_list (map snd (path_arrays m paths)) = lbr_sizeof_paths m paths"
  by (simp add: path_arrays_def sizeof_paths_eq the_hdr_def Let_def states_len_def comp_def
      interv_sum_list_conv_sum_set_nat atLeast0LessThan)

text \<open>
  Reading the maps while the states are being copied gives what was there at the
  start, because the target is apart from them.
\<close>

lemma pack_maps_eq:
  assumes "\<And>i. i < n \<Longrightarrow> map_at m maps i = map_at m0 maps i"
    "apart (q, states_len m0 maps n) (maps, n * sizeof_state_map)"
  shows "fold (pack_map maps) [0..<n] (m, q) =
    (copy_all m q (map (\<lambda>i. let d = map_at m0 maps i in (mh_state d, mh_states d * sizeof_valid_state)) [0..<n]),
     q + states_len m0 maps n)"
  using assms
proof (induction n)
  case (Suc n)
  let ?segs = "map (\<lambda>i. let d = map_at m0 maps i in (mh_state d, mh_states d * sizeof_valid_state)) [0..<n]"
  let ?m = "copy_all m q ?segs"
  have len: "sum_list (map snd ?segs) = states_len m0 maps n"
    by (simp add: Let_def states_len_def comp_def interv_sum_list_conv_sum_set_nat atLeast0LessThan)
  have IH: "fold (pack_map maps) [0..<n] (m, q) = (?m, q + states_len m0 maps n)"
    using Suc.prems by (intro Suc.IH) (auto simp: apart_def)
  have "maps + n * sizeof_state_map < q \<or> q + states_len m0 maps n \<le> maps + n * sizeof_state_map"
    using Suc.prems(2) by (auto simp: apart_def sizeof_state_map_def)
  then have "map_at ?m maps n = map_at m0 maps n"
    using Suc.prems(1) [of n] copy_all_outside [of _ q ?segs m] len by (simp add: map_at_def)
  then show ?case
    using IH len by (simp add: pack_map_app copy_all_append Let_def add.assoc)
qed simp

lemma pack_copy_all:
  assumes "m paths = Some (CPaths h)" "\<And>s. s \<in> set (path_arrays m paths) \<Longrightarrow> apart (q, lbr_sizeof_paths m paths) s"
  shows "lbr_pack_paths m paths q = lbr_link_paths (copy_all m q (path_arrays m paths)) q"
proof -
  define head where "head = [(paths, sizeof_lbr_paths), (ph_func h, ph_funcs h * sizeof_lbr_function),
         (ph_address_taken h, ph_ats h * sizeof_uint64), (ph_state_map h, ph_state_maps h * sizeof_state_map)]"
  let ?n = "ph_state_maps h" and ?maps = "ph_state_map h"
  let ?segs = "map (\<lambda>i. let d = map_at m ?maps i in (mh_state d, mh_states d * sizeof_valid_state)) [0..<?n]"
  let ?q = "q + sum_list (map snd head)" and ?m = "copy_all m q head"
  have arr: "path_arrays m paths = head @ ?segs" using assms(1) by (simp add: path_arrays_def the_hdr_def head_def)
  have sz: "lbr_sizeof_paths m paths = sum_list (map snd head) + states_len m ?maps ?n"
    using sizeof_paths_eq [of m paths h] assms(1) by (simp add: head_def)
  have ap: "apart (q, lbr_sizeof_paths m paths) (?maps, ?n * sizeof_state_map)"
    using assms(2) arr by (simp add: head_def)
  have "map_at ?m ?maps i = map_at m ?maps i" if "i < ?n" for i
  proof -
    have "?maps + i * sizeof_state_map < ?maps + ?n * sizeof_state_map"
      using that by (simp add: sizeof_state_map_def)
    then have "?maps + i * sizeof_state_map < q \<or> ?q \<le> ?maps + i * sizeof_state_map"
      using ap sz unfolding apart_def fst_conv snd_conv by linarith
    then show ?thesis using copy_all_outside [of _ q head m] by (simp add: map_at_def)
  qed
  moreover have "apart (?q, states_len m ?maps ?n) (?maps, ?n * sizeof_state_map)"
    using ap sz by (auto simp: apart_def)
  ultimately have "fst (fold (pack_map ?maps) [0..<?n] (?m, ?q)) = copy_all ?m ?q ?segs"
    using pack_maps_eq [of ?n ?m ?maps m ?q] by simp
  then show ?thesis
    using assms(1) by (simp add: lbr_pack_paths_def arr copy_all_append the_hdr_def head_def Let_def add.assoc)
qed

section \<open>Linking\<close>

lemma link_maps_eq:
  "fold (link_map maps) [0..<n] (m, q) =
    (\<lambda>a. if \<exists>i < n. a = maps + i * sizeof_state_map
         then Some (CMap ((the_map (m a))\<lparr>mh_state := q + states_len m maps ((a - maps) div sizeof_state_map)\<rparr>))
         else m a, q + states_len m maps n)"
proof (induction n)
  case (Suc n)
  let ?g = "\<lambda>a. Some (CMap ((the_map (m a))\<lparr>mh_state := q + states_len m maps ((a - maps) div sizeof_state_map)\<rparr>))"
  let ?m = "\<lambda>k a. if \<exists>i < k. a = maps + i * sizeof_state_map then ?g a else m a"
  have n: "map_at (?m n) maps n = map_at m maps n" by (auto simp: map_at_def sizeof_state_map_def)
  have "(?m n)(maps + n * sizeof_state_map \<mapsto> CMap ((map_at m maps n)\<lparr>mh_state := q + states_len m maps n\<rparr>)) = ?m (Suc n)"
    by (auto simp: fun_eq_iff less_Suc_eq map_at_def sizeof_state_map_def)
  then show ?case by (simp add: Suc.IH link_map_app n Let_def add.assoc)
qed simp

text \<open>Where the arrays are after linking.\<close>

lemma link_value:
  assumes "m q = Some (CPaths h)" "\<forall>i < ph_state_maps h.
      m (q + sizeof_lbr_paths + ph_funcs h * sizeof_lbr_function + ph_ats h * sizeof_uint64 + i * sizeof_state_map) = Some (CMap (d i))"
  defines "f \<equiv> q + sizeof_lbr_paths"
  defines "a \<equiv> f + ph_funcs h * sizeof_lbr_function"
  defines "ms \<equiv> a + ph_ats h * sizeof_uint64"
  defines "s \<equiv> ms + ph_state_maps h * sizeof_state_map"
  shows "paths_value (lbr_link_paths m q) q =
    (map (\<lambda>i. m (f + i * sizeof_lbr_function)) [0..<ph_funcs h],
     map (\<lambda>i. m (a + i * sizeof_uint64)) [0..<ph_ats h],
     map (\<lambda>i. (mh_to (d i), map (\<lambda>j. m (s + (\<Sum>k < i. mh_states (d k) * sizeof_valid_state) + j * sizeof_valid_state))
       [0..<mh_states (d i)])) [0..<ph_state_maps h])"
    and "lbr_sizeof_paths (lbr_link_paths m q) q = sizeof_lbr_paths + ph_funcs h * sizeof_lbr_function
      + ph_ats h * sizeof_uint64 + ph_state_maps h * sizeof_state_map + (\<Sum>k < ph_state_maps h. mh_states (d k) * sizeof_valid_state)"
    and "x < q \<or> s \<le> x \<Longrightarrow> lbr_link_paths m q x = m x"
    and "q < x \<Longrightarrow> x < ms \<Longrightarrow> lbr_link_paths m q x = m x"
    and "lbr_link_paths m q q = Some (CPaths (h\<lparr>ph_func := f, ph_address_taken := a, ph_state_map := ms\<rparr>))"
    and "i < ph_state_maps h \<Longrightarrow> lbr_link_paths m q (ms + i * sizeof_state_map)
      = Some (CMap ((d i)\<lparr>mh_state := s + (\<Sum>k < i. mh_states (d k) * sizeof_valid_state)\<rparr>))"
proof -
  let ?n = "ph_state_maps h" and ?L = "lbr_link_paths m q"
  let ?h = "h\<lparr>ph_func := f, ph_address_taken := a, ph_state_map := ms\<rparr>"
  let ?m = "m(q \<mapsto> CPaths ?h)"
  note lay = f_def a_def ms_def s_def sizeof_lbr_paths_def sizeof_lbr_function_def sizeof_uint64_def sizeof_state_map_def
  have "?L = fst (fold (link_map ms) [0..<?n] (?m, s))"
    using assms(1) by (simp add: lbr_link_paths_def the_hdr_def Let_def lay)
  then have L: "?L = (\<lambda>x. if \<exists>i < ?n. x = ms + i * sizeof_state_map
      then Some (CMap ((the_map (?m x))\<lparr>mh_state := s + states_len ?m ms ((x - ms) div sizeof_state_map)\<rparr>)) else ?m x)"
    by (simp add: link_maps_eq)
  have at: "map_at ?m ms i = d i" if "i < ?n" for i
    using assms(2) that by (simp add: map_at_def the_map_def lay)
  then have sl: "states_len ?m ms i = (\<Sum>k < i. mh_states (d k) * sizeof_valid_state)" if "i \<le> ?n" for i
    unfolding states_len_def using that by (intro sum.cong) auto
  have hd: "?L q = Some (CPaths ?h)" by (auto simp: L lay)
  show "?L q = Some (CPaths (h\<lparr>ph_func := f, ph_address_taken := a, ph_state_map := ms\<rparr>))" using hd .
  have cell: "?L (ms + i * sizeof_state_map) = Some (CMap ((d i)\<lparr>mh_state := s + (\<Sum>k < i. mh_states (d k) * sizeof_valid_state)\<rparr>))"
    if "i < ?n" for i
    using that at [OF that] sl [of i] by (auto simp: map_at_def L sizeof_state_map_def)
  then show "i < ?n \<Longrightarrow> ?L (ms + i * sizeof_state_map)
      = Some (CMap ((d i)\<lparr>mh_state := s + (\<Sum>k < i. mh_states (d k) * sizeof_valid_state)\<rparr>))" .
  have maps: "map_at ?L ms i = (d i)\<lparr>mh_state := s + (\<Sum>k < i. mh_states (d k) * sizeof_valid_state)\<rparr>" if "i < ?n" for i
    using cell [OF that] by (simp add: map_at_def the_map_def)
  have keep: "?L x = m x" if "q < x" "x < ms \<or> s \<le> x" for x
    using that by (auto simp: L lay)
  show "?L x = m x" if "x < q \<or> s \<le> x" using that by (auto simp: L lay)
  show "q < x \<Longrightarrow> x < ms \<Longrightarrow> ?L x = m x" using keep by blast
  have "lbr_sizeof_paths ?L q = sizeof_lbr_paths + ph_funcs h * sizeof_lbr_function + ph_ats h * sizeof_uint64
      + ?n * sizeof_state_map + states_len ?L ms ?n"
    using sizeof_paths_eq [of ?L q ?h] hd by simp
  also have "states_len ?L ms ?n = (\<Sum>k < ?n. mh_states (d k) * sizeof_valid_state)"
    unfolding states_len_def by (intro sum.cong) (simp_all add: maps)
  finally show "lbr_sizeof_paths ?L q = sizeof_lbr_paths + ph_funcs h * sizeof_lbr_function
      + ph_ats h * sizeof_uint64 + ?n * sizeof_state_map + (\<Sum>k < ?n. mh_states (d k) * sizeof_valid_state)" .
  have "?L (f + i * sizeof_lbr_function) = m (f + i * sizeof_lbr_function)" if "i < ph_funcs h" for i
    using that by (intro keep) (auto simp: lay)
  moreover have "?L (a + i * sizeof_uint64) = m (a + i * sizeof_uint64)" if "i < ph_ats h" for i
    using that by (intro keep) (auto simp: lay)
  moreover have "?L (s + x) = m (s + x)" for x by (intro keep) (auto simp: lay)
  ultimately show "paths_value ?L q =
    (map (\<lambda>i. m (f + i * sizeof_lbr_function)) [0..<ph_funcs h],
     map (\<lambda>i. m (a + i * sizeof_uint64)) [0..<ph_ats h],
     map (\<lambda>i. (mh_to (d i), map (\<lambda>j. m (s + (\<Sum>k < i. mh_states (d k) * sizeof_valid_state) + j * sizeof_valid_state))
       [0..<mh_states (d i)])) [0..<?n])"
    using hd by (simp add: paths_value_def the_hdr_def maps Let_def add.assoc)
qed

section \<open>Properties\<close>

lemma states_within:
  fixes f :: "nat \<Rightarrow> nat"
  assumes "i < n" "j < f i" "0 < S"
  shows "(\<Sum>k < i. f k * S) + j * S < (\<Sum>k < n. f k * S)"
proof -
  have "(\<Sum>k < i. f k * S) + j * S < (\<Sum>k < Suc i. f k * S)" using assms(2,3) by simp
  also have "\<dots> \<le> (\<Sum>k < n. f k * S)" using assms(1) by (intro sum_mono2) auto
  finally show ?thesis .
qed

text \<open>The objects of a structure that is copied array by array to \<open>q\<close>.\<close>

lemma copied_layout:
  assumes "valid_paths m paths" "\<And>x. x \<in> set (path_arrays m paths) \<Longrightarrow> apart (q, lbr_sizeof_paths m paths) x"
  defines "h \<equiv> the_hdr (m paths)" and "c \<equiv> copy_all m q (path_arrays m paths)"
  shows "c q = Some (CPaths h)"
    "i < ph_funcs h \<Longrightarrow> c (q + sizeof_lbr_paths + i * sizeof_lbr_function) = m (ph_func h + i * sizeof_lbr_function)"
    "i < ph_ats h \<Longrightarrow> c (q + sizeof_lbr_paths + ph_funcs h * sizeof_lbr_function + i * sizeof_uint64)
      = m (ph_address_taken h + i * sizeof_uint64)"
    "\<forall>i < ph_state_maps h. c (q + sizeof_lbr_paths + ph_funcs h * sizeof_lbr_function + ph_ats h * sizeof_uint64
      + i * sizeof_state_map) = Some (CMap (map_at m (ph_state_map h) i))"
    "i < ph_state_maps h \<Longrightarrow> j < mh_states (map_at m (ph_state_map h) i) \<Longrightarrow>
      c (q + sizeof_lbr_paths + ph_funcs h * sizeof_lbr_function + ph_ats h * sizeof_uint64 + ph_state_maps h * sizeof_state_map
        + states_len m (ph_state_map h) i + j * sizeof_valid_state)
      = m (mh_state (map_at m (ph_state_map h) i) + j * sizeof_valid_state)"
proof -
  have h: "m paths = Some (CPaths h)" "\<And>i. i < ph_state_maps h \<Longrightarrow> \<exists>d. m (ph_state_map h + i * sizeof_state_map) = Some (CMap d)"
    using assms(1) by (auto simp: valid_paths_def h_def the_hdr_def)
  let ?A = "path_arrays m paths"
  have A: "?A = [(paths, sizeof_lbr_paths), (ph_func h, ph_funcs h * sizeof_lbr_function),
      (ph_address_taken h, ph_ats h * sizeof_uint64), (ph_state_map h, ph_state_maps h * sizeof_state_map)]
      @ map (\<lambda>i. let d = map_at m (ph_state_map h) i in (mh_state d, mh_states d * sizeof_valid_state)) [0..<ph_state_maps h]"
    by (simp add: path_arrays_def h_def Let_def)
  have seg: "c (q + seg_start ?A k + off) = m (fst (?A ! k) + off)" if "k < length ?A" "off < snd (?A ! k)" for k off
    unfolding c_def using assms(2) sum_path_arrays [of m paths h] h(1) that by (intro copy_all_inside) auto
  show "c q = Some (CPaths h)" using seg [of 0 0] h(1) by (simp add: A sizeof_lbr_paths_def)
  show "c (q + sizeof_lbr_paths + i * sizeof_lbr_function) = m (ph_func h + i * sizeof_lbr_function)" if "i < ph_funcs h"
    using seg [of 1 "i * sizeof_lbr_function"] that by (simp add: A sizeof_lbr_function_def)
  show "c (q + sizeof_lbr_paths + ph_funcs h * sizeof_lbr_function + i * sizeof_uint64) = m (ph_address_taken h + i * sizeof_uint64)"
    if "i < ph_ats h"
    using seg [of 2 "i * sizeof_uint64"] that by (simp add: A sizeof_uint64_def numeral_2_eq_2 add.assoc)
  have "c (q + sizeof_lbr_paths + ph_funcs h * sizeof_lbr_function + ph_ats h * sizeof_uint64 + i * sizeof_state_map)
      = Some (CMap (map_at m (ph_state_map h) i))" if "i < ph_state_maps h" for i
    using seg [of 3 "i * sizeof_state_map"] h(2) [OF that] that
    by (auto simp: A sizeof_state_map_def numeral_3_eq_3 add.assoc map_at_def the_map_def)
  then show "\<forall>i < ph_state_maps h. c (q + sizeof_lbr_paths + ph_funcs h * sizeof_lbr_function + ph_ats h * sizeof_uint64
      + i * sizeof_state_map) = Some (CMap (map_at m (ph_state_map h) i))" by blast
  show "c (q + sizeof_lbr_paths + ph_funcs h * sizeof_lbr_function + ph_ats h * sizeof_uint64 + ph_state_maps h * sizeof_state_map
      + states_len m (ph_state_map h) i + j * sizeof_valid_state) = m (mh_state (map_at m (ph_state_map h) i) + j * sizeof_valid_state)"
    if "i < ph_state_maps h" "j < mh_states (map_at m (ph_state_map h) i)"
  proof -
    have "seg_start ?A (Suc (Suc (Suc (Suc i)))) = sizeof_lbr_paths + ph_funcs h * sizeof_lbr_function + ph_ats h * sizeof_uint64
        + ph_state_maps h * sizeof_state_map + states_len m (ph_state_map h) i"
      using that(1) by (simp add: A take_map take_upt Let_def comp_def states_len_def interv_sum_list_conv_sum_set_nat
          atLeast0LessThan)
    moreover have "?A ! (Suc (Suc (Suc (Suc i)))) = (mh_state (map_at m (ph_state_map h) i), mh_states (map_at m (ph_state_map h) i) * sizeof_valid_state)"
      using that(1) by (simp add: A nth_append Let_def)
    ultimately show ?thesis
      using seg [of "Suc (Suc (Suc (Suc i)))" "j * sizeof_valid_state"] that by (simp add: A sizeof_valid_state_def add.assoc)
  qed
qed

text \<open>A linked structure whose bytes are moved elsewhere and linked again has the same value.\<close>

lemma relink_value:
  assumes hd: "c q = Some (CPaths h)"
    and maps: "\<forall>i < ph_state_maps h. c (q + sizeof_lbr_paths + ph_funcs h * sizeof_lbr_function
        + ph_ats h * sizeof_uint64 + i * sizeof_state_map) = Some (CMap (d i))"
    and r: "\<And>off. off < lbr_sizeof_paths (lbr_link_paths c q) q \<Longrightarrow> r (b + off) = lbr_link_paths c q (q + off)"
  shows "paths_value (lbr_link_paths r b) b = paths_value (lbr_link_paths c q) q"
proof -
  note lnk = link_value [OF hd maps]
  let ?ms = "sizeof_lbr_paths + ph_funcs h * sizeof_lbr_function + ph_ats h * sizeof_uint64"
  let ?s = "?ms + ph_state_maps h * sizeof_state_map"
  let ?h = "h\<lparr>ph_func := q + sizeof_lbr_paths, ph_address_taken := q + sizeof_lbr_paths + ph_funcs h * sizeof_lbr_function,
      ph_state_map := q + sizeof_lbr_paths + ph_funcs h * sizeof_lbr_function + ph_ats h * sizeof_uint64\<rparr>"
  let ?S = "\<lambda>i. \<Sum>k < i. mh_states (d k) * sizeof_valid_state"
  let ?d = "\<lambda>i. (d i)\<lparr>mh_state := q + sizeof_lbr_paths + ph_funcs h * sizeof_lbr_function + ph_ats h * sizeof_uint64
      + ph_state_maps h * sizeof_state_map + ?S i\<rparr>"
  have szs: "sizeof_lbr_paths = 48" "sizeof_lbr_function = 24" "sizeof_uint64 = 8" "sizeof_state_map = 24"
    by (simp_all add: sizeof_lbr_paths_def sizeof_lbr_function_def sizeof_uint64_def sizeof_state_map_def)
  have r1: "r b = Some (CPaths ?h)" using r [of 0] lnk(5) lnk(2) by (simp add: szs)
  have r2: "r (b + sizeof_lbr_paths + ph_funcs h * sizeof_lbr_function + ph_ats h * sizeof_uint64 + i * sizeof_state_map)
      = Some (CMap (?d i))" if "i < ph_state_maps h" for i
    using r [of "?ms + i * sizeof_state_map"] lnk(6) [OF that] that lnk(2) by (simp add: szs add.assoc)
  have low: "r (b + off) = c (q + off)" if "0 < off" "off < ?ms" for off
    using that r [of off] lnk(4) [of "q + off"] lnk(2) by (simp add: add.assoc)
  have high: "r (b + (?s + (?S i + j * sizeof_valid_state))) = c (q + (?s + (?S i + j * sizeof_valid_state)))"
    if "i < ph_state_maps h" "j < mh_states (d i)" for i j
    using states_within [where f = "\<lambda>i. mh_states (d i)", OF that, of sizeof_valid_state] r [of "?s + (?S i + j * sizeof_valid_state)"]
      lnk(3) [of "q + (?s + (?S i + j * sizeof_valid_state))"] lnk(2)
    by (simp add: sizeof_valid_state_def add.assoc)
  show ?thesis
    using link_value(1) [of r b ?h ?d] r1 r2 low high by (simp add: lnk(1) szs add.assoc)
qed

text \<open>
  C22: Serialisation is lossless.  Packing a valid structure into a fresh region
  gives a structure with the same value and size inside that region and leaves the
  rest of memory alone; writing it to a file and reading it back at any other
  address gives a structure with the same value again.
\<close>

theorem pack_paths_roundtrip:
  assumes "valid_paths m paths" "\<forall>x \<in> set (path_arrays m paths). apart (q, lbr_sizeof_paths m paths) x"
    and M: "M = lbr_pack_paths m paths q"
  shows "paths_value M q = paths_value m paths \<and> lbr_sizeof_paths M q = lbr_sizeof_paths m paths
    \<and> (\<forall>x. x < q \<or> q + lbr_sizeof_paths m paths \<le> x \<longrightarrow> M x = m x)
    \<and> (\<exists>R. read_paths True (fst (write_paths True M q)) m' b = Some R \<and> paths_value R b = paths_value m paths)"
proof -
  define h where "h = the_hdr (m paths)"
  define c where "c = copy_all m q (path_arrays m paths)"
  define d where "d = map_at m (ph_state_map h)"
  let ?sz = "lbr_sizeof_paths m paths"
  have h: "m paths = Some (CPaths h)" using assms(1) by (auto simp: valid_paths_def h_def the_hdr_def)
  have Mc: "M = lbr_link_paths c q" using pack_copy_all [of m paths h q] h assms(2) M by (simp add: c_def)
  note lay = copied_layout [OF assms(1) bspec [OF assms(2)], folded h_def, folded c_def d_def]
  note lnk = link_value [where d = d, OF lay(1,4), folded Mc]
  have sz: "lbr_sizeof_paths M q = ?sz"
    using sizeof_paths_eq [of m paths h] h lnk(2) by (simp add: states_len_def d_def)
  have "paths_value m paths =
      (map (\<lambda>i. m (ph_func h + i * sizeof_lbr_function)) [0..<ph_funcs h],
       map (\<lambda>i. m (ph_address_taken h + i * sizeof_uint64)) [0..<ph_ats h],
       map (\<lambda>i. (mh_to (d i), map (\<lambda>j. m (mh_state (d i) + j * sizeof_valid_state)) [0..<mh_states (d i)])) [0..<ph_state_maps h])"
    by (simp add: paths_value_def h_def [symmetric] d_def [symmetric] Let_def)
  then have val: "paths_value M q = paths_value m paths"
    using lnk(1) lay(2,3,5) by (simp add: states_len_def d_def [symmetric])
  have out: "M x = m x" if "x < q \<or> q + ?sz \<le> x" for x
    using that lnk(3) [of x] copy_all_outside [of x q "path_arrays m paths" m] sum_path_arrays [of m paths h] h sz lnk(2)
    by (auto simp: c_def)
  let ?r = "\<lambda>a. if b \<le> a \<and> a < b + ?sz then M (q + (a - b)) else m' a"
  have "(\<lambda>a. if b \<le> a \<and> a < b + ?sz then if a - b < ?sz then M (q + (a - b)) else None else m' a) = ?r"
    by (rule ext) auto
  then have rd: "read_paths True (fst (write_paths True M q)) m' b = Some (lbr_link_paths ?r b)"
    using sz by (simp add: read_paths_def write_paths_def)
  have "paths_value (lbr_link_paths ?r b) b = paths_value M q"
    using relink_value [where d = d, OF lay(1,4), of ?r b] Mc sz by simp
  then show ?thesis using val out rd sz by auto
qed

text \<open>One function and one map with two states, spread over memory.\<close>

definition demo_state :: "u64 \<Rightarrow> cell" where
  "demo_state x = CState \<lparr>vs_from = [x], vs_to = [x], vs_hash = []\<rparr>"

definition demo_memory :: memory where
  "demo_memory = [1000 \<mapsto> CPaths \<lparr>ph_funcs = 1, ph_func = 2000, ph_ats = 0, ph_address_taken = 0, ph_state_maps = 1, ph_state_map = 3000\<rparr>,
     2000 \<mapsto> CFunc \<lparr>fptr = 0xc2170, fname = ''execve''\<rparr>,
     3000 \<mapsto> CMap \<lparr>mh_to = 0xc2170, mh_states = 2, mh_state = 4000\<rparr>,
     4000 \<mapsto> demo_state 1, 4272 \<mapsto> demo_state 2]"

theorem pack_paths_roundtrip_witness:
  "paths_value demo_memory 1000 = ([Some (CFunc \<lparr>fptr = 0xc2170, fname = ''execve''\<rparr>)], [],
      [(0xc2170, [Some (demo_state 1), Some (demo_state 2)])])
    \<and> paths_value (lbr_pack_paths demo_memory 1000 9000) 9000 = paths_value demo_memory 1000"
proof -
  have "path_arrays demo_memory 1000 = [(1000, 48), (2000, 24), (0, 0), (3000, 24), (4000, 544)]"
    "lbr_sizeof_paths demo_memory 1000 = 640" "valid_paths demo_memory 1000"
    "paths_value demo_memory 1000 = ([Some (CFunc \<lparr>fptr = 0xc2170, fname = ''execve''\<rparr>)], [],
      [(0xc2170, [Some (demo_state 1), Some (demo_state 2)])])"
    by (simp_all add: path_arrays_def lbr_sizeof_paths_def valid_paths_def paths_value_def demo_memory_def the_hdr_def
        map_at_def the_map_def sizeof_lbr_paths_def sizeof_lbr_function_def sizeof_uint64_def sizeof_state_map_def
        sizeof_valid_state_def upt_rec)
  then show ?thesis
    using pack_paths_roundtrip [of demo_memory 1000 9000 "lbr_pack_paths demo_memory 1000 9000"]
    by (simp add: apart_def)
qed

end
