(* ===== verification/Arms_Cfg.thy ===== *)
theory Arms_Cfg
  imports Lbr_Paths
begin

text \<open>
  The control-flow graph of the analyzer: edges, basic blocks, functions and the
  graph itself (\<open>arms_edge\<close>, \<open>arms_bb\<close>, \<open>arms_function\<close> and \<open>arms_cfg\<close> in
  \<open>src/dyninst-static\<close>).

  The C++ objects refer to each other by pointers.  The model has one heap per
  kind of object, a list, and a pointer is a position in it: the heaps only grow.
  The position of an edge is also its \<open>id_\<close>, that of a basic block its \<open>id_\<close> minus
  one.  A \<open>std::set\<close> of pointers is an increasing list, as if later objects had
  larger addresses; no property of the searches depends on that order.  A
  \<open>std::map\<close> keyed by addresses is an association list with increasing keys.
\<close>

section \<open>Sets and maps\<close>

unbundle bit_operations_syntax

definition set_insert :: "nat \<Rightarrow> nat list \<Rightarrow> nat list" where
  "set_insert x xs = (if x \<in> set xs then xs else insort x xs)"

definition set_erase :: "nat \<Rightarrow> nat list \<Rightarrow> nat list" where
  "set_erase x xs = remove1 x xs"

fun map_set :: "u64 \<Rightarrow> nat \<Rightarrow> (u64 \<times> nat) list \<Rightarrow> (u64 \<times> nat) list" where
  "map_set k v [] = [(k, v)]"
| "map_set k v ((k', v') # m) =
    (if k < k' then (k, v) # (k', v') # m else if k = k' then (k, v) # m else (k', v') # map_set k v m)"

text \<open>The interface of the containers, with the representation invariant they keep.\<close>

locale pointer_set =
  fixes ins :: "nat \<Rightarrow> 's \<Rightarrow> 's" and era :: "nat \<Rightarrow> 's \<Rightarrow> 's" and elems :: "'s \<Rightarrow> nat set" and invar :: "'s \<Rightarrow> bool"
  assumes elems_ins: "elems (ins x s) = insert x (elems s)"
    and elems_era: "invar s \<Longrightarrow> elems (era x s) = elems s - {x}"
    and invar_ins: "invar s \<Longrightarrow> invar (ins x s)"
    and invar_era: "invar s \<Longrightarrow> invar (era x s)"
begin

lemma ins_idem: "x \<in> elems s \<Longrightarrow> elems (ins x s) = elems s"
  by (auto simp: elems_ins)

lemma era_ins: "invar s \<Longrightarrow> x \<notin> elems s \<Longrightarrow> elems (era x (ins x s)) = elems s"
  by (auto simp: elems_ins elems_era invar_ins)

end

locale address_map =
  fixes lookup :: "'m \<Rightarrow> u64 \<Rightarrow> nat option" and upd :: "u64 \<Rightarrow> nat \<Rightarrow> 'm \<Rightarrow> 'm"
    and pairs :: "'m \<Rightarrow> (u64 \<times> nat) set" and invar :: "'m \<Rightarrow> bool"
  assumes lookup_upd: "lookup (upd k v m) = (lookup m)(k \<mapsto> v)"
    and invar_upd: "invar m \<Longrightarrow> invar (upd k v m)"
    and pairs_upd: "pairs (upd k v m) \<subseteq> insert (k, v) (pairs m)"
    and lookup_pairs: "lookup m k = Some v \<Longrightarrow> (k, v) \<in> pairs m"
begin

lemma pairs_all_upd: "\<forall>(k, v) \<in> pairs m. P k v \<Longrightarrow> P k v \<Longrightarrow> \<forall>(k, v) \<in> pairs (upd k v m). P k v"
  using pairs_upd by fastforce

lemma lookup_all: "\<forall>(k, v) \<in> pairs m. P k v \<Longrightarrow> lookup m k = Some v \<Longrightarrow> P k v"
  using lookup_pairs by fastforce

end

lemma set_set_insert [simp]: "set (set_insert x xs) = insert x (set xs)"
  by (auto simp: set_insert_def set_insort_key)

interpretation ptrs: pointer_set set_insert set_erase set "sorted_wrt (<)"
proof unfold_locales
  show "set (set_erase x xs) = set xs - {x}" if "sorted_wrt (<) xs" for x xs
    using that by (auto simp: set_erase_def strict_sorted_iff)
  show "sorted_wrt (<) (set_insert x xs)" if "sorted_wrt (<) xs" for x and xs :: "nat list"
    using that by (auto simp: set_insert_def strict_sorted_iff sorted_insort distinct_insort)
  show "sorted_wrt (<) (set_erase x xs)" if "sorted_wrt (<) xs" for x and xs :: "nat list"
    using that by (auto simp: set_erase_def strict_sorted_iff sorted_remove1)
qed auto

lemma map_of_map_set: "map_of (map_set k v m) = (map_of m)(k \<mapsto> v)"
  by (induction k v m rule: map_set.induct) (auto simp: fun_eq_iff)

lemma set_map_set: "set (map_set k v m) \<subseteq> insert (k, v) (set m)"
  by (induction k v m rule: map_set.induct) auto

lemma keys_map_set: "fst ` set (map_set k v m) = insert k (fst ` set m)"
  by (induction k v m rule: map_set.induct) auto

lemma sorted_map_set: "sorted_wrt (<) (map fst m) \<Longrightarrow> sorted_wrt (<) (map fst (map_set k v m))"
proof (induction k v m rule: map_set.induct)
  case (2 k v k' v' m)
  then show ?case using keys_map_set [of k v m] by auto
qed simp

interpretation addrs: address_map map_of map_set set "\<lambda>m. sorted_wrt (<) (map fst m)"
  by unfold_locales (auto simp: map_of_map_set set_map_set [THEN subsetD] sorted_map_set map_of_SomeD dest: set_map_set [THEN subsetD])

section \<open>Edges\<close>

datatype arms_edge_type_t =
    arms_direct_call
  | arms_indirect_call
  | arms_inter_direct_jmp
  | arms_inter_indirect_jmp
  | arms_cond_taken
  | arms_cond_not_taken
  | arms_direct_jmp
  | arms_indirect_jmp
  | arms_fallthrough
  | arms_catch
  | arms_call_ft
  | arms_ret
  | arms_no_edge
  | arms_fastpath
  | arms_unknown

definition edge_type_is_call :: "arms_edge_type_t \<Rightarrow> bool" where
  "edge_type_is_call ty \<longleftrightarrow> ty = arms_direct_call \<or> ty = arms_indirect_jmp"

definition edge_type_is_direct_call :: "arms_edge_type_t \<Rightarrow> bool" where
  "edge_type_is_direct_call ty \<longleftrightarrow> ty = arms_direct_call"

definition edge_type_is_indirect_call :: "arms_edge_type_t \<Rightarrow> bool" where
  "edge_type_is_indirect_call ty \<longleftrightarrow> ty = arms_indirect_call"

definition edge_type_is_return :: "arms_edge_type_t \<Rightarrow> bool" where
  "edge_type_is_return ty \<longleftrightarrow> ty = arms_ret"

definition edge_type_is_inter_direct_jmp :: "arms_edge_type_t \<Rightarrow> bool" where
  "edge_type_is_inter_direct_jmp ty \<longleftrightarrow> ty = arms_inter_direct_jmp"

definition edge_type_is_inter_indirect_jmp :: "arms_edge_type_t \<Rightarrow> bool" where
  "edge_type_is_inter_indirect_jmp ty \<longleftrightarrow> False"

definition edge_type_is_indirect :: "arms_edge_type_t \<Rightarrow> bool" where
  "edge_type_is_indirect ty \<longleftrightarrow> ty = arms_indirect_jmp \<or> ty = arms_indirect_call \<or> ty = arms_inter_indirect_jmp"

record arms_edge =
  e_hidden :: bool
  e_source :: nat
  e_target :: nat
  e_type :: arms_edge_type_t
  e_replaced :: "nat list"
  e_intra :: bool

definition set_type :: "arms_edge_type_t \<Rightarrow> arms_edge \<Rightarrow> arms_edge" where
  "set_type ty e =
    (let e = e\<lparr>e_type := ty\<rparr>
     in if ty = arms_direct_call \<or> ty = arms_indirect_call \<or> ty = arms_ret \<or> ty = arms_inter_indirect_jmp
           \<or> ty = arms_inter_direct_jmp
        then e\<lparr>e_intra := False\<rparr> else e)"

text \<open>The two constructors; the second leaves \<open>intra_procedural\<close> as the memory was.\<close>

definition mk_edge :: "nat \<Rightarrow> nat \<Rightarrow> arms_edge" where
  "mk_edge from to = \<lparr>e_hidden = False, e_source = from, e_target = to, e_type = arms_unknown, e_replaced = [], e_intra = True\<rparr>"

definition mk_typed_edge :: "bool \<Rightarrow> nat \<Rightarrow> nat \<Rightarrow> arms_edge_type_t \<Rightarrow> arms_edge" where
  "mk_typed_edge uninit from to ty =
    set_type ty \<lparr>e_hidden = False, e_source = from, e_target = to, e_type = ty, e_replaced = [], e_intra = uninit\<rparr>"

definition is_indirect :: "arms_edge \<Rightarrow> bool" where "is_indirect e = edge_type_is_indirect (e_type e)"
definition is_return :: "arms_edge \<Rightarrow> bool" where "is_return e \<longleftrightarrow> e_type e = arms_ret"
definition is_direct_call :: "arms_edge \<Rightarrow> bool" where "is_direct_call e = edge_type_is_direct_call (e_type e)"
definition is_indirect_call :: "arms_edge \<Rightarrow> bool" where "is_indirect_call e = edge_type_is_indirect_call (e_type e)"
definition is_inter_direct_jump :: "arms_edge \<Rightarrow> bool" where "is_inter_direct_jump e = edge_type_is_inter_direct_jmp (e_type e)"
definition is_inter_indirect_jump :: "arms_edge \<Rightarrow> bool" where "is_inter_indirect_jump e = edge_type_is_inter_indirect_jmp (e_type e)"
definition is_indirect_jump :: "arms_edge \<Rightarrow> bool" where
  "is_indirect_jump e \<longleftrightarrow> e_type e = arms_inter_indirect_jmp \<or> e_type e = arms_indirect_jmp"
definition is_no_call_ft :: "arms_edge \<Rightarrow> bool" where "is_no_call_ft e \<longleftrightarrow> e_type e \<noteq> arms_call_ft"
definition is_fastpath :: "arms_edge \<Rightarrow> bool" where "is_fastpath e \<longleftrightarrow> e_type e = arms_fastpath"

text \<open>The name table of \<open>to_string\<close>; \<open>None\<close> is a read behind its end.\<close>

definition arms_edge_type_strings :: "string list" where
  "arms_edge_type_strings = [''direct_call'', ''indirect_call'', ''inter_direct_jump'', ''inter_indirect_jump'', ''cond_taken'',
     ''cond_not_taken'', ''direct_jmp'', ''indirect_jmp'', ''fallthrough'', ''catch'', ''call_ft'', ''ret'', ''no_edge'', ''unknown'']"

fun edge_type_number :: "arms_edge_type_t \<Rightarrow> nat" where
  "edge_type_number arms_direct_call = 0"
| "edge_type_number arms_indirect_call = 1"
| "edge_type_number arms_inter_direct_jmp = 2"
| "edge_type_number arms_inter_indirect_jmp = 3"
| "edge_type_number arms_cond_taken = 4"
| "edge_type_number arms_cond_not_taken = 5"
| "edge_type_number arms_direct_jmp = 6"
| "edge_type_number arms_indirect_jmp = 7"
| "edge_type_number arms_fallthrough = 8"
| "edge_type_number arms_catch = 9"
| "edge_type_number arms_call_ft = 10"
| "edge_type_number arms_ret = 11"
| "edge_type_number arms_no_edge = 12"
| "edge_type_number arms_fastpath = 13"
| "edge_type_number arms_unknown = 14"

definition edge_type_string :: "arms_edge_type_t \<Rightarrow> string option" where
  "edge_type_string ty =
    (if edge_type_number ty < length arms_edge_type_strings then Some (arms_edge_type_strings ! edge_type_number ty) else None)"

section \<open>Blocks, functions and the graph\<close>

record arms_bb =
  start_address :: u64
  end_address :: u64
  last_insn_address :: u64
  is_entry_block :: bool
  is_exit_block :: bool
  is_dummy :: bool
  incoming_edges :: "nat list"
  outgoing_edges :: "nat list"
  bb_funcs :: "nat list"

definition mk_bb :: "u64 \<Rightarrow> u64 \<Rightarrow> u64 \<Rightarrow> nat list \<Rightarrow> arms_bb" where
  "mk_bb start lim insn fs = \<lparr>start_address = start, end_address = lim, last_insn_address = insn, is_entry_block = False,
     is_exit_block = False, is_dummy = False, incoming_edges = [], outgoing_edges = [], bb_funcs = fs\<rparr>"

record arms_function =
  base_addr :: u64
  addr_taken :: bool
  is_plt :: bool
  is_lib_dummy :: bool
  is_main :: bool
  funname :: string
  basic_blocks :: "nat list"
  entry_points :: "nat list"
  exit_points :: "nat list"
  external_calls :: "nat list"
  callees :: "nat list"
  callers :: "nat list"

definition mk_function :: "u64 \<Rightarrow> string \<Rightarrow> arms_function" where
  "mk_function addr name = \<lparr>base_addr = addr, addr_taken = False, is_plt = False, is_lib_dummy = False, is_main = False,
     funname = name, basic_blocks = [], entry_points = [], exit_points = [], external_calls = [], callees = [], callers = []\<rparr>"

record cfg =
  cfg_module_name :: string
  edges :: "arms_edge list"
  bbs :: "arms_bb list"
  fns :: "arms_function list"
  addr2fn :: "(u64 \<times> nat) list"
  start2bb :: "(u64 \<times> nat) list"
  last2bb :: "(u64 \<times> nat) list"
  num_bb :: u32
  num_dummy_blocks :: u64
  cfg_start_addr :: u64
  cfg_end_addr :: u64
  is_library :: bool
  uninit :: bool

definition mk_cfg :: "string \<Rightarrow> cfg" where
  "mk_cfg name = \<lparr>cfg_module_name = name, edges = [], bbs = [], fns = [], addr2fn = [], start2bb = [], last2bb = [], num_bb = 0, num_dummy_blocks = 0,
     cfg_start_addr = 0, cfg_end_addr = 0, is_library = False, uninit = False\<rparr>"

definition upd_edge :: "nat \<Rightarrow> (arms_edge \<Rightarrow> arms_edge) \<Rightarrow> cfg \<Rightarrow> cfg" where
  "upd_edge e f G = G\<lparr>edges := (edges G)[e := f (edges G ! e)]\<rparr>"

definition upd_bb :: "nat \<Rightarrow> (arms_bb \<Rightarrow> arms_bb) \<Rightarrow> cfg \<Rightarrow> cfg" where
  "upd_bb b f G = G\<lparr>bbs := (bbs G)[b := f (bbs G ! b)]\<rparr>"

definition upd_fn :: "nat \<Rightarrow> (arms_function \<Rightarrow> arms_function) \<Rightarrow> cfg \<Rightarrow> cfg" where
  "upd_fn i f G = G\<lparr>fns := (fns G)[i := f (fns G ! i)]\<rparr>"

text \<open>\<open>new\<close>: the object goes to the end of its heap, and its position is the pointer.\<close>

definition new_edge :: "arms_edge \<Rightarrow> cfg \<Rightarrow> nat \<times> cfg" where
  "new_edge e G = (length (edges G), G\<lparr>edges := edges G @ [e]\<rparr>)"

definition new_bb :: "arms_bb \<Rightarrow> cfg \<Rightarrow> nat \<times> cfg" where
  "new_bb b G = (length (bbs G), G\<lparr>bbs := bbs G @ [b]\<rparr>)"

definition new_fn :: "arms_function \<Rightarrow> cfg \<Rightarrow> nat \<times> cfg" where
  "new_fn f G = (length (fns G), G\<lparr>fns := fns G @ [f]\<rparr>)"

definition add_incoming_edge :: "nat \<Rightarrow> nat \<Rightarrow> cfg \<Rightarrow> cfg" where
  "add_incoming_edge b e = upd_bb b (\<lambda>x. x\<lparr>incoming_edges := set_insert e (incoming_edges x)\<rparr>)"

definition add_outgoing_edge :: "nat \<Rightarrow> nat \<Rightarrow> cfg \<Rightarrow> cfg" where
  "add_outgoing_edge b e = upd_bb b (\<lambda>x. x\<lparr>outgoing_edges := set_insert e (outgoing_edges x)\<rparr>)"

definition delete_incoming_edge :: "nat \<Rightarrow> nat \<Rightarrow> cfg \<Rightarrow> cfg" where
  "delete_incoming_edge b e = upd_bb b (\<lambda>x. x\<lparr>incoming_edges := set_erase e (incoming_edges x)\<rparr>)"

definition delete_outgoing_edge :: "nat \<Rightarrow> nat \<Rightarrow> cfg \<Rightarrow> cfg" where
  "delete_outgoing_edge b e = upd_bb b (\<lambda>x. x\<lparr>outgoing_edges := set_erase e (outgoing_edges x)\<rparr>)"

definition edge_unlink :: "nat \<Rightarrow> cfg \<Rightarrow> cfg" where
  "edge_unlink e G = delete_incoming_edge (e_target (edges G ! e)) e (delete_outgoing_edge (e_source (edges G ! e)) e G)"

definition store_function :: "nat \<Rightarrow> cfg \<Rightarrow> cfg" where
  "store_function f G = G\<lparr>addr2fn := map_set (base_addr (fns G ! f)) f (addr2fn G)\<rparr>"

definition store_bb :: "nat \<Rightarrow> cfg \<Rightarrow> cfg" where
  "store_bb b G = G\<lparr>start2bb := map_set (start_address (bbs G ! b)) b (start2bb G),
     last2bb := map_set (last_insn_address (bbs G ! b)) b (last2bb G), num_bb := num_bb G + 1\<rparr>"

definition find_function :: "cfg \<Rightarrow> u64 \<Rightarrow> nat option" where
  "find_function G a = map_of (addr2fn G) a"

definition find_bb :: "cfg \<Rightarrow> u64 \<Rightarrow> nat option" where
  "find_bb G a = map_of (start2bb G) a"

definition find_bb_by_last_insn_address :: "cfg \<Rightarrow> u64 \<Rightarrow> nat option" where
  "find_bb_by_last_insn_address G a = map_of (last2bb G) a"

section \<open>Operations on blocks\<close>

definition get_incoming_edge :: "arms_bb \<Rightarrow> nat \<Rightarrow> nat option" where
  "get_incoming_edge b i = (if i \<ge> length (incoming_edges b) then None else Some (incoming_edges b ! i))"

definition get_outgoing_edge :: "arms_bb \<Rightarrow> nat \<Rightarrow> nat option" where
  "get_outgoing_edge b i = (if i \<ge> length (outgoing_edges b) then None else Some (outgoing_edges b ! i))"

definition set_is_entry_block :: "nat \<Rightarrow> cfg \<Rightarrow> cfg" where
  "set_is_entry_block b = upd_bb b (\<lambda>x. x\<lparr>is_entry_block := True\<rparr>)"

definition set_is_exit_block :: "nat \<Rightarrow> cfg \<Rightarrow> cfg" where
  "set_is_exit_block b = upd_bb b (\<lambda>x. x\<lparr>is_exit_block := True\<rparr>)"

definition set_is_dummy :: "nat \<Rightarrow> cfg \<Rightarrow> cfg" where
  "set_is_dummy b = upd_bb b (\<lambda>x. x\<lparr>is_dummy := True\<rparr>)"

definition add_containing_function :: "nat \<Rightarrow> nat \<Rightarrow> cfg \<Rightarrow> cfg" where
  "add_containing_function b f = upd_bb b (\<lambda>x. x\<lparr>bb_funcs := bb_funcs x @ [f]\<rparr>)"

definition get_function :: "arms_bb \<Rightarrow> nat option" where
  "get_function b = (if length (bb_funcs b) = 1 then Some (bb_funcs b ! 0) else None)"

definition has_outbound_fastpath :: "cfg \<Rightarrow> nat \<Rightarrow> nat \<Rightarrow> bool" where
  "has_outbound_fastpath G b t \<longleftrightarrow>
    (\<exists>e \<in> set (outgoing_edges (bbs G ! b)). e_target (edges G ! e) = t \<and> is_fastpath (edges G ! e))"

definition has_no_call_ft_outgoing_edge :: "cfg \<Rightarrow> nat \<Rightarrow> bool" where
  "has_no_call_ft_outgoing_edge G b \<longleftrightarrow> (\<exists>e \<in> set (outgoing_edges (bbs G ! b)). is_no_call_ft (edges G ! e))"

definition first_call_ft :: "cfg \<Rightarrow> nat list \<Rightarrow> nat option" where
  "first_call_ft G es = find (\<lambda>e. e_type (edges G ! e) = arms_call_ft) es"

definition drop_incoming_call_ft_edge :: "nat \<Rightarrow> cfg \<Rightarrow> cfg" where
  "drop_incoming_call_ft_edge b G =
    (case first_call_ft G (incoming_edges (bbs G ! b)) of
       None \<Rightarrow> G
     | Some e \<Rightarrow> delete_incoming_edge b e G)"

definition drop_call_ft_edge :: "nat \<Rightarrow> cfg \<Rightarrow> cfg" where
  "drop_call_ft_edge b G =
    (case first_call_ft G (outgoing_edges (bbs G ! b)) of
       None \<Rightarrow> G
     | Some e \<Rightarrow> delete_outgoing_edge b e (drop_incoming_call_ft_edge (e_target (edges G ! e)) G))"

definition is_ft :: "cfg \<Rightarrow> nat \<Rightarrow> bool" where
  "is_ft G b \<longleftrightarrow> (if length (incoming_edges (bbs G ! b)) \<noteq> 1 then False
    else \<exists>e \<in> set (incoming_edges (bbs G ! b)). e_type (edges G ! e) = arms_fallthrough)"

definition outgoing_is_ft :: "cfg \<Rightarrow> nat \<Rightarrow> bool" where
  "outgoing_is_ft G b \<longleftrightarrow> (if length (outgoing_edges (bbs G ! b)) \<noteq> 1 then False
    else \<exists>e \<in> set (outgoing_edges (bbs G ! b)). e_type (edges G ! e) = arms_fallthrough)"

definition get_preceding_bb :: "cfg \<Rightarrow> nat \<Rightarrow> nat option" where
  "get_preceding_bb G b = (case incoming_edges (bbs G ! b) of [e] \<Rightarrow> Some (e_source (edges G ! e)) | _ \<Rightarrow> None)"

definition get_following_bb :: "cfg \<Rightarrow> nat \<Rightarrow> nat option" where
  "get_following_bb G b = (case outgoing_edges (bbs G ! b) of [e] \<Rightarrow> Some (e_target (edges G ! e)) | _ \<Rightarrow> None)"

text \<open>The loop over \<open>i\<close> of \<open>get_fallthrough_bb\<close>, then the call with its bounds.\<close>

fun fallthrough_from :: "cfg \<Rightarrow> u64 \<Rightarrow> nat list \<Rightarrow> nat option" where
  "fallthrough_from G a [] = None"
| "fallthrough_from G a (i # is) =
    (case find_bb G (a + of_nat i) of Some b \<Rightarrow> Some b | None \<Rightarrow> fallthrough_from G a is)"

definition get_fallthrough_bb :: "cfg \<Rightarrow> nat \<Rightarrow> nat option" where
  "get_fallthrough_bb G b = fallthrough_from G (last_insn_address (bbs G ! b)) [1..<16]"

definition DUMMY_ADDR :: u64 where "DUMMY_ADDR = 0x2910"

definition create_dummy_basic_block :: "nat option \<Rightarrow> cfg \<Rightarrow> nat \<times> cfg" where
  "create_dummy_basic_block fn G =
    (let G = G\<lparr>num_dummy_blocks := num_dummy_blocks G + 1\<rparr>;
         a = DUMMY_ADDR + num_dummy_blocks G;
         (b, G) = new_bb (mk_bb a a a (case fn of None \<Rightarrow> [] | Some f \<Rightarrow> [f])) G
     in (b, set_is_dummy b G))"

definition create_dummy_basic_block_at :: "u64 \<Rightarrow> u64 \<Rightarrow> nat option \<Rightarrow> cfg \<Rightarrow> nat \<times> cfg" where
  "create_dummy_basic_block_at a lim fn G =
    (let G = G\<lparr>num_dummy_blocks := num_dummy_blocks G + 1\<rparr>;
         (b, G) = new_bb (mk_bb a lim a (case fn of None \<Rightarrow> [] | Some f \<Rightarrow> [f])) G
     in (b, set_is_dummy b G))"

definition forward_connected_with :: "cfg \<Rightarrow> nat \<Rightarrow> nat \<Rightarrow> bool" where
  "forward_connected_with G b t \<longleftrightarrow> (\<exists>e \<in> set (outgoing_edges (bbs G ! b)). e_target (edges G ! e) = t)"

definition intra_procedural_indirect_jump_targets_only :: "cfg \<Rightarrow> nat \<Rightarrow> bool" where
  "intra_procedural_indirect_jump_targets_only G b \<longleftrightarrow>
    (if outgoing_edges (bbs G ! b) = [] then False
     else \<forall>e \<in> set (outgoing_edges (bbs G ! b)). e_intra (edges G ! e) \<and> is_indirect_jump (edges G ! e))"

section \<open>Operations on functions\<close>

definition add_bb :: "nat \<Rightarrow> nat \<Rightarrow> cfg \<Rightarrow> cfg" where
  "add_bb f b = upd_fn f (\<lambda>x. x\<lparr>basic_blocks := set_insert b (basic_blocks x)\<rparr>)"

definition add_entry_block :: "nat \<Rightarrow> nat \<Rightarrow> cfg \<Rightarrow> cfg" where
  "add_entry_block f b = upd_fn f (\<lambda>x. x\<lparr>entry_points := set_insert b (entry_points x)\<rparr>)"

definition add_entry_block_at :: "nat \<Rightarrow> u64 \<Rightarrow> cfg \<Rightarrow> cfg" where
  "add_entry_block_at f a G = (case find_bb G a of None \<Rightarrow> G | Some b \<Rightarrow> add_entry_block f b G)"

definition add_exit_block :: "nat \<Rightarrow> nat \<Rightarrow> cfg \<Rightarrow> cfg" where
  "add_exit_block f b = upd_fn f (\<lambda>x. x\<lparr>exit_points := set_insert b (exit_points x)\<rparr>)"

definition add_exit_block_at :: "nat \<Rightarrow> u64 \<Rightarrow> cfg \<Rightarrow> cfg" where
  "add_exit_block_at f a G = (case find_bb_by_last_insn_address G a of None \<Rightarrow> G | Some b \<Rightarrow> add_exit_block f b G)"

definition add_external_call :: "nat \<Rightarrow> nat \<Rightarrow> cfg \<Rightarrow> cfg" where
  "add_external_call f b = upd_fn f (\<lambda>x. x\<lparr>external_calls := set_insert b (external_calls x)\<rparr>)"

definition add_callee :: "nat \<Rightarrow> nat \<Rightarrow> cfg \<Rightarrow> cfg" where
  "add_callee f g = upd_fn f (\<lambda>x. x\<lparr>callees := set_insert g (callees x)\<rparr>)"

definition add_caller :: "nat \<Rightarrow> nat \<Rightarrow> cfg \<Rightarrow> cfg" where
  "add_caller f g = upd_fn f (\<lambda>x. x\<lparr>callers := set_insert g (callers x)\<rparr>)"

definition set_addr_taken :: "nat \<Rightarrow> cfg \<Rightarrow> cfg" where
  "set_addr_taken f = upd_fn f (\<lambda>x. x\<lparr>addr_taken := True\<rparr>)"

definition set_is_plt :: "nat \<Rightarrow> cfg \<Rightarrow> cfg" where
  "set_is_plt f = upd_fn f (\<lambda>x. x\<lparr>is_plt := True\<rparr>)"

definition set_is_lib_dummy :: "nat \<Rightarrow> cfg \<Rightarrow> cfg" where
  "set_is_lib_dummy f = upd_fn f (\<lambda>x. x\<lparr>is_lib_dummy := True\<rparr>)"

definition set_is_main :: "nat \<Rightarrow> cfg \<Rightarrow> cfg" where
  "set_is_main f = upd_fn f (\<lambda>x. x\<lparr>is_main := True\<rparr>)"

section \<open>Operations on the graph\<close>

definition addr_in_cfg :: "cfg \<Rightarrow> u64 \<Rightarrow> bool" where
  "addr_in_cfg G a \<longleftrightarrow>
    (if a \<ge> cfg_start_addr G \<and> a < cfg_end_addr G then True
     else case find_function G a of
         Some f \<Rightarrow> is_plt (fns G ! f)
       | None \<Rightarrow> (case find_bb G a of Some b \<Rightarrow> \<not> is_dummy (bbs G ! b) | None \<Rightarrow> False))"

definition mark_function_as_plt :: "u64 \<Rightarrow> cfg \<Rightarrow> cfg" where
  "mark_function_as_plt a G = (case find_function G a of None \<Rightarrow> G | Some f \<Rightarrow> set_is_plt f G)"

text \<open>The loops over the entry points and their incoming edges, with both \<open>break\<close>s.\<close>

fun entry_has_indirect :: "cfg \<Rightarrow> nat list \<Rightarrow> bool" where
  "entry_has_indirect G [] = False"
| "entry_has_indirect G (e # es) = (if is_indirect (edges G ! e) then True else entry_has_indirect G es)"

fun mark_entries :: "nat \<Rightarrow> nat list \<Rightarrow> cfg \<Rightarrow> cfg" where
  "mark_entries f [] G = G"
| "mark_entries f (b # bs) G =
    (let G = (if entry_has_indirect G (incoming_edges (bbs G ! b)) then set_addr_taken f G else G)
     in if addr_taken (fns G ! f) then G else mark_entries f bs G)"

definition mark_function_if_at :: "nat \<Rightarrow> cfg \<Rightarrow> cfg" where
  "mark_function_if_at f G = (if is_lib_dummy (fns G ! f) then G else mark_entries f (entry_points (fns G ! f)) G)"

definition mark_at_functions :: "cfg \<Rightarrow> cfg" where
  "mark_at_functions G = fold (\<lambda>(a, f). mark_function_if_at f) (addr2fn G) G"

definition create_dummy_function :: "string \<Rightarrow> u64 \<Rightarrow> cfg \<Rightarrow> nat \<times> cfg" where
  "create_dummy_function name a G =
    (case find_function G a of
       Some f \<Rightarrow> (f, G)
     | None \<Rightarrow>
         (let (f, G) = new_fn (mk_function a name) G;
              G = store_function f G;
              (b, G) = create_dummy_basic_block_at a (a + 1) (Some f) G;
              G = store_bb b G;
              G = add_entry_block f b G;
              G = add_exit_block f b G
          in (f, G)))"

definition create_plt_function :: "string \<Rightarrow> u64 \<Rightarrow> cfg \<Rightarrow> nat \<times> cfg" where
  "create_plt_function name a G = (let (f, G) = create_dummy_function name a G in (f, set_is_plt f G))"

definition find_lib_dummy_by_name :: "cfg \<Rightarrow> string \<Rightarrow> nat option" where
  "find_lib_dummy_by_name G name =
    map_option snd (find (\<lambda>(a, f). is_lib_dummy (fns G ! f) \<and> funname (fns G ! f) = name) (addr2fn G))"

definition find_edge :: "cfg \<Rightarrow> u64 \<Rightarrow> u64 \<Rightarrow> nat option" where
  "find_edge G src dst =
    (case find_bb_by_last_insn_address G src of
       None \<Rightarrow> None
     | Some b \<Rightarrow> find (\<lambda>e. start_address (bbs G ! e_target (edges G ! e)) = dst) (outgoing_edges (bbs G ! b)))"

definition match_lib :: "u64 \<Rightarrow> u64 \<Rightarrow> bool" where
  "match_lib a b \<longleftrightarrow> a = b \<or> (a AND LIB_FLAG \<noteq> 0 \<and> b AND LIB_FLAG \<noteq> 0 \<and> TO_ADDR a = TO_ADDR b)"

definition find_edge_mask_lib :: "cfg \<Rightarrow> u64 \<Rightarrow> u64 \<Rightarrow> nat option" where
  "find_edge_mask_lib G src dst =
    (case find_bb_by_last_insn_address G src of
       Some b \<Rightarrow> find (\<lambda>e. match_lib (start_address (bbs G ! e_target (edges G ! e))) dst) (outgoing_edges (bbs G ! b))
     | None \<Rightarrow>
         (case find_bb G dst of
            Some b \<Rightarrow> find (\<lambda>e. match_lib (last_insn_address (bbs G ! e_source (edges G ! e))) src) (incoming_edges (bbs G ! b))
          | None \<Rightarrow> None))"

text \<open>The three statements every new edge goes through: \<open>new\<close>, \<open>add_outgoing_edge\<close>, \<open>add_incoming_edge\<close>.\<close>

definition link_edge :: "arms_edge \<Rightarrow> cfg \<Rightarrow> nat \<times> cfg" where
  "link_edge e G =
    (let (i, G) = new_edge e G;
         G = add_outgoing_edge (e_source e) i G;
         G = add_incoming_edge (e_target e) i G
     in (i, G))"

definition create_call_edge :: "nat \<Rightarrow> u64 \<Rightarrow> arms_edge_type_t \<Rightarrow> cfg \<Rightarrow> cfg" where
  "create_call_edge site target ty G =
    (case find_bb G target of
       None \<Rightarrow> G
     | Some t \<Rightarrow> snd (link_edge (mk_typed_edge (uninit G) site t ty) G))"

definition callback_create_ret_edges :: "nat \<Rightarrow> nat \<Rightarrow> cfg \<Rightarrow> cfg" where
  "callback_create_ret_edges callee ret_target G =
    fold (\<lambda>ret_site G. snd (link_edge (mk_typed_edge (uninit G) ret_site ret_target arms_ret) G)) (exit_points (fns G ! callee)) G"

definition create_ret_edges :: "nat \<Rightarrow> u64 \<Rightarrow> cfg \<Rightarrow> cfg" where
  "create_ret_edges site target G =
    (case find_bb G (end_address (bbs G ! site)) of
       None \<Rightarrow> G
     | Some ret_target \<Rightarrow>
         (case find_bb G target of
            None \<Rightarrow> G
          | Some t \<Rightarrow> fold (\<lambda>f. callback_create_ret_edges f ret_target) (bb_funcs (bbs G ! t)) G))"

definition handle_interprocedural_call :: "nat \<Rightarrow> u64 \<Rightarrow> arms_edge_type_t \<Rightarrow> cfg \<Rightarrow> cfg" where
  "handle_interprocedural_call site target ty G =
    (let G = create_call_edge site target ty G;
         G = (case find_function G target of
                Some f \<Rightarrow> if is_plt (fns G ! f)
                          then fold (\<lambda>g. add_external_call g site) (bb_funcs (bbs G ! site)) G else G
              | None \<Rightarrow> G)
     in if edge_type_is_indirect ty \<and> \<not> is_exit_block (bbs G ! site) then create_ret_edges site target G else G)"

text \<open>\<open>None\<close> is the failed \<open>assert(0)\<close>.\<close>

definition handle_interprocedural :: "nat \<Rightarrow> u64 \<Rightarrow> arms_edge_type_t \<Rightarrow> cfg \<Rightarrow> cfg option" where
  "handle_interprocedural site target ty G =
    (if edge_type_is_direct_call ty then Some (handle_interprocedural_call site target ty G)
     else if edge_type_is_indirect_call ty then Some (handle_interprocedural_call site target ty G)
     else if edge_type_is_inter_direct_jmp ty then None
     else if edge_type_is_inter_indirect_jmp ty then None
     else Some G)"

definition create_and_add_edge :: "u64 \<Rightarrow> u64 \<Rightarrow> cfg \<Rightarrow> nat \<times> cfg" where
  "create_and_add_edge source target G =
    (let (s, G) = (case find_bb_by_last_insn_address G source of
                     Some s \<Rightarrow> (s, G)
                   | None \<Rightarrow> (let (s, G) = new_bb (mk_bb source (source + 1) source []) G in (s, store_bb s G)));
         (t, G) = (case find_bb G target of
                     Some t \<Rightarrow> (t, G)
                   | None \<Rightarrow> (let (t, G) = new_bb (mk_bb target (target + 1) target []) G in (t, store_bb t G)))
     in link_edge (mk_edge s t) G)"

text \<open>
  The variant on blocks, called with blocks that exist: \<open>None\<close> is a failed
  \<open>assert\<close>.  A block that is not stored yet is stored; the \<open>assert\<close> then checks
  that the map has this block and no other at the address.
\<close>

definition create_and_add_edge_bb :: "nat \<Rightarrow> nat \<Rightarrow> cfg \<Rightarrow> (nat \<times> cfg) option" where
  "create_and_add_edge_bb s t G =
    (let G = (if find_bb G (start_address (bbs G ! s)) = None then store_bb s G else G)
     in if find_bb G (start_address (bbs G ! s)) \<noteq> Some s then None
     else let G = (if find_bb G (start_address (bbs G ! t)) = None then store_bb t G else G)
     in if find_bb G (start_address (bbs G ! t)) \<noteq> Some t then None
     else Some (link_edge (mk_edge s t) G))"

definition count_edges :: "cfg \<Rightarrow> nat" where
  "count_edges G = fold (\<lambda>(a, b) n. n + length (outgoing_edges (bbs G ! b))) (start2bb G) 0"

definition count_edges_coarse_grained :: "cfg \<Rightarrow> nat" where
  "count_edges_coarse_grained G =
    (let n = fold (\<lambda>(a, b) n. fold (\<lambda>e n. if \<not> edge_type_is_return (e_type (edges G ! e)) then n + 1 else n)
                 (outgoing_edges (bbs G ! b)) n) (start2bb G) 0;
         m = fold (\<lambda>(a, b) m. fold (\<lambda>e m. if edge_type_is_return (e_type (edges G ! e)) then m + 1 else m)
                 (outgoing_edges (bbs G ! b)) m) (start2bb G) 0
     in n + n * m)"

definition count_ats :: "cfg \<Rightarrow> nat \<times> nat \<times> nat" where
  "count_ats G =
    (let es = concat (map (\<lambda>(a, f). if is_lib_dummy (fns G ! f) then []
                  else concat (map (\<lambda>b. filter (\<lambda>e. is_indirect (edges G ! e)) (incoming_edges (bbs G ! b)))
                         (entry_points (fns G ! f)))) (addr2fn G))
     in (card (set (map (\<lambda>e. e_source (edges G ! e)) es)), card (set (map (\<lambda>e. e_target (edges G ! e)) es)), length es))"

text \<open>\<open>load_cfg_from_file\<close>: the argument is the pair of addresses each line holds.\<close>

definition load_cfg_from_file :: "string \<Rightarrow> (u64 \<times> u64) list \<Rightarrow> cfg" where
  "load_cfg_from_file name lns = fold (\<lambda>(source, target) G. snd (create_and_add_edge source target G)) lns (mk_cfg name)"

end
