(* ===== verification/Cfg_Invariant.thy ===== *)
theory Cfg_Invariant
  imports Arms_Cfg
begin

text \<open>
  The invariant of the control-flow graph and that every operation of \<open>Arms_Cfg\<close>
  keeps it.  \<open>wf_cfg\<close> says that every pointer is one, that a block lists an edge as
  outgoing only when it is the source of the edge and as incoming only when it is
  the target, and that the three maps find an object under its own address.
  \<open>extends\<close> says that an operation only adds: no object changes its identity and
  no edge disappears from a block.
\<close>

section \<open>Well-formed graphs\<close>

definition edge_ok :: "nat \<Rightarrow> arms_edge \<Rightarrow> bool" where
  "edge_ok nb e \<longleftrightarrow> e_source e < nb \<and> e_target e < nb"

definition bb_ok :: "arms_edge list \<Rightarrow> nat \<Rightarrow> nat \<Rightarrow> arms_bb \<Rightarrow> bool" where
  "bb_ok es nf i b \<longleftrightarrow>
    sorted_wrt (<) (incoming_edges b) \<and> sorted_wrt (<) (outgoing_edges b) \<and>
    (\<forall>e \<in> set (incoming_edges b). e < length es \<and> e_target (es ! e) = i) \<and>
    (\<forall>e \<in> set (outgoing_edges b). e < length es \<and> e_source (es ! e) = i) \<and>
    (\<forall>f \<in> set (bb_funcs b). f < nf)"

definition below :: "nat \<Rightarrow> nat list \<Rightarrow> bool" where
  "below n xs \<longleftrightarrow> sorted_wrt (<) xs \<and> (\<forall>x \<in> set xs. x < n)"

definition fn_ok :: "nat \<Rightarrow> nat \<Rightarrow> arms_function \<Rightarrow> bool" where
  "fn_ok nb nf f \<longleftrightarrow>
    below nb (basic_blocks f) \<and> below nb (entry_points f) \<and> below nb (exit_points f) \<and> below nb (external_calls f) \<and>
    below nf (callees f) \<and> below nf (callers f)"

definition map_ok :: "(nat \<Rightarrow> u64) \<Rightarrow> nat \<Rightarrow> (u64 \<times> nat) list \<Rightarrow> bool" where
  "map_ok key n m \<longleftrightarrow> sorted_wrt (<) (map fst m) \<and> (\<forall>(a, i) \<in> set m. i < n \<and> key i = a)"

definition wf_cfg :: "cfg \<Rightarrow> bool" where
  "wf_cfg G \<longleftrightarrow>
    (\<forall>e < length (edges G). edge_ok (length (bbs G)) (edges G ! e)) \<and>
    (\<forall>b < length (bbs G). bb_ok (edges G) (length (fns G)) b (bbs G ! b)) \<and>
    (\<forall>f < length (fns G). fn_ok (length (bbs G)) (length (fns G)) (fns G ! f)) \<and>
    map_ok (\<lambda>f. base_addr (fns G ! f)) (length (fns G)) (addr2fn G) \<and>
    map_ok (\<lambda>b. start_address (bbs G ! b)) (length (bbs G)) (start2bb G) \<and>
    map_ok (\<lambda>b. last_insn_address (bbs G ! b)) (length (bbs G)) (last2bb G)"

definition extends :: "cfg \<Rightarrow> cfg \<Rightarrow> bool" where
  "extends G G' \<longleftrightarrow>
    length (edges G) \<le> length (edges G') \<and> length (bbs G) \<le> length (bbs G') \<and> length (fns G) \<le> length (fns G') \<and>
    (\<forall>e < length (edges G). edges G' ! e = edges G ! e) \<and>
    (\<forall>b < length (bbs G). start_address (bbs G' ! b) = start_address (bbs G ! b) \<and>
       end_address (bbs G' ! b) = end_address (bbs G ! b) \<and>
       last_insn_address (bbs G' ! b) = last_insn_address (bbs G ! b) \<and>
       set (incoming_edges (bbs G ! b)) \<subseteq> set (incoming_edges (bbs G' ! b)) \<and>
       set (outgoing_edges (bbs G ! b)) \<subseteq> set (outgoing_edges (bbs G' ! b))) \<and>
    (\<forall>f < length (fns G). base_addr (fns G' ! f) = base_addr (fns G ! f) \<and> funname (fns G' ! f) = funname (fns G ! f))"

definition keeps :: "cfg \<Rightarrow> cfg \<Rightarrow> bool" where
  "keeps G G' \<longleftrightarrow> wf_cfg G' \<and> extends G G'"

lemma extends_refl: "extends G G"
  by (simp add: extends_def)

lemma extends_trans:
  assumes "extends G G'" "extends G' G''"
  shows "extends G G''"
proof -
  have b: "b < length (bbs G')" if "b < length (bbs G)" for b using that assms by (simp add: extends_def)
  have e: "b < length (edges G')" if "b < length (edges G)" for b using that assms by (simp add: extends_def)
  have f: "b < length (fns G')" if "b < length (fns G)" for b using that assms by (simp add: extends_def)
  show ?thesis using assms b e f unfolding extends_def by (simp; meson order_trans subset_trans)
qed

lemma keeps_refl: "wf_cfg G \<Longrightarrow> keeps G G"
  by (simp add: keeps_def extends_refl)

lemma keeps_trans: "keeps G G' \<Longrightarrow> keeps G' G'' \<Longrightarrow> keeps G G''"
  using extends_trans by (auto simp: keeps_def)

lemma keeps_wf: "keeps G G' \<Longrightarrow> wf_cfg G'"
  by (simp add: keeps_def)

lemma extends_length:
  assumes "extends G G'"
  shows "length (edges G) \<le> length (edges G')" "length (bbs G) \<le> length (bbs G')" "length (fns G) \<le> length (fns G')"
  using assms by (simp_all add: extends_def)

lemma wf_cfg_D:
  assumes "wf_cfg G"
  shows wf_edge: "e < length (edges G) \<Longrightarrow> edge_ok (length (bbs G)) (edges G ! e)"
    and wf_bb: "b < length (bbs G) \<Longrightarrow> bb_ok (edges G) (length (fns G)) b (bbs G ! b)"
    and wf_fn: "f < length (fns G) \<Longrightarrow> fn_ok (length (bbs G)) (length (fns G)) (fns G ! f)"
  using assms by (simp_all add: wf_cfg_def)

section \<open>The primitives\<close>

lemma below_insert: "below n xs \<Longrightarrow> x < n \<Longrightarrow> below n (set_insert x xs)"
  by (auto simp: below_def ptrs.invar_ins)

lemma below_mono: "below n xs \<Longrightarrow> n \<le> m \<Longrightarrow> below m xs"
  by (auto simp: below_def)

lemma below_Nil [simp]: "below n []"
  by (simp add: below_def)

lemma fn_ok_mono: "fn_ok nb nf f \<Longrightarrow> nb \<le> nb' \<Longrightarrow> nf \<le> nf' \<Longrightarrow> fn_ok nb' nf' f"
  by (auto simp: fn_ok_def intro: below_mono)

lemma map_ok_upd: "map_ok key n m \<Longrightarrow> i < n \<Longrightarrow> map_ok key n (map_set (key i) i m)"
  using set_map_set by (fastforce simp: map_ok_def sorted_map_set)

lemma map_ok_grow:
  assumes "map_ok key n m" "n \<le> n'" "\<And>i. i < n \<Longrightarrow> key' i = key i"
  shows "map_ok key' n' m"
  using assms by (fastforce simp: map_ok_def)

lemma map_ok_lookup: "map_ok key n m \<Longrightarrow> map_of m a = Some i \<Longrightarrow> i < n \<and> key i = a"
  unfolding map_ok_def by (elim conjE) (rule addrs.lookup_all)

lemma bb_ok_grow: "bb_ok es nf i b \<Longrightarrow> nf \<le> nf' \<Longrightarrow> bb_ok (es @ es') nf' i b"
  by (auto simp: bb_ok_def nth_append)

lemma fn_ok_Suc: "fn_ok nb nf f \<Longrightarrow> fn_ok (Suc nb) nf f" "fn_ok nb nf f \<Longrightarrow> fn_ok nb (Suc nf) f"
  by (auto elim: fn_ok_mono)

lemma map_ok_append:
  "map_ok (\<lambda>b. key (xs ! b)) (length xs) m \<Longrightarrow> map_ok (\<lambda>b. key ((xs @ [x]) ! b)) (Suc (length xs)) m"
  by (erule map_ok_grow) (auto simp: nth_append)

lemma map_ok_update:
  assumes "map_ok (\<lambda>b. key (xs ! b)) (length xs) m" "key y = key (xs ! i)"
  shows "map_ok (\<lambda>b. key (xs[i := y] ! b)) (length xs) m"
  by (rule map_ok_grow [OF assms(1) order_refl]) (metis assms(2) nth_list_update_eq nth_list_update_neq)

lemma keeps_new_edge:
  assumes "wf_cfg G" "edge_ok (length (bbs G)) e" "new_edge e G = (i, G')"
  shows "keeps G G'"
  using assms by (auto simp: keeps_def wf_cfg_def extends_def new_edge_def nth_append less_Suc_eq intro!: bb_ok_grow)

lemma keeps_new_bb:
  assumes wf: "wf_cfg G" and ok: "bb_ok (edges G) (length (fns G)) (length (bbs G)) b" and new: "new_bb b G = (i, G')"
  shows "keeps G G'"
proof -
  have G': "G' = G\<lparr>bbs := bbs G @ [b]\<rparr>" using new by (simp add: new_bb_def)
  have "extends G G'" by (auto simp: G' extends_def nth_append)
  moreover have "wf_cfg G'"
    unfolding wf_cfg_def using wf ok
    by (auto simp: G' wf_cfg_def edge_ok_def less_Suc_eq nth_append fn_ok_Suc
        simp del: nth_append_length intro!: map_ok_append [simplified nth_append])
  ultimately show ?thesis by (simp add: keeps_def)
qed

lemma keeps_new_fn:
  assumes wf: "wf_cfg G" and ok: "fn_ok (length (bbs G)) (length (fns G)) f" and new: "new_fn f G = (i, G')"
  shows "keeps G G'"
proof -
  have G': "G' = G\<lparr>fns := fns G @ [f]\<rparr>" using new by (simp add: new_fn_def)
  have "bb_ok (edges G) (Suc (length (fns G))) b (bbs G ! b)" if "b < length (bbs G)" for b
    using bb_ok_grow [OF wf_bb [OF wf that], of "Suc (length (fns G))" "[]"] by simp
  then have "wf_cfg G'"
    unfolding wf_cfg_def using wf ok
    by (auto simp: G' wf_cfg_def less_Suc_eq nth_append fn_ok_Suc
        simp del: nth_append_length intro!: map_ok_append [simplified nth_append])
  moreover have "extends G G'" by (auto simp: G' extends_def nth_append)
  ultimately show ?thesis by (simp add: keeps_def)
qed

lemma keeps_upd_bb:
  assumes wf: "wf_cfg G" and b: "b < length (bbs G)" and ok: "bb_ok (edges G) (length (fns G)) b (f (bbs G ! b))"
    and same: "start_address (f (bbs G ! b)) = start_address (bbs G ! b)" "end_address (f (bbs G ! b)) = end_address (bbs G ! b)"
      "last_insn_address (f (bbs G ! b)) = last_insn_address (bbs G ! b)"
    and more: "set (incoming_edges (bbs G ! b)) \<subseteq> set (incoming_edges (f (bbs G ! b)))"
      "set (outgoing_edges (bbs G ! b)) \<subseteq> set (outgoing_edges (f (bbs G ! b)))"
  shows "keeps G (upd_bb b f G)"
proof -
  have "extends G (upd_bb b f G)"
    using b same more by (simp add: extends_def upd_bb_def nth_list_update)
  moreover have "wf_cfg (upd_bb b f G)"
    using wf b ok same unfolding wf_cfg_def by (simp add: upd_bb_def map_ok_update) (simp add: nth_list_update)
  ultimately show ?thesis by (simp add: keeps_def)
qed

lemma keeps_upd_fn:
  assumes wf: "wf_cfg G" and f: "f < length (fns G)" and ok: "fn_ok (length (bbs G)) (length (fns G)) (h (fns G ! f))"
    and same: "base_addr (h (fns G ! f)) = base_addr (fns G ! f)" "funname (h (fns G ! f)) = funname (fns G ! f)"
  shows "keeps G (upd_fn f h G)"
proof -
  have "extends G (upd_fn f h G)"
    using f same by (auto simp: extends_def upd_fn_def nth_list_update)
  moreover have "wf_cfg (upd_fn f h G)"
    using wf f ok same unfolding wf_cfg_def by (simp add: upd_fn_def map_ok_update) (simp add: nth_list_update)
  ultimately show ?thesis by (simp add: keeps_def)
qed

lemma keeps_add_edges:
  assumes wf: "wf_cfg G" and e: "e < length (edges G)"
  shows keeps_add_outgoing: "keeps G (add_outgoing_edge (e_source (edges G ! e)) e G)"
    and keeps_add_incoming: "keeps G (add_incoming_edge (e_target (edges G ! e)) e G)"
proof -
  have s: "e_source (edges G ! e) < length (bbs G)" and t: "e_target (edges G ! e) < length (bbs G)"
    using wf_edge [OF wf e] by (simp_all add: edge_ok_def)
  show "keeps G (add_outgoing_edge (e_source (edges G ! e)) e G)"
    unfolding add_outgoing_edge_def using wf_bb [OF wf s] e
    by (intro keeps_upd_bb [OF wf s]) (auto simp: bb_ok_def ptrs.invar_ins)
  show "keeps G (add_incoming_edge (e_target (edges G ! e)) e G)"
    unfolding add_incoming_edge_def using wf_bb [OF wf t] e
    by (intro keeps_upd_bb [OF wf t]) (auto simp: bb_ok_def ptrs.invar_ins)
qed

lemma keeps_flags:
  assumes wf: "wf_cfg G" and b: "b < length (bbs G)"
  shows "keeps G (set_is_entry_block b G)" "keeps G (set_is_exit_block b G)" "keeps G (set_is_dummy b G)"
    and "f < length (fns G) \<Longrightarrow> keeps G (add_containing_function b f G)"
  using wf_bb [OF wf b]
  by (auto simp: set_is_entry_block_def set_is_exit_block_def set_is_dummy_def add_containing_function_def bb_ok_def
      intro!: keeps_upd_bb [OF wf b])

lemma keeps_fn_blocks:
  assumes wf: "wf_cfg G" and f: "f < length (fns G)" and b: "b < length (bbs G)"
  shows "keeps G (add_bb f b G)" "keeps G (add_entry_block f b G)" "keeps G (add_exit_block f b G)"
    "keeps G (add_external_call f b G)"
  using wf_fn [OF wf f] b
  by (auto simp: add_bb_def add_entry_block_def add_exit_block_def add_external_call_def fn_ok_def below_insert
      intro!: keeps_upd_fn [OF wf f])

lemma keeps_fn_flags:
  assumes wf: "wf_cfg G" and f: "f < length (fns G)"
  shows "keeps G (set_addr_taken f G)" "keeps G (set_is_plt f G)" "keeps G (set_is_lib_dummy f G)" "keeps G (set_is_main f G)"
    and "g < length (fns G) \<Longrightarrow> keeps G (add_callee f g G)" "g < length (fns G) \<Longrightarrow> keeps G (add_caller f g G)"
  using wf_fn [OF wf f]
  by (auto simp: set_addr_taken_def set_is_plt_def set_is_lib_dummy_def set_is_main_def add_callee_def add_caller_def
      fn_ok_def below_insert intro!: keeps_upd_fn [OF wf f])

lemma keeps_store_function: "wf_cfg G \<Longrightarrow> f < length (fns G) \<Longrightarrow> keeps G (store_function f G)"
  using map_ok_upd [of "\<lambda>f. base_addr (fns G ! f)"] by (simp add: keeps_def extends_def store_function_def wf_cfg_def)

lemma keeps_store_bb: "wf_cfg G \<Longrightarrow> b < length (bbs G) \<Longrightarrow> keeps G (store_bb b G)"
  using map_ok_upd [of "\<lambda>b. start_address (bbs G ! b)"] map_ok_upd [of "\<lambda>b. last_insn_address (bbs G ! b)"]
  by (simp add: keeps_def extends_def store_bb_def wf_cfg_def)

lemma keeps_dummy_count: "wf_cfg G \<Longrightarrow> keeps G (G\<lparr>num_dummy_blocks := n\<rparr>)"
  by (simp add: keeps_def extends_def wf_cfg_def)

lemma bb_ok_mk_bb: "\<forall>f \<in> set fs. f < nf \<Longrightarrow> bb_ok es nf i (mk_bb a lim l fs)"
  by (simp add: bb_ok_def mk_bb_def)

lemma fn_ok_mk_function: "fn_ok nb nf (mk_function a name)"
  by (simp add: fn_ok_def mk_function_def)

lemma wf_mk_cfg: "wf_cfg (mk_cfg name)"
  by (simp add: wf_cfg_def mk_cfg_def map_ok_def)

section \<open>Lookups\<close>

lemma find_function_ok: "wf_cfg G \<Longrightarrow> find_function G a = Some f \<Longrightarrow> f < length (fns G) \<and> base_addr (fns G ! f) = a"
  unfolding wf_cfg_def find_function_def by (elim conjE) (rule map_ok_lookup [of "\<lambda>f. base_addr (fns G ! f)"])

lemma find_bb_ok: "wf_cfg G \<Longrightarrow> find_bb G a = Some b \<Longrightarrow> b < length (bbs G) \<and> start_address (bbs G ! b) = a"
  unfolding wf_cfg_def find_bb_def by (elim conjE) (rule map_ok_lookup [of "\<lambda>b. start_address (bbs G ! b)"])

lemma find_last_ok:
  "wf_cfg G \<Longrightarrow> find_bb_by_last_insn_address G a = Some b \<Longrightarrow> b < length (bbs G) \<and> last_insn_address (bbs G ! b) = a"
  unfolding wf_cfg_def find_bb_by_last_insn_address_def
  by (elim conjE) (rule map_ok_lookup [of "\<lambda>b. last_insn_address (bbs G ! b)"])

lemma addr2fn_ok: "wf_cfg G \<Longrightarrow> (a, f) \<in> set (addr2fn G) \<Longrightarrow> f < length (fns G)"
  by (auto simp: wf_cfg_def map_ok_def)

lemma find_bb_store: "find_bb (store_bb b G) a = (if a = start_address (bbs G ! b) then Some b else find_bb G a)"
  by (simp add: find_bb_def store_bb_def map_of_map_set)

section \<open>Sequences of operations\<close>

text \<open>
  What the loops of the builder have in common: a step that needs something which
  stays true while the graph grows, and keeps the invariant.  Then the loop keeps
  the invariant.
\<close>

locale cfg_steps =
  fixes op :: "'a \<Rightarrow> cfg \<Rightarrow> cfg" and pre :: "'a \<Rightarrow> cfg \<Rightarrow> bool"
  assumes pre_stable: "pre x G \<Longrightarrow> extends G G' \<Longrightarrow> pre x G'"
    and op_keeps: "wf_cfg G \<Longrightarrow> pre x G \<Longrightarrow> keeps G (op x G)"
begin

lemma fold_keeps: "wf_cfg G \<Longrightarrow> \<forall>x \<in> set xs. pre x G \<Longrightarrow> keeps G (fold op xs G)"
proof (induction xs arbitrary: G)
  case Nil
  then show ?case by (simp add: keeps_refl)
next
  case (Cons x xs)
  have k: "keeps G (op x G)" using Cons.prems op_keeps by simp
  have "\<forall>y \<in> set xs. pre y (op x G)" using Cons.prems pre_stable k by (auto simp: keeps_def)
  then have "keeps (op x G) (fold op xs (op x G))" using Cons.IH k by (simp add: keeps_def)
  then show ?case using keeps_trans [OF k] by simp
qed

end

lemma link_edge_unfold:
  "link_edge e G = (length (edges G),
     add_incoming_edge (e_target e) (length (edges G)) (add_outgoing_edge (e_source e) (length (edges G)) (G\<lparr>edges := edges G @ [e]\<rparr>)))"
  by (simp add: link_edge_def new_edge_def)

lemma keeps_link_edge:
  assumes wf: "wf_cfg G" and ok: "edge_ok (length (bbs G)) e"
  shows "keeps G (snd (link_edge e G))"
proof -
  let ?i = "length (edges G)"
  let ?G1 = "G\<lparr>edges := edges G @ [e]\<rparr>"
  let ?G2 = "add_outgoing_edge (e_source e) ?i ?G1"
  have k1: "keeps G ?G1" using keeps_new_edge [OF wf ok] by (simp add: new_edge_def)
  have k2: "keeps ?G1 ?G2" using keeps_add_outgoing [OF keeps_wf [OF k1], of ?i] by simp
  have "keeps ?G2 (add_incoming_edge (e_target e) ?i ?G2)"
    using keeps_add_incoming [OF keeps_wf [OF k2], of ?i] by (simp add: add_outgoing_edge_def upd_bb_def)
  then show ?thesis using keeps_trans [OF keeps_trans [OF k1 k2]] by (simp add: link_edge_unfold)
qed

text \<open>What the new edge looks like in the result.\<close>

lemma link_edge_simps [simp]:
  "edges (snd (link_edge e G)) = edges G @ [e]" "length (bbs (snd (link_edge e G))) = length (bbs G)"
  "fns (snd (link_edge e G)) = fns G" "addr2fn (snd (link_edge e G)) = addr2fn G"
  "start2bb (snd (link_edge e G)) = start2bb G" "last2bb (snd (link_edge e G)) = last2bb G"
  "fst (link_edge e G) = length (edges G)"
  by (simp_all add: link_edge_unfold add_outgoing_edge_def add_incoming_edge_def upd_bb_def)

lemma link_edge_linked:
  assumes "edge_ok (length (bbs G)) e"
  shows "length (edges G) \<in> set (outgoing_edges (bbs (snd (link_edge e G)) ! e_source e))"
    "length (edges G) \<in> set (incoming_edges (bbs (snd (link_edge e G)) ! e_target e))"
  using assms by (auto simp: link_edge_unfold add_outgoing_edge_def add_incoming_edge_def upd_bb_def nth_list_update edge_ok_def)

section \<open>The operations of the graph\<close>

lemma mk_edge_simps [simp]:
  "e_source (mk_edge s t) = s" "e_target (mk_edge s t) = t" "e_source (mk_typed_edge u s t ty) = s"
  "e_target (mk_typed_edge u s t ty) = t" "e_type (mk_typed_edge u s t ty) = ty" "e_hidden (mk_typed_edge u s t ty) = False"
  "e_type (mk_edge s t) = arms_unknown" "e_hidden (mk_edge s t) = False"
  by (simp_all add: mk_edge_def mk_typed_edge_def set_type_def Let_def)

lemma extends_bb_less: "extends G G' \<Longrightarrow> b < length (bbs G) \<Longrightarrow> b < length (bbs G')"
  by (simp add: extends_def)

lemma extends_fn_less: "extends G G' \<Longrightarrow> f < length (fns G) \<Longrightarrow> f < length (fns G')"
  by (simp add: extends_def)

lemma keeps_create_call_edge: "wf_cfg G \<Longrightarrow> site < length (bbs G) \<Longrightarrow> keeps G (create_call_edge site target ty G)"
  using find_bb_ok keeps_link_edge by (auto simp: create_call_edge_def edge_ok_def keeps_refl split: option.splits)

interpretation ret_edges: cfg_steps
  "\<lambda>s G. snd (link_edge (mk_typed_edge (uninit G) s t arms_ret) G)" "\<lambda>s G. s < length (bbs G) \<and> t < length (bbs G)" for t
  by unfold_locales (auto intro: extends_bb_less keeps_link_edge simp: edge_ok_def)

lemma keeps_callback_ret:
  "wf_cfg G \<Longrightarrow> f < length (fns G) \<Longrightarrow> t < length (bbs G) \<Longrightarrow> keeps G (callback_create_ret_edges f t G)"
  unfolding callback_create_ret_edges_def using wf_fn [of G f]
  by (intro ret_edges.fold_keeps) (auto simp: fn_ok_def below_def)

interpretation callback_ret: cfg_steps "\<lambda>f. callback_create_ret_edges f t" "\<lambda>f G. f < length (fns G) \<and> t < length (bbs G)" for t
  by unfold_locales (auto intro: extends_bb_less extends_fn_less keeps_callback_ret)

lemma bb_funcs_less: "wf_cfg G \<Longrightarrow> b < length (bbs G) \<Longrightarrow> f \<in> set (bb_funcs (bbs G ! b)) \<Longrightarrow> f < length (fns G)"
  using wf_bb by (auto simp: bb_ok_def)

lemma keeps_create_ret_edges:
  assumes "wf_cfg G"
  shows "keeps G (create_ret_edges site target G)"
  using find_bb_ok [OF assms] bb_funcs_less [OF assms] keeps_refl [OF assms] assms
  by (auto simp: create_ret_edges_def split: option.splits intro!: callback_ret.fold_keeps)

interpretation external: cfg_steps "\<lambda>g. add_external_call g b" "\<lambda>g G. g < length (fns G) \<and> b < length (bbs G)" for b
  by unfold_locales (auto intro: extends_bb_less extends_fn_less keeps_fn_blocks)

lemma keeps_external_calls:
  assumes "wf_cfg G" "site < length (bbs G)"
  shows "keeps G (fold (\<lambda>g. add_external_call g site) (bb_funcs (bbs G ! site)) G)"
  using assms wf_bb [OF assms] by (intro external.fold_keeps) (auto simp: bb_ok_def)

lemma keeps_handle_interprocedural_call:
  assumes wf: "wf_cfg G" and site: "site < length (bbs G)"
  shows "keeps G (handle_interprocedural_call site target ty G)"
proof -
  let ?G1 = "create_call_edge site target ty G"
  let ?G2 = "case find_function ?G1 target of
      Some f \<Rightarrow> if is_plt (fns ?G1 ! f) then fold (\<lambda>g. add_external_call g site) (bb_funcs (bbs ?G1 ! site)) ?G1 else ?G1
    | None \<Rightarrow> ?G1"
  have k1: "keeps G ?G1" by (rule keeps_create_call_edge [OF wf site])
  have s1: "site < length (bbs ?G1)" using k1 extends_bb_less [OF _ site] by (simp add: keeps_def)
  have k2: "keeps ?G1 ?G2"
    using keeps_external_calls [OF keeps_wf [OF k1] s1] keeps_refl [OF keeps_wf [OF k1]] by (simp split: option.splits)
  have "keeps ?G2 (handle_interprocedural_call site target ty G)"
    using keeps_create_ret_edges [OF keeps_wf [OF k2]] keeps_refl [OF keeps_wf [OF k2]]
    by (simp add: handle_interprocedural_call_def Let_def)
  then show ?thesis using keeps_trans [OF keeps_trans [OF k1 k2]] by blast
qed

lemma keeps_handle_interprocedural:
  "wf_cfg G \<Longrightarrow> site < length (bbs G) \<Longrightarrow> handle_interprocedural site target ty G = Some G' \<Longrightarrow> keeps G G'"
  by (auto simp: handle_interprocedural_def keeps_handle_interprocedural_call keeps_refl split: if_splits)

lemma keeps_dummy_bb_at:
  assumes wf: "wf_cfg G" and fn: "\<forall>f. fn = Some f \<longrightarrow> f < length (fns G)"
    and new: "create_dummy_basic_block_at a lim fn G = (b, G')"
  shows "keeps G G' \<and> b < length (bbs G')"
proof -
  let ?G1 = "G\<lparr>num_dummy_blocks := num_dummy_blocks G + 1\<rparr>"
  have k1: "keeps G ?G1" by (rule keeps_dummy_count [OF wf])
  obtain G2 where n: "new_bb (mk_bb a lim a (case fn of None \<Rightarrow> [] | Some f \<Rightarrow> [f])) ?G1 = (length (bbs G), G2)"
    by (simp add: new_bb_def)
  have k2: "keeps ?G1 G2"
    by (rule keeps_new_bb [OF keeps_wf [OF k1] bb_ok_mk_bb n]) (use fn in \<open>auto split: option.splits\<close>)
  have b: "length (bbs G) < length (bbs G2)" using n by (auto simp: new_bb_def)
  have G': "G' = set_is_dummy (length (bbs G)) G2" "b = length (bbs G)"
    using new by (auto simp: create_dummy_basic_block_at_def Let_def n)
  have k3: "keeps G2 G'" unfolding G' by (rule keeps_flags(3) [OF keeps_wf [OF k2] b])
  have "length (bbs G') = length (bbs G2)" by (simp add: G' set_is_dummy_def upd_bb_def)
  then show ?thesis using keeps_trans [OF keeps_trans [OF k1 k2] k3] b G' by simp
qed

lemma keeps_dummy_bb:
  assumes "wf_cfg G" "\<forall>f. fn = Some f \<longrightarrow> f < length (fns G)" "create_dummy_basic_block fn G = (b, G')"
  shows "keeps G G' \<and> b < length (bbs G')"
  using keeps_dummy_bb_at [OF assms(1,2)] assms(3)
  by (simp add: create_dummy_basic_block_def create_dummy_basic_block_at_def Let_def)

lemma keeps_create_dummy_function:
  assumes wf: "wf_cfg G" and new: "create_dummy_function name a G = (f, G')"
  shows "keeps G G' \<and> f < length (fns G')"
proof (cases "find_function G a")
  case (Some g)
  then show ?thesis using new find_function_ok [OF wf Some] keeps_refl [OF wf] by (simp add: create_dummy_function_def)
next
  case None
  obtain G1 where n: "new_fn (mk_function a name) G = (length (fns G), G1)" by (simp add: new_fn_def)
  let ?f = "length (fns G)"
  let ?G2 = "store_function ?f G1"
  obtain b G3 where d: "create_dummy_basic_block_at a (a + 1) (Some ?f) ?G2 = (b, G3)" by fastforce
  let ?G4 = "store_bb b G3"
  let ?G5 = "add_entry_block ?f b ?G4"
  have f: "f = ?f" and G': "G' = add_exit_block ?f b ?G5" using new None by (auto simp: create_dummy_function_def n d Let_def)
  have k1: "keeps G G1" by (rule keeps_new_fn [OF wf fn_ok_mk_function n])
  have f1: "?f < length (fns G1)" using n by (auto simp: new_fn_def)
  have k2: "keeps G1 ?G2" by (rule keeps_store_function [OF keeps_wf [OF k1] f1])
  have f2: "?f < length (fns ?G2)" using k2 f1 extends_fn_less by (auto simp: keeps_def)
  have k3: "keeps ?G2 G3" and b3: "b < length (bbs G3)" using keeps_dummy_bb_at [OF keeps_wf [OF k2] _ d] f2 by auto
  have k4: "keeps G3 ?G4" by (rule keeps_store_bb [OF keeps_wf [OF k3] b3])
  have f4: "?f < length (fns ?G4)" using k3 k4 f2 extends_fn_less by (meson keeps_def)
  have b4: "b < length (bbs ?G4)" using k4 b3 extends_bb_less by (meson keeps_def)
  have k5: "keeps ?G4 ?G5" by (rule keeps_fn_blocks(2) [OF keeps_wf [OF k4] f4 b4])
  have f5: "?f < length (fns ?G5)" "b < length (bbs ?G5)" using k5 f4 b4 extends_fn_less extends_bb_less by (meson keeps_def)+
  have k6: "keeps ?G5 G'" unfolding G' by (rule keeps_fn_blocks(3) [OF keeps_wf [OF k5] f5])
  then have "f < length (fns G')" using f f5 extends_fn_less by (meson keeps_def)
  then show ?thesis using k1 k2 k3 k4 k5 k6 keeps_trans by blast
qed

lemma keeps_create_plt_function:
  assumes "wf_cfg G" "create_plt_function name a G = (f, G')"
  shows "keeps G G' \<and> f < length (fns G')"
proof -
  obtain G1 where c: "create_dummy_function name a G = (f, G1)" and G': "G' = set_is_plt f G1"
    using assms(2) by (auto simp: create_plt_function_def split: prod.splits)
  have k: "keeps G G1" "f < length (fns G1)" using keeps_create_dummy_function [OF assms(1) c] by simp_all
  have "keeps G1 G'" unfolding G' by (rule keeps_fn_flags(2) [OF keeps_wf [OF k(1)] k(2)])
  then show ?thesis using keeps_trans [OF k(1)] k(2) by (simp add: G' set_is_plt_def upd_fn_def)
qed

lemma keeps_new_stored_bb:
  assumes "wf_cfg G" "\<forall>f \<in> set fs. f < length (fns G)" "new_bb (mk_bb a lim l fs) G = (b, G1)"
  shows "keeps G (store_bb b G1) \<and> b < length (bbs (store_bb b G1))"
proof -
  have k: "keeps G G1" by (rule keeps_new_bb [OF assms(1) bb_ok_mk_bb [OF assms(2)] assms(3)])
  have b: "b < length (bbs G1)" using assms(3) by (auto simp: new_bb_def)
  then show ?thesis using keeps_trans [OF k keeps_store_bb [OF keeps_wf [OF k] b]] by (simp add: store_bb_def)
qed

definition find_or_new :: "nat option \<Rightarrow> u64 \<Rightarrow> cfg \<Rightarrow> nat \<times> cfg" where
  "find_or_new found a G =
    (case found of
       Some s \<Rightarrow> (s, G)
     | None \<Rightarrow> (let (s, G) = new_bb (mk_bb a (a + 1) a []) G in (s, store_bb s G)))"

lemma create_and_add_edge_unfold:
  "create_and_add_edge source target G =
    (let (s, G) = find_or_new (find_bb_by_last_insn_address G source) source G;
         (t, G) = find_or_new (find_bb G target) target G
     in link_edge (mk_edge s t) G)"
  by (simp add: create_and_add_edge_def find_or_new_def)

lemma keeps_find_or_new:
  assumes "wf_cfg G" "\<forall>b. found = Some b \<longrightarrow> b < length (bbs G)" "find_or_new found a G = (s, G')"
  shows "keeps G G' \<and> s < length (bbs G')"
  using assms keeps_new_stored_bb [OF assms(1), of "[]" a "a + 1" a]
  by (auto simp: find_or_new_def keeps_refl split: option.splits prod.splits)

lemma keeps_create_and_add_edge:
  assumes wf: "wf_cfg G" and new: "create_and_add_edge source target G = (e, G')"
  shows "keeps G G' \<and> e < length (edges G')"
proof -
  obtain s G1 where 1: "find_or_new (find_bb_by_last_insn_address G source) source G = (s, G1)" by fastforce
  obtain t G2 where 2: "find_or_new (find_bb G1 target) target G1 = (t, G2)" by fastforce
  have k1: "keeps G G1" "s < length (bbs G1)" using keeps_find_or_new [OF wf _ 1] find_last_ok [OF wf] by auto
  have k2: "keeps G1 G2" "t < length (bbs G2)"
    using keeps_find_or_new [OF keeps_wf [OF k1(1)] _ 2] find_bb_ok [OF keeps_wf [OF k1(1)]] by auto
  have ok: "edge_ok (length (bbs G2)) (mk_edge s t)" using k1 k2 extends_bb_less by (auto simp: edge_ok_def keeps_def)
  have r: "link_edge (mk_edge s t) G2 = (e, G')" using new by (simp add: create_and_add_edge_unfold 1 2)
  have "keeps G2 G'" using keeps_link_edge [OF keeps_wf [OF k2(1)] ok] by (simp add: r)
  moreover have "e < length (edges G')" using link_edge_simps(1,7) [of "mk_edge s t" G2] by (simp add: r)
  ultimately show ?thesis using keeps_trans [OF keeps_trans [OF k1(1) k2(1)]] by blast
qed

interpretation add_edges: cfg_steps "\<lambda>(source, target) G. snd (create_and_add_edge source target G)" "\<lambda>_ _. True"
  using keeps_create_and_add_edge by unfold_locales (auto split: prod.splits, metis prod.collapse)

lemma keeps_create_and_add_edge_bb:
  assumes wf: "wf_cfg G" and st: "s < length (bbs G)" "t < length (bbs G)"
    and new: "create_and_add_edge_bb s t G = Some (e, G')"
  shows "keeps G G' \<and> e = length (edges G) \<and> edges G' = edges G @ [mk_edge s t]"
proof -
  define G1 where "G1 = (if find_bb G (start_address (bbs G ! s)) = None then store_bb s G else G)"
  define G2 where "G2 = (if find_bb G1 (start_address (bbs G1 ! t)) = None then store_bb t G1 else G1)"
  have k1: "keeps G G1" by (simp add: G1_def keeps_refl [OF wf] keeps_store_bb [OF wf st(1)])
  have b1: "bbs G1 = bbs G" "edges G1 = edges G" by (simp_all add: G1_def store_bb_def)
  have k2: "keeps G1 G2"
    using keeps_refl [OF keeps_wf [OF k1]] keeps_store_bb [OF keeps_wf [OF k1]] st by (simp add: G2_def b1)
  have b2: "bbs G2 = bbs G" "edges G2 = edges G" by (simp_all add: G2_def b1 store_bb_def)
  have r: "link_edge (mk_edge s t) G2 = (e, G')"
    using new unfolding create_and_add_edge_bb_def Let_def G1_def [symmetric] G2_def [symmetric]
    by (simp add: G2_def [symmetric] split: if_splits)
  have "keeps G2 G'"
    using keeps_link_edge [OF keeps_wf [OF k2], of "mk_edge s t"] st by (simp add: r b2 edge_ok_def)
  then show ?thesis
    using keeps_trans [OF keeps_trans [OF k1 k2]] link_edge_simps(1,7) [of "mk_edge s t" G2] by (simp add: r b2)
qed

text \<open>Marking the functions whose address is taken.\<close>

definition indirectly_entered :: "cfg \<Rightarrow> nat \<Rightarrow> bool" where
  "indirectly_entered G f \<longleftrightarrow>
    (\<exists>b \<in> set (entry_points (fns G ! f)). \<exists>e \<in> set (incoming_edges (bbs G ! b)). is_indirect (edges G ! e))"

lemma entry_has_indirect_iff: "entry_has_indirect G es \<longleftrightarrow> (\<exists>e \<in> set es. is_indirect (edges G ! e))"
  by (induction es) auto

lemma set_addr_taken_simps [simp]:
  "bbs (set_addr_taken f G) = bbs G" "edges (set_addr_taken f G) = edges G" "addr2fn (set_addr_taken f G) = addr2fn G"
  "length (fns (set_addr_taken f G)) = length (fns G)"
  by (simp_all add: set_addr_taken_def upd_fn_def)

lemma mark_entries_eq:
  assumes "f < length (fns G)"
  shows "mark_entries f bs G =
    (if (\<exists>b \<in> set bs. \<exists>e \<in> set (incoming_edges (bbs G ! b)). is_indirect (edges G ! e)) \<and> \<not> addr_taken (fns G ! f)
     then set_addr_taken f G else
     if bs \<noteq> [] \<and> entry_has_indirect G (incoming_edges (bbs G ! hd bs)) then set_addr_taken f G else G)"
  using assms
proof (induction bs)
  case (Cons b bs)
  then show ?case
    by (cases "addr_taken (fns G ! f)")
      (auto simp: Let_def entry_has_indirect_iff set_addr_taken_def upd_fn_def neq_Nil_conv)
qed simp

lemma set_addr_taken_id: "f < length (fns G) \<Longrightarrow> addr_taken (fns G ! f) \<Longrightarrow> set_addr_taken f G = G"
  by (simp add: set_addr_taken_def upd_fn_def list_update_same_conv)

lemma mark_function_if_at_eq:
  assumes "f < length (fns G)"
  shows "mark_function_if_at f G = (if \<not> is_lib_dummy (fns G ! f) \<and> indirectly_entered G f then set_addr_taken f G else G)"
  using assms set_addr_taken_id [OF assms]
  by (auto simp: mark_function_if_at_def mark_entries_eq indirectly_entered_def entry_has_indirect_iff)

interpretation marking: cfg_steps "\<lambda>(a, f). mark_function_if_at f" "\<lambda>(a, f) G. f < length (fns G)"
  by unfold_locales (auto simp: mark_function_if_at_eq keeps_refl intro: extends_fn_less keeps_fn_flags)

lemma keeps_mark_at_functions: "wf_cfg G \<Longrightarrow> keeps G (mark_at_functions G)"
  unfolding mark_at_functions_def by (rule marking.fold_keeps) (auto dest: addr2fn_ok)

lemma addr_taken_marked:
  "f < length (fns G) \<Longrightarrow> addr_taken (fns (set_addr_taken f G) ! g) = (addr_taken (fns G ! g) \<or> f = g)"
  by (cases "f = g") (simp_all add: set_addr_taken_def upd_fn_def)

lemma is_lib_dummy_set [simp]: "is_lib_dummy (fns (set_addr_taken f G) ! g) = is_lib_dummy (fns G ! g)"
  by (cases "f = g"; cases "f < length (fns G)") (simp_all add: set_addr_taken_def upd_fn_def list_update_beyond)

lemma entry_points_set [simp]: "entry_points (fns (set_addr_taken f G) ! g) = entry_points (fns G ! g)"
  by (cases "f = g"; cases "f < length (fns G)") (simp_all add: set_addr_taken_def upd_fn_def list_update_beyond)

lemma indirectly_entered_set [simp]: "indirectly_entered (set_addr_taken f G) g = indirectly_entered G g"
  by (simp add: indirectly_entered_def)

lemma fold_mark:
  assumes "\<forall>(a, f) \<in> set ps. f < length (fns G)"
  shows "addr_taken (fns (fold (\<lambda>(a, f). mark_function_if_at f) ps G) ! g) \<longleftrightarrow>
    addr_taken (fns G ! g) \<or> (g \<in> snd ` set ps \<and> \<not> is_lib_dummy (fns G ! g) \<and> indirectly_entered G g)"
  using assms
proof (induction ps arbitrary: G)
  case (Cons p ps)
  obtain a f where p: "p = (a, f)" by fastforce
  have f: "f < length (fns G)" and r: "\<forall>(a, f) \<in> set ps. f < length (fns G)" using Cons.prems by (auto simp: p)
  show ?case
    using Cons.IH [of G] Cons.IH [of "set_addr_taken f G"] r f
    by (auto simp: p mark_function_if_at_eq addr_taken_marked)
qed simp

text \<open>Deleting edges keeps the invariant too.\<close>

lemma wf_delete:
  assumes wf: "wf_cfg G" and b: "b < length (bbs G)"
  shows "wf_cfg (delete_incoming_edge b e G)" "wf_cfg (delete_outgoing_edge b e G)"
  using wf b wf_bb [OF wf b] unfolding wf_cfg_def
  by (simp_all add: delete_incoming_edge_def delete_outgoing_edge_def upd_bb_def map_ok_update)
    (auto simp: nth_list_update bb_ok_def ptrs.invar_era ptrs.elems_era)

lemma delete_simps [simp]:
  "edges (delete_incoming_edge b e G) = edges G" "length (bbs (delete_incoming_edge b e G)) = length (bbs G)"
  "edges (delete_outgoing_edge b e G) = edges G" "length (bbs (delete_outgoing_edge b e G)) = length (bbs G)"
  by (simp_all add: delete_incoming_edge_def delete_outgoing_edge_def upd_bb_def)

lemma wf_edge_unlink: "wf_cfg G \<Longrightarrow> e < length (edges G) \<Longrightarrow> wf_cfg (edge_unlink e G)"
  using wf_edge [of G e] by (simp add: edge_unlink_def wf_delete edge_ok_def)

lemma first_call_ft_in: "first_call_ft G es = Some e \<Longrightarrow> e \<in> set es \<and> e_type (edges G ! e) = arms_call_ft"
  by (auto simp: first_call_ft_def find_Some_iff)

lemma wf_drop_call_ft_edge:
  assumes wf: "wf_cfg G" and b: "b < length (bbs G)"
  shows "wf_cfg (drop_call_ft_edge b G)"
proof (cases "first_call_ft G (outgoing_edges (bbs G ! b))")
  case (Some e)
  have "e < length (edges G)" using first_call_ft_in [OF Some] wf_bb [OF wf b] by (auto simp: bb_ok_def)
  then have t: "e_target (edges G ! e) < length (bbs G)" using wf_edge [OF wf] by (simp add: edge_ok_def)
  have "wf_cfg (drop_incoming_call_ft_edge (e_target (edges G ! e)) G)"
    "length (bbs (drop_incoming_call_ft_edge (e_target (edges G ! e)) G)) = length (bbs G)"
    using wf_delete(1) [OF wf t] by (simp_all add: drop_incoming_call_ft_edge_def wf split: option.split)
  then show ?thesis using b by (simp add: drop_call_ft_edge_def Some wf_delete)
qed (simp add: drop_call_ft_edge_def wf)

lemma wf_load_cfg: "wf_cfg (load_cfg_from_file path lns)"
  using add_edges.fold_keeps [OF wf_mk_cfg [of path], of lns] by (simp add: load_cfg_from_file_def keeps_def)

section \<open>Properties\<close>

text \<open>
  C25: Every operation that grows the graph keeps it well formed and only adds to
  it: linking calls and returns, creating edges by address or by block, dummy and
  PLT functions, and marking address-taken functions.
\<close>
theorem cfg_operations_keep_wf:
  assumes wf: "wf_cfg G" and site: "site < length (bbs G)" and t: "t < length (bbs G)"
  shows "(\<forall>G'. handle_interprocedural site target ty G = Some G' \<longrightarrow> wf_cfg G' \<and> extends G G') \<and>
    (wf_cfg (snd (create_and_add_edge a b G)) \<and> extends G (snd (create_and_add_edge a b G))) \<and>
    (\<forall>e G'. create_and_add_edge_bb site t G = Some (e, G') \<longrightarrow> wf_cfg G' \<and> extends G G') \<and>
    (wf_cfg (snd (create_dummy_function name a G)) \<and> extends G (snd (create_dummy_function name a G))) \<and>
    (wf_cfg (snd (create_plt_function name a G)) \<and> extends G (snd (create_plt_function name a G))) \<and>
    (wf_cfg (mark_at_functions G) \<and> extends G (mark_at_functions G)) \<and> wf_cfg (load_cfg_from_file path lns)"
  using keeps_handle_interprocedural [OF wf site] keeps_create_and_add_edge [OF wf, of a b]
    keeps_create_and_add_edge_bb [OF wf site t] keeps_create_dummy_function [OF wf, of name a]
    keeps_create_plt_function [OF wf, of name a] keeps_mark_at_functions [OF wf]
  by (simp add: keeps_def wf_load_cfg) (metis prod.collapse)

definition demo_cfg :: cfg where
  "demo_cfg = load_cfg_from_file ''demo'' [(0x10, 0x20), (0x20, 0x30)]"

lemma demo_cfg_eq: "length (bbs demo_cfg) = 3"
  by (simp add: demo_cfg_def load_cfg_from_file_def create_and_add_edge_def mk_cfg_def find_bb_by_last_insn_address_def
      find_bb_def new_bb_def store_bb_def mk_bb_def link_edge_unfold add_outgoing_edge_def add_incoming_edge_def upd_bb_def
      mk_edge_def set_insert_def)

lemma wf_demo_cfg: "wf_cfg demo_cfg"
  unfolding demo_cfg_def by (rule wf_load_cfg)

theorem cfg_operations_keep_wf_witness:
  "wf_cfg demo_cfg \<and> wf_cfg (snd (create_and_add_edge 0x30 0x10 demo_cfg)) \<and> wf_cfg (mark_at_functions demo_cfg)"
  using cfg_operations_keep_wf [of demo_cfg 0 1 "0x20" arms_direct_call "0x30" "0x10" "''f''" "''demo''" "[]"] demo_cfg_eq wf_demo_cfg
  by simp

text \<open>
  \<open>mark_at_functions\<close> marks exactly the stored functions that are no library
  dummies and have an indirect edge into one of their entry blocks; marks made
  before stay.
\<close>
theorem mark_at_functions_exact:
  assumes "wf_cfg G"
  shows "addr_taken (fns (mark_at_functions G) ! f) \<longleftrightarrow>
    addr_taken (fns G ! f) \<or>
    (f \<in> snd ` set (addr2fn G) \<and> \<not> is_lib_dummy (fns G ! f) \<and>
      (\<exists>b \<in> set (entry_points (fns G ! f)). \<exists>e \<in> set (incoming_edges (bbs G ! b)). is_indirect (edges G ! e)))"
  using fold_mark [of "addr2fn G" G f] addr2fn_ok [OF assms] by (auto simp: mark_at_functions_def indirectly_entered_def)

theorem mark_at_functions_exact_witness:
  "wf_cfg demo_cfg \<and> (addr_taken (fns (mark_at_functions demo_cfg) ! 0) \<longleftrightarrow>
    addr_taken (fns demo_cfg ! 0) \<or>
    (0 \<in> snd ` set (addr2fn demo_cfg) \<and> \<not> is_lib_dummy (fns demo_cfg ! 0) \<and>
      (\<exists>b \<in> set (entry_points (fns demo_cfg ! 0)). \<exists>e \<in> set (incoming_edges (bbs demo_cfg ! b)). is_indirect (edges demo_cfg ! e))))"
  using mark_at_functions_exact [OF wf_demo_cfg, of 0] wf_demo_cfg by blast

text \<open>
  \<open>find_edge\<close> finds an edge exactly when the block that ends at the source
  address has an outgoing edge to a block that starts at the target address.
\<close>
theorem find_edge_exact:
  assumes "wf_cfg G"
  shows "(\<forall>e. find_edge G src dst = Some e \<longrightarrow>
      e < length (edges G) \<and> last_insn_address (bbs G ! e_source (edges G ! e)) = src \<and>
      start_address (bbs G ! e_target (edges G ! e)) = dst) \<and>
    (find_edge G src dst = None \<longleftrightarrow>
      (\<forall>b. find_bb_by_last_insn_address G src = Some b \<longrightarrow>
        (\<forall>e \<in> set (outgoing_edges (bbs G ! b)). start_address (bbs G ! e_target (edges G ! e)) \<noteq> dst)))"
proof (cases "find_bb_by_last_insn_address G src")
  case (Some b)
  have b: "b < length (bbs G)" "last_insn_address (bbs G ! b) = src" using find_last_ok [OF assms Some] by simp_all
  then show ?thesis
    using wf_bb [OF assms b(1)] by (auto simp: find_edge_def Some find_None_iff bb_ok_def find_Some_iff)
qed (simp add: find_edge_def)

theorem find_edge_exact_witness:
  "wf_cfg demo_cfg \<and> (\<forall>e. find_edge demo_cfg 0x10 0x20 = Some e \<longrightarrow>
      last_insn_address (bbs demo_cfg ! e_source (edges demo_cfg ! e)) = 0x10) \<and> find_edge demo_cfg 0x10 0x20 = Some 0"
  using find_edge_exact [OF wf_demo_cfg, of "0x10" "0x20"] wf_demo_cfg
  by (simp add: demo_cfg_def load_cfg_from_file_def create_and_add_edge_def mk_cfg_def find_bb_by_last_insn_address_def
      find_bb_def new_bb_def store_bb_def mk_bb_def link_edge_unfold add_outgoing_edge_def add_incoming_edge_def upd_bb_def
      mk_edge_def set_insert_def find_edge_def)

end
