(* ===== verification/Cfg_Build.thy ===== *)
theory Cfg_Build
  imports Cfg_Invariant
begin

text \<open>
  Building the graph from what Dyninst parsed (\<open>DICFG\<close> in
  \<open>src/dyninst-static/arms_dyninst_cfg.c\<close>) and the resolver of indirect calls
  (\<open>arms_icall_resolver.h\<close>).

  Dyninst itself is not modelled.  Its parse result is the argument: the list of
  functions with their blocks, the edges of the blocks, the modules of the image
  and the PLT targets.  The output of the script the resolver runs is a function
  of the call site.  \<open>None\<close> is a failed \<open>assert\<close>, a dereferenced null pointer or
  \<open>exit(1)\<close>.
\<close>

section \<open>The parse result\<close>

datatype EdgeTypeEnum = CALL | COND_TAKEN | COND_NOT_TAKEN | INDIRECT | DIRECT | FALLTHROUGH | CATCH | CALL_FT | RET
  | NOEDGE | edgetype_end

record parsed_edge =
  pe_type :: EdgeTypeEnum
  pe_trg :: u64
  pe_interproc :: bool

record parsed_block =
  pb_start :: u64
  pb_end :: u64
  pb_last :: u64
  pb_funcs :: "u64 list"
  pb_targets :: "parsed_edge list"

record parsed_func =
  pf_addr :: u64
  pf_name :: string
  pf_blocks :: "parsed_block list"
  pf_entry :: "u64 option"
  pf_returns :: "u64 list"

text \<open>The start address of Dyninst's sink block, the target of an edge that is not resolved.\<close>

definition sink :: u64 where "sink = - 1"

section \<open>Resolving indirect calls\<close>

fun split_on :: "char \<Rightarrow> string \<Rightarrow> string list" where
  "split_on sep [] = [[]]"
| "split_on sep (c # cs) =
    (if c = sep then [] # split_on sep cs
     else case split_on sep cs of [] \<Rightarrow> [[c]] | w # ws \<Rightarrow> (c # w) # ws)"

definition hex_digit :: "char \<Rightarrow> int option" where
  "hex_digit c =
    (let n = int (of_char c) in
     if 48 \<le> n \<and> n \<le> 57 then Some (n - 48) else if 97 \<le> n \<and> n \<le> 102 then Some (n - 87)
     else if 65 \<le> n \<and> n \<le> 70 then Some (n - 55) else None)"

fun hex_value :: "int \<Rightarrow> string \<Rightarrow> int" where
  "hex_value acc [] = acc"
| "hex_value acc (c # cs) = (case hex_digit c of None \<Rightarrow> acc | Some d \<Rightarrow> hex_value (16 * acc + d) cs)"

definition skip_0x :: "string \<Rightarrow> string" where
  "skip_0x s =
    (case s of c0 # x # d # r \<Rightarrow>
       if c0 = CHR ''0'' \<and> (x = CHR ''x'' \<or> x = CHR ''X'') \<and> hex_digit d \<noteq> None then d # r else s
     | _ \<Rightarrow> s)"

definition is_space :: "char \<Rightarrow> bool" where
  "is_space c \<longleftrightarrow> (of_char c :: nat) = 32 \<or> (9 \<le> (of_char c :: nat) \<and> (of_char c :: nat) \<le> 13)"

definition strtoll16 :: "string \<Rightarrow> int" where
  "strtoll16 s =
    (let s = dropWhile is_space s;
         v = (case s of c # r \<Rightarrow>
                if c = CHR ''-'' then - hex_value 0 (skip_0x r) else if c = CHR ''+'' then hex_value 0 (skip_0x r)
                else hex_value 0 (skip_0x s)
              | [] \<Rightarrow> 0)
     in max (- (2 ^ 63)) (min (2 ^ 63 - 1) v))"

definition arms_icall_resolver :: "(u64 \<Rightarrow> string option) \<Rightarrow> u64 \<Rightarrow> u64 list option" where
  "arms_icall_resolver script site =
    (case script site of
       None \<Rightarrow> None
     | Some out \<Rightarrow> Some (map (\<lambda>tok. of_int (strtoll16 tok)) (split_on (CHR '','') out)))"

section \<open>Importing functions and blocks\<close>

fun fold_opt :: "('a \<Rightarrow> 's \<Rightarrow> 's option) \<Rightarrow> 'a list \<Rightarrow> 's \<Rightarrow> 's option" where
  "fold_opt f [] s = Some s"
| "fold_opt f (x # xs) s = (case f x s of None \<Rightarrow> None | Some s' \<Rightarrow> fold_opt f xs s')"

definition insert_function :: "parsed_func \<Rightarrow> cfg \<Rightarrow> cfg option" where
  "insert_function pf G =
    (case find_function G (pf_addr pf) of
       Some f \<Rightarrow> Some G
     | None \<Rightarrow> (let (f, G) = new_fn (mk_function (pf_addr pf) (pf_name pf)) G in Some (store_function f G)))"

definition insert_containing :: "nat \<Rightarrow> u64 \<Rightarrow> cfg \<Rightarrow> cfg option" where
  "insert_containing b a G =
    (case find_function G a of
       None \<Rightarrow> None
     | Some cf \<Rightarrow> Some (add_bb cf b (add_containing_function b cf G)))"

definition insert_block :: "parsed_block \<Rightarrow> cfg \<Rightarrow> cfg option" where
  "insert_block pb G =
    (case find_bb G (pb_start pb) of
       Some b \<Rightarrow> Some G
     | None \<Rightarrow>
         (let (b, G) = new_bb (mk_bb (pb_start pb) (pb_end pb) (pb_last pb) []) G;
              G = store_bb b G
          in fold_opt (insert_containing b) (pb_funcs pb) G))"

definition mark_exit :: "nat \<Rightarrow> u64 \<Rightarrow> cfg \<Rightarrow> cfg option" where
  "mark_exit f a G =
    (case find_bb G a of
       None \<Rightarrow> None
     | Some b \<Rightarrow> Some (add_exit_block f b (set_is_exit_block b G)))"

definition mark_entry_and_exits :: "parsed_func \<Rightarrow> cfg \<Rightarrow> cfg option" where
  "mark_entry_and_exits pf G =
    (case pf_entry pf of
       None \<Rightarrow> None
     | Some a \<Rightarrow>
         (case (find_function G (pf_addr pf), find_bb G a) of
            (Some f, Some b) \<Rightarrow> fold_opt (mark_exit f) (pf_returns pf) (add_entry_block f b (set_is_entry_block b G))
          | _ \<Rightarrow> None))"

definition insert_functions_and_bbs :: "parsed_func list \<Rightarrow> cfg \<Rightarrow> cfg option" where
  "insert_functions_and_bbs funcs G =
    (case fold_opt insert_function funcs G of
       None \<Rightarrow> None
     | Some G \<Rightarrow>
         (case fold_opt (\<lambda>pf. fold_opt insert_block (pf_blocks pf)) funcs G of
            None \<Rightarrow> None
          | Some G \<Rightarrow> fold_opt mark_entry_and_exits funcs G))"

section \<open>Importing edges\<close>

definition copy_edge_type :: "EdgeTypeEnum \<Rightarrow> bool \<Rightarrow> bool \<Rightarrow> arms_edge \<Rightarrow> arms_edge option" where
  "copy_edge_type ty interproc indirect e =
    (case ty of
       CALL \<Rightarrow> Some (set_type (if indirect then arms_indirect_call else arms_direct_call) e)
     | COND_TAKEN \<Rightarrow> Some (set_type arms_cond_taken e)
     | COND_NOT_TAKEN \<Rightarrow> Some (set_type arms_cond_not_taken e)
     | INDIRECT \<Rightarrow> Some (set_type (if interproc then arms_inter_indirect_jmp else arms_indirect_jmp) e)
     | DIRECT \<Rightarrow> Some (set_type (if interproc then arms_inter_direct_jmp else arms_direct_jmp) e)
     | FALLTHROUGH \<Rightarrow> Some (set_type arms_fallthrough e)
     | CATCH \<Rightarrow> Some (set_type arms_catch e)
     | CALL_FT \<Rightarrow> Some (set_type arms_call_ft e)
     | RET \<Rightarrow> Some (set_type arms_ret e)
     | _ \<Rightarrow> None)"

definition skipped :: "parsed_edge \<Rightarrow> bool" where
  "skipped pe \<longleftrightarrow> pe_type pe = CALL_FT \<or> (pe_type pe = RET \<and> pe_trg pe = sink)"

text \<open>
  One turn of the loop over the edges of a block: the source is block \<open>s\<close>, in
  function \<open>f\<close>, and its last instruction is at \<open>site\<close>.  \<open>add_parsed_edge\<close> is the end of
  the loop body, from the test of \<open>arms_target_block\<close> on.
\<close>

definition add_parsed_edge :: "nat option \<Rightarrow> nat \<Rightarrow> parsed_edge \<Rightarrow> nat option \<Rightarrow> cfg \<Rightarrow> cfg option" where
  "add_parsed_edge f s pe target G =
    (let (t, G) = (case target of Some t \<Rightarrow> (t, G) | None \<Rightarrow> create_dummy_basic_block f G)
     in map_option (\<lambda>e. snd (link_edge e G))
          (copy_edge_type (pe_type pe) (pe_interproc pe) (pe_trg pe = sink) (mk_edge s t)))"

definition insert_edge :: "(u64 \<Rightarrow> string option) \<Rightarrow> nat option \<Rightarrow> nat \<Rightarrow> u64 \<Rightarrow> parsed_edge \<Rightarrow> cfg \<Rightarrow> cfg option" where
  "insert_edge script f s site pe G =
    (if skipped pe then Some G
     else let target = (if pe_trg pe = sink then None else find_bb G (pe_trg pe))
     in if target = None \<and> pe_type pe = CALL then
          case arms_icall_resolver script site of
            None \<Rightarrow> None
          | Some targets \<Rightarrow>
              (case fold_opt (\<lambda>t. handle_interprocedural s t arms_indirect_call) targets G of
                 None \<Rightarrow> None
               | Some G \<Rightarrow> if length targets > 0 then Some G else add_parsed_edge f s pe target G)
        else add_parsed_edge f s pe target G)"

definition insert_block_edges ::
  "(u64 \<Rightarrow> string option) \<Rightarrow> nat option \<Rightarrow> parsed_block \<Rightarrow> u64 list \<times> cfg \<Rightarrow> (u64 list \<times> cfg) option" where
  "insert_block_edges script f pb st =
    (let (seen, G) = st in
     if pb_start pb \<in> set seen then Some (seen, G)
     else case find_bb G (pb_start pb) of
         None \<Rightarrow> (if list_all skipped (pb_targets pb) then Some (pb_start pb # seen, G) else None)
       | Some s \<Rightarrow> map_option (Pair (pb_start pb # seen)) (fold_opt (insert_edge script f s (pb_last pb)) (pb_targets pb) G))"

definition insert_edges :: "(u64 \<Rightarrow> string option) \<Rightarrow> parsed_func list \<Rightarrow> cfg \<Rightarrow> cfg option" where
  "insert_edges script funcs G =
    map_option snd
      (fold_opt (\<lambda>pf st. fold_opt (insert_block_edges script (find_function (snd st) (pf_addr pf))) (pf_blocks pf) st)
        funcs ([], G))"

section \<open>Parsing and re-parsing a binary\<close>

definition widen :: "u64 \<Rightarrow> u64 \<Rightarrow> cfg \<Rightarrow> cfg" where
  "widen lo hi G =
    (let G = (if cfg_start_addr G = 0 \<or> lo < cfg_start_addr G then G\<lparr>cfg_start_addr := lo\<rparr> else G)
     in if cfg_end_addr G = 0 \<or> hi > cfg_end_addr G then G\<lparr>cfg_end_addr := hi\<rparr> else G)"

definition parse_all :: "(u64 \<times> u64) list \<Rightarrow> u64 list \<Rightarrow> parsed_func list \<Rightarrow> cfg \<Rightarrow> cfg option" where
  "parse_all mods fbt funcs G =
    map_option (fold (\<lambda>a G. mark_function_as_plt a (widen a a G)) fbt)
      (insert_functions_and_bbs funcs (fold (\<lambda>(base, size). widen base (base + size)) mods G))"

definition retouch ::
  "(u64 \<Rightarrow> string option) \<Rightarrow> (u64 \<times> u64) list \<Rightarrow> u64 list \<Rightarrow> parsed_func list \<Rightarrow> parsed_func list \<Rightarrow> cfg \<Rightarrow> cfg option" where
  "retouch script mods fbt funcs funcs' G =
    Option.bind (parse_all mods fbt funcs G) (\<lambda>G. Option.bind (insert_functions_and_bbs funcs' G) (insert_edges script funcs'))"

definition try_ParseAPI ::
  "string \<Rightarrow> (u64 \<Rightarrow> string option) \<Rightarrow> (u64 \<times> u64) list \<Rightarrow> u64 list \<Rightarrow> parsed_func list \<Rightarrow> cfg option" where
  "try_ParseAPI bin script mods fbt funcs = Option.bind (parse_all mods fbt funcs (mk_cfg bin)) (insert_edges script funcs)"

section \<open>Loops that cannot fail\<close>

text \<open>
  The import is a nest of loops over the parse result whose body may fail.  A body
  that does not fail when its precondition holds, establishes its postcondition and
  moves the state along a preorder under which both are stable makes a loop with
  the same properties.
\<close>

locale total_steps =
  fixes op :: "'a \<Rightarrow> 's \<Rightarrow> 's option" and inv :: "'s \<Rightarrow> bool" and rel :: "'s \<Rightarrow> 's \<Rightarrow> bool"
    and pre :: "'a \<Rightarrow> 's \<Rightarrow> bool" and post :: "'a \<Rightarrow> 's \<Rightarrow> bool"
  assumes rel_refl: "rel s s" and rel_trans: "rel s s' \<Longrightarrow> rel s' s'' \<Longrightarrow> rel s s''"
    and pre_stable: "pre x s \<Longrightarrow> rel s s' \<Longrightarrow> pre x s'"
    and post_stable: "post x s \<Longrightarrow> rel s s' \<Longrightarrow> post x s'"
    and op_total: "inv s \<Longrightarrow> pre x s \<Longrightarrow> \<exists>s'. op x s = Some s' \<and> inv s' \<and> rel s s' \<and> post x s'"
begin

lemma fold_total:
  "inv s \<Longrightarrow> \<forall>x \<in> set xs. pre x s \<Longrightarrow> \<exists>s'. fold_opt op xs s = Some s' \<and> inv s' \<and> rel s s' \<and> (\<forall>x \<in> set xs. post x s')"
proof (induction xs arbitrary: s)
  case Nil
  then show ?case using rel_refl by simp
next
  case (Cons x xs)
  obtain t where t: "op x s = Some t" "inv t" "rel s t" "post x t" using op_total Cons.prems by fastforce
  obtain s' where s': "fold_opt op xs t = Some s'" "inv s'" "rel t s'" "\<forall>x \<in> set xs. post x s'"
    using Cons.IH [OF t(2)] Cons.prems(2) pre_stable t(3) by fastforce
  then show ?case using t rel_trans post_stable by auto
qed

end

definition grows :: "cfg \<Rightarrow> cfg \<Rightarrow> bool" where
  "grows G G' \<longleftrightarrow> extends G G' \<and> (\<forall>a b. find_bb G a = Some b \<longrightarrow> find_bb G' a = Some b) \<and>
    (\<forall>a f. find_function G a = Some f \<longrightarrow> find_function G' a = Some f)"

lemma grows_refl: "grows G G"
  by (simp add: grows_def extends_refl)

lemma grows_trans: "grows G G' \<Longrightarrow> grows G' G'' \<Longrightarrow> grows G G''"
  using extends_trans by (auto simp: grows_def)

lemma grows_same_maps: "keeps G G' \<Longrightarrow> start2bb G' = start2bb G \<Longrightarrow> addr2fn G' = addr2fn G \<Longrightarrow> wf_cfg G' \<and> grows G G'"
  by (simp add: keeps_def grows_def find_bb_def find_function_def)

lemma grows_known:
  "grows G G' \<Longrightarrow> find_bb G a \<noteq> None \<Longrightarrow> find_bb G' a \<noteq> None"
  "grows G G' \<Longrightarrow> find_function G a \<noteq> None \<Longrightarrow> find_function G' a \<noteq> None"
  by (auto simp: grows_def)

lemma find_function_store: "find_function (store_function f G) a = (if a = base_addr (fns G ! f) then Some f else find_function G a)"
  by (simp add: find_function_def store_function_def map_of_map_set)

section \<open>The import of functions and blocks succeeds\<close>

lemma insert_function_total:
  assumes wf: "wf_cfg G"
  shows "\<exists>G'. insert_function pf G = Some G' \<and> wf_cfg G' \<and> grows G G' \<and> find_function G' (pf_addr pf) \<noteq> None"
proof (cases "find_function G (pf_addr pf)")
  case None
  obtain f G1 where n: "new_fn (mk_function (pf_addr pf) (pf_name pf)) G = (f, G1)" by fastforce
  have f: "f < length (fns G1)" "base_addr (fns G1 ! f) = pf_addr pf" "find_function G1 = find_function G" "find_bb G1 = find_bb G"
    using n by (auto simp: new_fn_def mk_function_def find_function_def find_bb_def fun_eq_iff)
  have k: "keeps G G1" by (rule keeps_new_fn [OF wf fn_ok_mk_function n])
  have k': "keeps G (store_function f G1)" by (rule keeps_trans [OF k keeps_store_function [OF keeps_wf [OF k] f(1)]])
  have "find_bb (store_function f G1) = find_bb G1" by (simp add: find_bb_def store_function_def fun_eq_iff)
  then show ?thesis using k' None f by (auto simp: insert_function_def n grows_def keeps_def find_function_store)
qed (simp add: insert_function_def wf grows_refl)

interpretation functions_in: total_steps insert_function wf_cfg grows "\<lambda>pf G. True" "\<lambda>pf G. find_function G (pf_addr pf) \<noteq> None"
  by unfold_locales (use grows_refl grows_trans grows_known insert_function_total in blast)+

lemma insert_containing_total:
  assumes wf: "wf_cfg G" and b: "b < length (bbs G)" and a: "find_function G a \<noteq> None"
  shows "\<exists>G'. insert_containing b a G = Some G' \<and> wf_cfg G' \<and> grows G G'"
proof -
  obtain f where f: "find_function G a = Some f" using a by blast
  have f': "f < length (fns G)" using find_function_ok [OF wf f] by simp
  let ?G1 = "add_containing_function b f G"
  have k: "keeps G ?G1" by (rule keeps_flags(4) [OF wf b f'])
  have s: "f < length (fns ?G1)" "b < length (bbs ?G1)" using k f' b extends_fn_less extends_bb_less by (meson keeps_def)+
  have "keeps G (add_bb f b ?G1)" by (rule keeps_trans [OF k keeps_fn_blocks(1) [OF keeps_wf [OF k] s]])
  then show ?thesis
    by (simp add: insert_containing_def f grows_same_maps add_bb_def add_containing_function_def upd_fn_def upd_bb_def)
qed

interpretation containing_in: total_steps "insert_containing b" wf_cfg grows
  "\<lambda>a G. b < length (bbs G) \<and> find_function G a \<noteq> None" "\<lambda>a G. True" for b
proof unfold_locales
  show "b < length (bbs G') \<and> find_function G' a \<noteq> None" if "b < length (bbs G) \<and> find_function G a \<noteq> None" "grows G G'" for a G G'
    using that grows_known extends_bb_less by (auto simp: grows_def)
qed (use grows_refl grows_trans insert_containing_total in blast)+

lemma insert_block_total:
  assumes wf: "wf_cfg G" and fs: "\<forall>a \<in> set (pb_funcs pb). find_function G a \<noteq> None"
  shows "\<exists>G'. insert_block pb G = Some G' \<and> wf_cfg G' \<and> grows G G' \<and> find_bb G' (pb_start pb) \<noteq> None"
proof (cases "find_bb G (pb_start pb)")
  case None
  obtain b G1 where n: "new_bb (mk_bb (pb_start pb) (pb_end pb) (pb_last pb) []) G = (b, G1)" by fastforce
  let ?G2 = "store_bb b G1"
  have k: "keeps G ?G2" "b < length (bbs ?G2)" using keeps_new_stored_bb [OF wf _ n] by simp_all
  have l: "find_bb ?G2 (pb_start pb) = Some b" "find_bb G1 = find_bb G" "start_address (bbs G1 ! b) = pb_start pb"
    "find_function ?G2 = find_function G"
    using n by (auto simp: new_bb_def mk_bb_def find_bb_def store_bb_def find_function_def fun_eq_iff map_of_map_set)
  have g: "grows G ?G2" using k None l by (auto simp: grows_def keeps_def find_bb_store)
  obtain G3 where "fold_opt (insert_containing b) (pb_funcs pb) ?G2 = Some G3" "wf_cfg G3" "grows ?G2 G3"
    using containing_in.fold_total [OF keeps_wf [OF k(1)], of "pb_funcs pb" b] fs k(2) l(4) by auto
  moreover have "insert_block pb G = fold_opt (insert_containing b) (pb_funcs pb) ?G2"
    by (simp add: insert_block_def None n Let_def)
  ultimately show ?thesis using grows_trans [OF g] grows_known(1) [of ?G2 G3] l(1) by (intro exI [of _ G3]) auto
qed (simp add: insert_block_def wf grows_refl)

interpretation blocks_in: total_steps insert_block wf_cfg grows
  "\<lambda>pb G. \<forall>a \<in> set (pb_funcs pb). find_function G a \<noteq> None" "\<lambda>pb G. find_bb G (pb_start pb) \<noteq> None"
  by unfold_locales (use grows_refl grows_trans grows_known insert_block_total in blast)+

interpretation func_blocks_in: total_steps "\<lambda>pf. fold_opt insert_block (pf_blocks pf)" wf_cfg grows
  "\<lambda>pf G. \<forall>pb \<in> set (pf_blocks pf). \<forall>a \<in> set (pb_funcs pb). find_function G a \<noteq> None"
  "\<lambda>pf G. \<forall>pb \<in> set (pf_blocks pf). find_bb G (pb_start pb) \<noteq> None"
  by unfold_locales (use grows_refl grows_trans grows_known blocks_in.fold_total in blast)+

lemma mark_exit_total:
  assumes wf: "wf_cfg G" and f: "f < length (fns G)" and a: "find_bb G a \<noteq> None"
  shows "\<exists>G'. mark_exit f a G = Some G' \<and> wf_cfg G' \<and> grows G G'"
proof -
  obtain b where b: "find_bb G a = Some b" using a by blast
  have b': "b < length (bbs G)" using find_bb_ok [OF wf b] by simp
  let ?G1 = "set_is_exit_block b G"
  have k: "keeps G ?G1" by (rule keeps_flags(2) [OF wf b'])
  have s: "f < length (fns ?G1)" "b < length (bbs ?G1)" using k f b' extends_fn_less extends_bb_less by (meson keeps_def)+
  have "keeps G (add_exit_block f b ?G1)" by (rule keeps_trans [OF k keeps_fn_blocks(3) [OF keeps_wf [OF k] s]])
  then show ?thesis
    by (simp add: mark_exit_def b grows_same_maps add_exit_block_def set_is_exit_block_def upd_fn_def upd_bb_def)
qed

lemma grows_fn_less: "grows G G' \<Longrightarrow> f < length (fns G) \<Longrightarrow> f < length (fns G')"
  using extends_fn_less by (auto simp: grows_def)

interpretation exits_in: total_steps "mark_exit f" wf_cfg grows
  "\<lambda>a G. f < length (fns G) \<and> find_bb G a \<noteq> None" "\<lambda>a G. True" for f
  by unfold_locales (use grows_refl grows_trans grows_known grows_fn_less mark_exit_total in blast)+

definition marks_known :: "parsed_func \<Rightarrow> cfg \<Rightarrow> bool" where
  "marks_known pf G \<longleftrightarrow> find_function G (pf_addr pf) \<noteq> None \<and>
    (\<exists>a. pf_entry pf = Some a \<and> find_bb G a \<noteq> None) \<and> (\<forall>a \<in> set (pf_returns pf). find_bb G a \<noteq> None)"

lemma mark_entry_total:
  assumes wf: "wf_cfg G" and known: "marks_known pf G"
  shows "\<exists>G'. mark_entry_and_exits pf G = Some G' \<and> wf_cfg G' \<and> grows G G'"
proof -
  obtain f a b where f: "find_function G (pf_addr pf) = Some f" and a: "pf_entry pf = Some a" and b: "find_bb G a = Some b"
    using known by (auto simp: marks_known_def)
  have s: "f < length (fns G)" "b < length (bbs G)" using find_function_ok [OF wf f] find_bb_ok [OF wf b] by simp_all
  let ?G1 = "set_is_entry_block b G" and ?G2 = "add_entry_block f b (set_is_entry_block b G)"
  have k: "keeps G ?G1" by (rule keeps_flags(1) [OF wf s(2)])
  have s1: "f < length (fns ?G1)" "b < length (bbs ?G1)" using k s extends_fn_less extends_bb_less by (meson keeps_def)+
  have "keeps G ?G2" by (rule keeps_trans [OF k keeps_fn_blocks(2) [OF keeps_wf [OF k] s1]])
  then have g: "wf_cfg ?G2 \<and> grows G ?G2"
    by (rule grows_same_maps) (simp_all add: add_entry_block_def set_is_entry_block_def upd_fn_def upd_bb_def)
  obtain G3 where "fold_opt (mark_exit f) (pf_returns pf) ?G2 = Some G3" "wf_cfg G3" "grows ?G2 G3"
    using exits_in.fold_total [of ?G2 "pf_returns pf" f] g grows_fn_less [of G ?G2 f] s known grows_known(1) [of G ?G2]
    by (auto simp: marks_known_def)
  then show ?thesis using g grows_trans by (auto simp: mark_entry_and_exits_def f a b)
qed

interpretation marks_in: total_steps mark_entry_and_exits wf_cfg grows marks_known "\<lambda>a G. True"
proof unfold_locales
  show "marks_known pf G'" if "marks_known pf G" "grows G G'" for pf G G'
    using that grows_known [OF that(2)] unfolding marks_known_def by blast
qed (use grows_refl grows_trans mark_entry_total in blast)+

text \<open>
  What Dyninst promises of a parse result: the entry and return blocks of a
  function and the functions containing a block are parts of the result, a block
  has one description, and edges have a type.
\<close>

definition parsed_blocks :: "parsed_func list \<Rightarrow> parsed_block list" where
  "parsed_blocks funcs = concat (map pf_blocks funcs)"

definition parsed_ok :: "parsed_func list \<Rightarrow> bool" where
  "parsed_ok funcs \<longleftrightarrow>
    (\<forall>pf \<in> set funcs. (\<exists>a \<in> pb_start ` set (parsed_blocks funcs). pf_entry pf = Some a) \<and>
       set (pf_returns pf) \<subseteq> pb_start ` set (parsed_blocks funcs)) \<and>
    (\<forall>pb \<in> set (parsed_blocks funcs). set (pb_funcs pb) \<subseteq> pf_addr ` set funcs) \<and>
    (\<forall>pb \<in> set (parsed_blocks funcs). \<forall>pb' \<in> set (parsed_blocks funcs). pb_start pb = pb_start pb' \<longrightarrow> pb = pb') \<and>
    (\<forall>pb \<in> set (parsed_blocks funcs). \<forall>pe \<in> set (pb_targets pb). pe_type pe \<noteq> NOEDGE \<and> pe_type pe \<noteq> edgetype_end)"

lemma parsed_blocks_iff: "pb \<in> set (parsed_blocks funcs) \<longleftrightarrow> (\<exists>pf \<in> set funcs. pb \<in> set (pf_blocks pf))"
  by (auto simp: parsed_blocks_def)

lemma parsed_ok_funcs:
  assumes "parsed_ok funcs" "\<forall>pf \<in> set funcs. find_function G (pf_addr pf) \<noteq> None"
  shows "\<forall>pf \<in> set funcs. \<forall>pb \<in> set (pf_blocks pf). \<forall>a \<in> set (pb_funcs pb). find_function G a \<noteq> None"
proof (intro ballI)
  fix pf pb a assume "pf \<in> set funcs" "pb \<in> set (pf_blocks pf)" "a \<in> set (pb_funcs pb)"
  then have "a \<in> pf_addr ` set funcs" using assms(1) parsed_blocks_iff unfolding parsed_ok_def by blast
  then show "find_function G a \<noteq> None" using assms(2) by blast
qed

lemma parsed_ok_marks:
  assumes ok: "parsed_ok funcs" and f: "\<forall>pf \<in> set funcs. find_function G (pf_addr pf) \<noteq> None"
    and b: "\<forall>pf \<in> set funcs. \<forall>pb \<in> set (pf_blocks pf). find_bb G (pb_start pb) \<noteq> None"
  shows "\<forall>pf \<in> set funcs. marks_known pf G"
proof
  fix pf assume pf: "pf \<in> set funcs"
  have starts: "\<forall>a \<in> pb_start ` set (parsed_blocks funcs). find_bb G a \<noteq> None" using b parsed_blocks_iff by auto
  have "(\<exists>a \<in> pb_start ` set (parsed_blocks funcs). pf_entry pf = Some a) \<and> set (pf_returns pf) \<subseteq> pb_start ` set (parsed_blocks funcs)"
    using ok pf unfolding parsed_ok_def by blast
  then show "marks_known pf G" using starts f pf unfolding marks_known_def by blast
qed

definition imported :: "parsed_func list \<Rightarrow> cfg \<Rightarrow> bool" where
  "imported funcs G \<longleftrightarrow>
    (\<forall>pf \<in> set funcs. find_function G (pf_addr pf) \<noteq> None \<and> (\<forall>pb \<in> set (pf_blocks pf). find_bb G (pb_start pb) \<noteq> None))"

lemma insert_functions_and_bbs_total:
  assumes wf: "wf_cfg G" and ok: "parsed_ok funcs"
  shows "\<exists>G'. insert_functions_and_bbs funcs G = Some G' \<and> wf_cfg G' \<and> grows G G' \<and> imported funcs G'"
proof -
  obtain G1 where 1: "fold_opt insert_function funcs G = Some G1" "wf_cfg G1" "grows G G1"
      "\<forall>pf \<in> set funcs. find_function G1 (pf_addr pf) \<noteq> None"
    using functions_in.fold_total [OF wf, of funcs] by blast
  obtain G2 where 2: "fold_opt (\<lambda>pf. fold_opt insert_block (pf_blocks pf)) funcs G1 = Some G2" "wf_cfg G2" "grows G1 G2"
      "\<forall>pf \<in> set funcs. \<forall>pb \<in> set (pf_blocks pf). find_bb G2 (pb_start pb) \<noteq> None"
    using func_blocks_in.fold_total [OF 1(2) parsed_ok_funcs [OF ok 1(4)]] by blast
  have f2: "\<forall>pf \<in> set funcs. find_function G2 (pf_addr pf) \<noteq> None" using 1(4) grows_known(2) [OF 2(3)] by blast
  obtain G3 where 3: "fold_opt mark_entry_and_exits funcs G2 = Some G3" "wf_cfg G3" "grows G2 G3"
    using marks_in.fold_total [OF 2(2) parsed_ok_marks [OF ok f2 2(4)]] by blast
  have "imported funcs G3" using f2 2(4) grows_known [OF 3(3)] unfolding imported_def by blast
  then show ?thesis
    using 1 2 3 grows_trans [OF grows_trans [OF 1(3) 2(3)] 3(3)] by (simp add: insert_functions_and_bbs_def)
qed

section \<open>The import of edges succeeds and is complete\<close>

definition links :: "cfg \<Rightarrow> cfg \<Rightarrow> bool" where
  "links G G' \<longleftrightarrow> extends G G' \<and> start2bb G' = start2bb G \<and> addr2fn G' = addr2fn G"

lemma links_refl: "links G G"
  by (simp add: links_def extends_refl)

lemma links_trans: "links G G' \<Longrightarrow> links G' G'' \<Longrightarrow> links G G''"
  using extends_trans by (auto simp: links_def)

lemma links_find: "links G G' \<Longrightarrow> find_bb G' = find_bb G" "links G G' \<Longrightarrow> find_function G' = find_function G"
  by (simp_all add: links_def find_bb_def find_function_def fun_eq_iff)

lemma fold_same: "(\<And>x s. P (f x s) = P s) \<Longrightarrow> P (fold f xs s) = P s"
  by (induction xs arbitrary: s) auto

lemma maps_callback: "start2bb (callback_create_ret_edges f t G) = start2bb G" "addr2fn (callback_create_ret_edges f t G) = addr2fn G"
  unfolding callback_create_ret_edges_def by (rule fold_same, simp)+

lemma maps_create_call_edge: "start2bb (create_call_edge s a ty G) = start2bb G" "addr2fn (create_call_edge s a ty G) = addr2fn G"
  by (simp_all add: create_call_edge_def split: option.split)

lemma maps_create_ret_edges: "start2bb (create_ret_edges s a G) = start2bb G" "addr2fn (create_ret_edges s a G) = addr2fn G"
  unfolding create_ret_edges_def by (auto split: option.split intro: fold_same [of start2bb] fold_same [of addr2fn] simp: maps_callback)

lemma maps_external:
  "start2bb (fold (\<lambda>g. add_external_call g s) fs G) = start2bb G" "addr2fn (fold (\<lambda>g. add_external_call g s) fs G) = addr2fn G"
  by (rule fold_same, simp add: add_external_call_def upd_fn_def)+

lemma links_handle_interprocedural_call:
  assumes "wf_cfg G" "s < length (bbs G)"
  shows "wf_cfg (handle_interprocedural_call s a ty G) \<and> links G (handle_interprocedural_call s a ty G)"
  using keeps_handle_interprocedural_call [OF assms, of a ty]
  by (auto simp: keeps_def links_def handle_interprocedural_call_def Let_def maps_create_call_edge maps_create_ret_edges
      maps_external split: option.split)

text \<open>The call edge is there afterwards, when the target is a block.\<close>

lemma handle_call_edge:
  assumes wf: "wf_cfg G" and s: "s < length (bbs G)" and t: "find_bb G a = Some t"
  shows "\<exists>e \<in> set (outgoing_edges (bbs (handle_interprocedural_call s a ty G) ! s)).
    e < length (edges (handle_interprocedural_call s a ty G)) \<and> e_target (edges (handle_interprocedural_call s a ty G) ! e) = t \<and>
    e_type (edges (handle_interprocedural_call s a ty G) ! e) = ty"
proof -
  let ?new = "mk_typed_edge (uninit G) s t ty" and ?H = "handle_interprocedural_call s a ty G"
  let ?G1 = "create_call_edge s a ty G"
  let ?G2 = "case find_function ?G1 a of
      Some f \<Rightarrow> if is_plt (fns ?G1 ! f) then fold (\<lambda>g. add_external_call g s) (bb_funcs (bbs ?G1 ! s)) ?G1 else ?G1
    | None \<Rightarrow> ?G1"
  have ok: "edge_ok (length (bbs G)) ?new" using find_bb_ok [OF wf t] s by (simp add: edge_ok_def)
  have 1: "?G1 = snd (link_edge ?new G)" by (simp add: create_call_edge_def t)
  have k1: "keeps G ?G1" unfolding 1 by (rule keeps_link_edge [OF wf ok])
  have s1: "s < length (bbs ?G1)" using k1 s extends_bb_less by (auto simp: keeps_def)
  have k2: "keeps ?G1 ?G2"
    using keeps_external_calls [OF keeps_wf [OF k1] s1] keeps_refl [OF keeps_wf [OF k1]] by (simp split: option.splits)
  have "keeps ?G2 ?H"
    using keeps_create_ret_edges [OF keeps_wf [OF k2]] keeps_refl [OF keeps_wf [OF k2]]
    by (simp add: handle_interprocedural_call_def Let_def)
  then have x: "extends ?G1 ?H" using keeps_trans [OF k2] by (simp add: keeps_def)
  have e: "length (edges G) \<in> set (outgoing_edges (bbs ?G1 ! s))" using link_edge_linked(1) [OF ok] by (simp add: 1)
  have l: "length (edges G) < length (edges ?G1)" "edges ?G1 ! length (edges G) = ?new" by (simp_all add: 1)
  have "length (edges G) \<in> set (outgoing_edges (bbs ?H ! s))" "length (edges G) < length (edges ?H)"
    "edges ?H ! length (edges G) = ?new"
    using x e l s1 unfolding extends_def by (blast, simp, simp)
  then show ?thesis by (intro bexI [of _ "length (edges G)"]) simp_all
qed

lemma split_on_nonempty: "split_on sep xs \<noteq> []"
  by (induction xs) (auto split: list.split)

lemma resolver_nonempty: "arms_icall_resolver script site = Some ts \<Longrightarrow> ts \<noteq> []"
  by (auto simp: arms_icall_resolver_def split_on_nonempty split: option.splits)

definition has_call :: "nat \<Rightarrow> u64 \<Rightarrow> cfg \<Rightarrow> bool" where
  "has_call s a G \<longleftrightarrow> s < length (bbs G) \<and> (\<forall>t. find_bb G a = Some t \<longrightarrow>
    (\<exists>e \<in> set (outgoing_edges (bbs G ! s)). e < length (edges G) \<and> e_target (edges G ! e) = t \<and>
       e_type (edges G ! e) = arms_indirect_call))"

lemma links_has_call: "has_call s a G \<Longrightarrow> links G G' \<Longrightarrow> has_call s a G'"
  using links_find(1) [of G G'] unfolding has_call_def links_def extends_def by (auto simp: subset_iff) (metis order_less_le_trans)

lemma handle_indirect_total:
  assumes "wf_cfg G" "s < length (bbs G)"
  shows "\<exists>G'. handle_interprocedural s a arms_indirect_call G = Some G' \<and> wf_cfg G' \<and> links G G' \<and> has_call s a G'"
proof -
  let ?G' = "handle_interprocedural_call s a arms_indirect_call G"
  have l: "wf_cfg ?G'" "links G ?G'" using links_handle_interprocedural_call [OF assms] by simp_all
  have "s < length (bbs ?G')" using l(2) assms(2) extends_bb_less by (auto simp: links_def)
  then have "has_call s a ?G'"
    using handle_call_edge [OF assms, of a _ arms_indirect_call] links_find(1) [OF l(2)] by (auto simp: has_call_def)
  then show ?thesis
    using l by (simp add: handle_interprocedural_def edge_type_is_direct_call_def edge_type_is_indirect_call_def)
qed

interpretation targets_in: total_steps "\<lambda>t. handle_interprocedural s t arms_indirect_call" wf_cfg links
  "\<lambda>a G. s < length (bbs G)" "has_call s" for s
proof unfold_locales
  show "s < length (bbs G')" if "s < length (bbs G)" "links G G'" for G G' using that extends_bb_less by (auto simp: links_def)
qed (use links_refl links_trans links_has_call handle_indirect_total in blast)+

definition target_of :: "cfg \<Rightarrow> parsed_edge \<Rightarrow> nat option" where
  "target_of G pe = (if pe_trg pe = sink then None else find_bb G (pe_trg pe))"

text \<open>
  What the import of a parsed edge leaves in the graph: for a call without known
  target, an edge to every block the resolver names; for any other edge, an edge of
  the type the parsed edge has, to the parsed target or else to a dummy block.
\<close>

definition has_copy :: "nat \<Rightarrow> nat \<Rightarrow> parsed_edge \<Rightarrow> cfg \<Rightarrow> bool" where
  "has_copy s t pe G \<longleftrightarrow> s < length (bbs G) \<and> t < length (bbs G) \<and>
    (\<exists>e < length (edges G). e \<in> set (outgoing_edges (bbs G ! s)) \<and> e \<in> set (incoming_edges (bbs G ! t)) \<and>
       copy_edge_type (pe_type pe) (pe_interproc pe) (pe_trg pe = sink) (mk_edge s t) = Some (edges G ! e))"

definition edge_in :: "(u64 \<Rightarrow> string option) \<Rightarrow> u64 \<Rightarrow> nat \<Rightarrow> parsed_edge \<Rightarrow> cfg \<Rightarrow> bool" where
  "edge_in script site s pe G \<longleftrightarrow>
    skipped pe \<or>
    (if target_of G pe = None \<and> pe_type pe = CALL then
       \<forall>ts. arms_icall_resolver script site = Some ts \<longrightarrow> (\<forall>a \<in> set ts. has_call s a G)
     else \<exists>t. (target_of G pe = None \<or> target_of G pe = Some t) \<and> has_copy s t pe G)"

lemma links_target_of: "links G G' \<Longrightarrow> target_of G' = target_of G"
  using links_find(1) by (simp add: target_of_def fun_eq_iff)

lemma links_has_copy: "has_copy s t pe G \<Longrightarrow> links G G' \<Longrightarrow> has_copy s t pe G'"
  unfolding has_copy_def links_def extends_def by (auto simp: subset_iff) (metis order_less_le_trans)

lemma links_edge_in: "edge_in script site s pe G \<Longrightarrow> links G G' \<Longrightarrow> edge_in script site s pe G'"
  using links_target_of [of G G'] links_has_call [of s _ G G'] links_has_copy [of s _ pe G G']
  by (cases "target_of G pe = None \<and> pe_type pe = CALL") (auto simp: edge_in_def)

lemma copy_edge_type_total:
  assumes "ty \<noteq> NOEDGE" "ty \<noteq> edgetype_end"
  shows "\<exists>e'. copy_edge_type ty ip indir e = Some e' \<and> e_source e' = e_source e \<and> e_target e' = e_target e"
  using assms by (cases ty) (auto simp: copy_edge_type_def set_type_def Let_def)

lemma dummy_maps:
  "create_dummy_basic_block f G = (t, G') \<Longrightarrow> start2bb G' = start2bb G \<and> addr2fn G' = addr2fn G"
  by (auto simp: create_dummy_basic_block_def Let_def new_bb_def set_is_dummy_def upd_bb_def)

lemma add_parsed_edge_total:
  assumes wf: "wf_cfg G" and s: "s < length (bbs G)" and f: "\<forall>x. f = Some x \<longrightarrow> x < length (fns G)"
    and ty: "pe_type pe \<noteq> NOEDGE" "pe_type pe \<noteq> edgetype_end" and target: "target_of G pe = None \<Longrightarrow> pe_type pe \<noteq> CALL"
  shows "\<exists>G'. add_parsed_edge f s pe (target_of G pe) G = Some G' \<and> wf_cfg G' \<and> links G G' \<and> edge_in script site s pe G'"
proof -
  obtain t G1 where 1: "(case target_of G pe of Some t \<Rightarrow> (t, G) | None \<Rightarrow> create_dummy_basic_block f G) = (t, G1)" by fastforce
  have g: "wf_cfg G1 \<and> links G G1 \<and> t < length (bbs G1) \<and> (target_of G pe = None \<or> target_of G pe = Some t)"
  proof (cases "target_of G pe")
    case None
    then show ?thesis using 1 keeps_dummy_bb [OF wf f] dummy_maps by (auto simp: keeps_def links_def)
  next
    case (Some u)
    then show ?thesis using 1 find_bb_ok [OF wf] wf links_refl by (auto simp: target_of_def split: if_splits)
  qed
  obtain e where e: "copy_edge_type (pe_type pe) (pe_interproc pe) (pe_trg pe = sink) (mk_edge s t) = Some e"
      "e_source e = s" "e_target e = t" using copy_edge_type_total [OF ty, of _ _ "mk_edge s t"] by auto
  let ?G' = "snd (link_edge e G1)"
  have ok: "edge_ok (length (bbs G1)) e" using g e s extends_bb_less [of G G1 s] by (auto simp: edge_ok_def links_def)
  have l: "wf_cfg ?G'" "links G1 ?G'" using keeps_link_edge [OF _ ok] g by (auto simp: keeps_def links_def)
  have l': "links G ?G'" using g links_trans [OF _ l(2)] by blast
  have "has_copy s t pe ?G'"
    using ok e link_edge_linked [OF ok] by (auto simp: edge_ok_def has_copy_def intro!: exI [of _ "length (edges G1)"])
  then have "edge_in script site s pe ?G'"
    unfolding edge_in_def using target g links_target_of [OF l'] by auto
  then show ?thesis using l l' by (simp add: add_parsed_edge_def 1 e(1))
qed

lemma insert_edge_total:
  assumes wf: "wf_cfg G" and s: "s < length (bbs G)" and f: "\<forall>x. f = Some x \<longrightarrow> x < length (fns G)"
    and ty: "pe_type pe \<noteq> NOEDGE" "pe_type pe \<noteq> edgetype_end" and script: "script site \<noteq> None"
  shows "\<exists>G'. insert_edge script f s site pe G = Some G' \<and> wf_cfg G' \<and> links G G' \<and> edge_in script site s pe G'"
proof -
  consider "skipped pe" | "\<not> skipped pe" "target_of G pe = None" "pe_type pe = CALL"
    | "\<not> skipped pe" "\<not> (target_of G pe = None \<and> pe_type pe = CALL)" by argo
  then show ?thesis
  proof cases
    case 1
    then show ?thesis using wf links_refl by (simp add: insert_edge_def edge_in_def)
  next
    case 2
    obtain ts where ts: "arms_icall_resolver script site = Some ts" "ts \<noteq> []"
      using script resolver_nonempty by (auto simp: arms_icall_resolver_def)
    obtain G' where G': "fold_opt (\<lambda>t. handle_interprocedural s t arms_indirect_call) ts G = Some G'" "wf_cfg G'" "links G G'"
        "\<forall>a \<in> set ts. has_call s a G'"
      using targets_in.fold_total [OF wf, of ts s] s by blast
    then show ?thesis
      using 2 ts links_target_of [OF G'(3)] by (simp add: insert_edge_def edge_in_def target_of_def [symmetric] Let_def)
  next
    case 3
    then have "insert_edge script f s site pe G = add_parsed_edge f s pe (target_of G pe) G"
      by (auto simp: insert_edge_def target_of_def Let_def)
    then show ?thesis using add_parsed_edge_total [OF wf s f ty] 3 by auto
  qed
qed

definition edge_pre :: "(u64 \<Rightarrow> string option) \<Rightarrow> nat option \<Rightarrow> nat \<Rightarrow> u64 \<Rightarrow> parsed_edge \<Rightarrow> cfg \<Rightarrow> bool" where
  "edge_pre script f s site pe G \<longleftrightarrow> s < length (bbs G) \<and> (\<forall>x. f = Some x \<longrightarrow> x < length (fns G)) \<and>
    pe_type pe \<noteq> NOEDGE \<and> pe_type pe \<noteq> edgetype_end \<and> script site \<noteq> None"

lemma links_less:
  "links G G' \<Longrightarrow> s < length (bbs G) \<Longrightarrow> s < length (bbs G')" "links G G' \<Longrightarrow> f < length (fns G) \<Longrightarrow> f < length (fns G')"
  using extends_bb_less extends_fn_less by (auto simp: links_def)

interpretation edges_in: total_steps "insert_edge script f s site" wf_cfg links "edge_pre script f s site" "edge_in script site s"
  for script f s site
proof unfold_locales
  show "edge_pre script f s site pe G'" if "edge_pre script f s site pe G" "links G G'" for pe G G'
    using that links_less [OF that(2)] unfolding edge_pre_def by blast
  show "\<exists>G'. insert_edge script f s site pe G = Some G' \<and> wf_cfg G' \<and> links G G' \<and> edge_in script site s pe G'"
    if "wf_cfg G" "edge_pre script f s site pe G" for pe G
    using that insert_edge_total unfolding edge_pre_def by blast
qed (use links_refl links_trans links_edge_in in blast)+

definition block_in :: "(u64 \<Rightarrow> string option) \<Rightarrow> parsed_block \<Rightarrow> cfg \<Rightarrow> bool" where
  "block_in script pb G \<longleftrightarrow>
    (\<exists>s. find_bb G (pb_start pb) = Some s \<and> (\<forall>pe \<in> set (pb_targets pb). edge_in script (pb_last pb) s pe G))"

lemma links_block_in: "block_in script pb G \<Longrightarrow> links G G' \<Longrightarrow> block_in script pb G'"
  using links_find(1) [of G G'] links_edge_in unfolding block_in_def by fastforce

definition seen_inv :: "(u64 \<Rightarrow> string option) \<Rightarrow> parsed_block set \<Rightarrow> u64 list \<times> cfg \<Rightarrow> bool" where
  "seen_inv script B st \<longleftrightarrow> wf_cfg (snd st) \<and> (\<forall>pb \<in> B. pb_start pb \<in> set (fst st) \<longrightarrow> block_in script pb (snd st))"

definition seen_rel :: "u64 list \<times> cfg \<Rightarrow> u64 list \<times> cfg \<Rightarrow> bool" where
  "seen_rel st st' \<longleftrightarrow> links (snd st) (snd st')"

definition block_pre :: "(u64 \<Rightarrow> string option) \<Rightarrow> parsed_block set \<Rightarrow> parsed_block \<Rightarrow> cfg \<Rightarrow> bool" where
  "block_pre script B pb G \<longleftrightarrow> pb \<in> B \<and> (\<forall>pb' \<in> B. pb_start pb' = pb_start pb \<longrightarrow> pb' = pb) \<and> find_bb G (pb_start pb) \<noteq> None \<and>
    script (pb_last pb) \<noteq> None \<and> (\<forall>pe \<in> set (pb_targets pb). pe_type pe \<noteq> NOEDGE \<and> pe_type pe \<noteq> edgetype_end)"

lemma links_block_pre: "block_pre script B pb G \<Longrightarrow> links G G' \<Longrightarrow> block_pre script B pb G'"
  using links_find(1) [of G G'] by (simp add: block_pre_def)

lemma insert_block_edges_total:
  assumes inv: "seen_inv script B st" and pre: "block_pre script B pb (snd st)" and f: "\<forall>x. f = Some x \<longrightarrow> x < length (fns (snd st))"
  shows "\<exists>st'. insert_block_edges script f pb st = Some st' \<and> seen_inv script B st' \<and> seen_rel st st' \<and> block_in script pb (snd st')"
proof (cases "pb_start pb \<in> set (fst st)")
  case True
  then show ?thesis
    using inv pre links_refl
    by (auto simp: insert_block_edges_def seen_inv_def seen_rel_def block_pre_def split: prod.split)
next
  case False
  obtain seen G where st: "st = (seen, G)" by fastforce
  have wf: "wf_cfg G" using inv by (simp add: st seen_inv_def)
  obtain s where s: "find_bb G (pb_start pb) = Some s" using pre by (auto simp: st block_pre_def)
  have "\<forall>pe \<in> set (pb_targets pb). edge_pre script f s (pb_last pb) pe G"
    using find_bb_ok [OF wf s] pre f by (simp add: st block_pre_def edge_pre_def)
  then obtain G' where G': "fold_opt (insert_edge script f s (pb_last pb)) (pb_targets pb) G = Some G'" "wf_cfg G'" "links G G'"
      "\<forall>pe \<in> set (pb_targets pb). edge_in script (pb_last pb) s pe G'"
    using edges_in.fold_total [OF wf] by blast
  have b: "block_in script pb G'" using G'(4) s links_find(1) [OF G'(3)] by (simp add: block_in_def)
  have "seen_inv script B (pb_start pb # seen, G')"
    using inv pre b links_block_in [OF _ G'(3)] G'(2) by (auto simp: seen_inv_def st block_pre_def)
  then show ?thesis using False b G' s by (simp add: insert_block_edges_def st seen_rel_def)
qed

interpretation block_edges_in: total_steps "insert_block_edges script f" "seen_inv script B" seen_rel
  "\<lambda>pb st. block_pre script B pb (snd st) \<and> (\<forall>x. f = Some x \<longrightarrow> x < length (fns (snd st)))" "\<lambda>pb st. block_in script pb (snd st)"
  for script f B
proof unfold_locales
  show "\<exists>st'. insert_block_edges script f pb st = Some st' \<and> seen_inv script B st' \<and> seen_rel st st' \<and> block_in script pb (snd st')"
    if "seen_inv script B st" "block_pre script B pb (snd st) \<and> (\<forall>x. f = Some x \<longrightarrow> x < length (fns (snd st)))" for pb st
    using that insert_block_edges_total by blast
  show "block_pre script B pb (snd st') \<and> (\<forall>x. f = Some x \<longrightarrow> x < length (fns (snd st')))"
    if "block_pre script B pb (snd st) \<and> (\<forall>x. f = Some x \<longrightarrow> x < length (fns (snd st)))" "seen_rel st st'" for pb st st'
    using that links_block_pre links_less(2) unfolding seen_rel_def by blast
qed (auto simp: seen_rel_def intro: links_refl links_trans links_block_in)

definition insert_func_edges ::
  "(u64 \<Rightarrow> string option) \<Rightarrow> parsed_func \<Rightarrow> u64 list \<times> cfg \<Rightarrow> (u64 list \<times> cfg) option" where
  "insert_func_edges script pf st = fold_opt (insert_block_edges script (find_function (snd st) (pf_addr pf))) (pf_blocks pf) st"

lemma insert_func_edges_total:
  assumes inv: "seen_inv script B st" and pre: "\<forall>pb \<in> set (pf_blocks pf). block_pre script B pb (snd st)"
  shows "\<exists>st'. insert_func_edges script pf st = Some st' \<and> seen_inv script B st' \<and> seen_rel st st' \<and>
    (\<forall>pb \<in> set (pf_blocks pf). block_in script pb (snd st'))"
proof -
  have "\<forall>x. find_function (snd st) (pf_addr pf) = Some x \<longrightarrow> x < length (fns (snd st))"
    using find_function_ok inv by (auto simp: seen_inv_def)
  then show ?thesis unfolding insert_func_edges_def using block_edges_in.fold_total [OF inv] pre by blast
qed

interpretation func_edges_in: total_steps "insert_func_edges script" "seen_inv script B" seen_rel
  "\<lambda>pf st. \<forall>pb \<in> set (pf_blocks pf). block_pre script B pb (snd st)"
  "\<lambda>pf st. \<forall>pb \<in> set (pf_blocks pf). block_in script pb (snd st)" for script B
proof unfold_locales
  show "\<forall>pb \<in> set (pf_blocks pf). block_pre script B pb (snd st')"
    if "\<forall>pb \<in> set (pf_blocks pf). block_pre script B pb (snd st)" "seen_rel st st'" for pf st st'
    using that links_block_pre by (auto simp: seen_rel_def)
  show "\<forall>pb \<in> set (pf_blocks pf). block_in script pb (snd st')"
    if "\<forall>pb \<in> set (pf_blocks pf). block_in script pb (snd st)" "seen_rel st st'" for pf st st'
    using that links_block_in by (auto simp: seen_rel_def)
qed (use insert_func_edges_total links_refl links_trans in \<open>auto simp: seen_rel_def\<close>)

lemma insert_edges_total:
  assumes wf: "wf_cfg G" and ok: "parsed_ok funcs" and imp: "imported funcs G" and script: "\<forall>a. script a \<noteq> None"
  shows "\<exists>G'. insert_edges script funcs G = Some G' \<and> wf_cfg G' \<and> links G G' \<and>
    (\<forall>pb \<in> set (parsed_blocks funcs). block_in script pb G')"
proof -
  let ?B = "set (parsed_blocks funcs)"
  have inv: "seen_inv script ?B ([], G)" by (simp add: seen_inv_def wf)
  have "block_pre script ?B pb G" if "pb \<in> ?B" for pb
    using that ok imp script parsed_blocks_iff unfolding block_pre_def parsed_ok_def imported_def by metis
  then have "\<forall>pf \<in> set funcs. \<forall>pb \<in> set (pf_blocks pf). block_pre script ?B pb (snd ([] :: u64 list, G))"
    using parsed_blocks_iff by auto
  then obtain st where "fold_opt (insert_func_edges script) funcs ([], G) = Some st" "seen_inv script ?B st" "seen_rel ([], G) st"
      "\<forall>pf \<in> set funcs. \<forall>pb \<in> set (pf_blocks pf). block_in script pb (snd st)"
    using func_edges_in.fold_total [OF inv] by blast
  moreover have "insert_edges script funcs G = map_option snd (fold_opt (insert_func_edges script) funcs ([], G))"
    by (simp add: insert_edges_def insert_func_edges_def [abs_def])
  ultimately show ?thesis by (auto simp: seen_inv_def seen_rel_def parsed_blocks_iff)
qed

section \<open>Parsing and re-parsing\<close>

lemma widen_simps [simp]:
  "wf_cfg (widen lo hi G) = wf_cfg G" "extends G (widen lo hi H) = extends G H" "extends (widen lo hi G) H = extends G H"
  "find_bb (widen lo hi G) = find_bb G" "find_function (widen lo hi G) = find_function G" "start2bb (widen lo hi G) = start2bb G"
  "addr2fn (widen lo hi G) = addr2fn G"
  by (simp_all add: widen_def wf_cfg_def extends_def find_bb_def find_function_def Let_def fun_eq_iff)

lemma links_mark_function_as_plt: "wf_cfg G \<Longrightarrow> wf_cfg (mark_function_as_plt a G) \<and> links G (mark_function_as_plt a G)"
  using keeps_fn_flags(2) find_function_ok links_refl
  by (fastforce simp: mark_function_as_plt_def keeps_def links_def set_is_plt_def upd_fn_def split: option.split)

lemma wf_mark_plts: "wf_cfg G \<Longrightarrow> wf_cfg (fold (\<lambda>a G. mark_function_as_plt a (widen a a G)) fbt G) \<and>
    links G (fold (\<lambda>a G. mark_function_as_plt a (widen a a G)) fbt G)"
proof (induction fbt arbitrary: G)
  case (Cons a fbt)
  have "wf_cfg (mark_function_as_plt a (widen a a G)) \<and> links G (mark_function_as_plt a (widen a a G))"
    using links_mark_function_as_plt [of "widen a a G" a] Cons.prems by (simp add: links_def)
  then show ?case using Cons.IH links_trans by fastforce
qed (simp add: links_refl)

lemma wf_widen_mods: "wf_cfg (fold (\<lambda>(base, size). widen base (base + size)) mods G) = wf_cfg G"
  by (rule fold_same) (simp split: prod.split)

lemma extends_widen_mods: "extends G H \<Longrightarrow> extends G (fold (\<lambda>(base, size). widen base (base + size)) mods H)"
  by (induction mods arbitrary: H) (auto split: prod.split)

lemma maps_widen_mods: "find_bb (fold (\<lambda>(base, size). widen base (base + size)) mods G) = find_bb G"
  "find_function (fold (\<lambda>(base, size). widen base (base + size)) mods G) = find_function G"
  by (rule fold_same, simp split: prod.split)+

lemma links_imported: "imported funcs G \<Longrightarrow> links G G' \<Longrightarrow> imported funcs G'"
  using links_find [of G G'] by (simp add: imported_def)

lemma parse_all_total:
  assumes wf: "wf_cfg G" and ok: "parsed_ok funcs"
  shows "\<exists>G'. parse_all mods fbt funcs G = Some G' \<and> wf_cfg G' \<and> grows G G' \<and> imported funcs G'"
proof -
  let ?G1 = "fold (\<lambda>(base, size). widen base (base + size)) mods G"
  obtain G2 where 2: "insert_functions_and_bbs funcs ?G1 = Some G2" "wf_cfg G2" "grows ?G1 G2" "imported funcs G2"
    using insert_functions_and_bbs_total [of ?G1, OF _ ok] wf by (auto simp: wf_widen_mods)
  have g1: "grows G ?G1" using extends_widen_mods [OF extends_refl] maps_widen_mods by (simp add: grows_def)
  let ?G3 = "fold (\<lambda>a G. mark_function_as_plt a (widen a a G)) fbt G2"
  have 3: "wf_cfg ?G3" "links G2 ?G3" using wf_mark_plts [OF 2(2)] by simp_all
  have "grows G2 ?G3" using 3(2) links_find [OF 3(2)] by (simp add: grows_def links_def)
  then have "grows G ?G3" using grows_trans [OF grows_trans [OF g1 2(3)]] by blast
  then show ?thesis using 2 3 links_imported by (auto simp: parse_all_def)
qed


definition demo_funcs :: "parsed_func list" where
  "demo_funcs = [\<lparr>pf_addr = 0x10, pf_name = ''f'', pf_blocks =
      [\<lparr>pb_start = 0x10, pb_end = 0x14, pb_last = 0x12, pb_funcs = [0x10],
         pb_targets = [\<lparr>pe_type = DIRECT, pe_trg = 0x10, pe_interproc = False\<rparr>]\<rparr>],
      pf_entry = Some 0x10, pf_returns = []\<rparr>]"

lemma demo_funcs_ok: "parsed_ok demo_funcs"
  by (simp add: parsed_ok_def parsed_blocks_def demo_funcs_def)


lemma retouch_total:
  assumes wf: "wf_cfg G" and ok: "parsed_ok funcs" "parsed_ok funcs'" and script: "\<forall>a. script a \<noteq> None"
  shows "\<exists>G'. retouch script mods fbt funcs funcs' G = Some G' \<and> wf_cfg G' \<and> grows G G' \<and> imported funcs' G' \<and>
    (\<forall>pb \<in> set (parsed_blocks funcs'). block_in script pb G')"
proof -
  obtain G1 where 1: "parse_all mods fbt funcs G = Some G1" "wf_cfg G1" "grows G G1"
    using parse_all_total [OF wf ok(1)] by blast
  obtain G2 where 2: "insert_functions_and_bbs funcs' G1 = Some G2" "wf_cfg G2" "grows G1 G2" "imported funcs' G2"
    using insert_functions_and_bbs_total [OF 1(2) ok(2)] by blast
  obtain G3 where 3: "insert_edges script funcs' G2 = Some G3" "wf_cfg G3" "links G2 G3"
      "\<forall>pb \<in> set (parsed_blocks funcs'). block_in script pb G3"
    using insert_edges_total [OF 2(2) ok(2) 2(4) script] by blast
  have "grows G2 G3" using 3(3) links_find [OF 3(3)] by (simp add: grows_def links_def)
  then have "grows G G3" using grows_trans [OF grows_trans [OF 1(3) 2(3)]] by blast
  then show ?thesis using 1 2 3 links_imported by (auto simp: retouch_def)
qed



text \<open>The graph of the example, once built and once re-parsed: the re-parse adds the edge a second time.\<close>

lemmas build_defs = try_ParseAPI_def retouch_def parse_all_def insert_functions_and_bbs_def insert_function_def insert_block_def
  insert_containing_def mark_entry_and_exits_def mark_exit_def insert_edges_def insert_block_edges_def insert_edge_def skipped_def
  add_parsed_edge_def copy_edge_type_def set_type_def mk_edge_def link_edge_unfold mk_cfg_def mk_bb_def mk_function_def new_fn_def
  new_bb_def store_function_def store_bb_def find_function_def find_bb_def add_containing_function_def add_bb_def
  set_is_entry_block_def add_entry_block_def upd_bb_def upd_fn_def add_outgoing_edge_def add_incoming_edge_def set_insert_def
  sink_def demo_funcs_def Let_def

definition demo_built :: cfg where
  "demo_built = the (try_ParseAPI ''f'' (\<lambda>_. Some []) [] [] demo_funcs)"

lemma demo_built_eq: "demo_built =
  \<lparr>cfg_module_name = ''f'', edges = [\<lparr>e_hidden = False, e_source = 0, e_target = 0, e_type = arms_direct_jmp, e_replaced = [], e_intra = True\<rparr>],
   bbs = [\<lparr>start_address = 0x10, end_address = 0x14, last_insn_address = 0x12, is_entry_block = True, is_exit_block = False,
     is_dummy = False, incoming_edges = [0], outgoing_edges = [0], bb_funcs = [0]\<rparr>],
   fns = [\<lparr>base_addr = 0x10, addr_taken = False, is_plt = False, is_lib_dummy = False, is_main = False, funname = ''f'',
     basic_blocks = [0], entry_points = [0], exit_points = [], external_calls = [], callees = [], callers = []\<rparr>],
   addr2fn = [(0x10, 0)], start2bb = [(0x10, 0)], last2bb = [(0x12, 0)], num_bb = 1, num_dummy_blocks = 0,
   cfg_start_addr = 0, cfg_end_addr = 0, is_library = False, uninit = False\<rparr>"
  unfolding demo_built_def by (simp add: build_defs)

text \<open>
  Re-parsing inserts the edges of every block again: after \<open>retouch\<close> a graph
  whose parse result did not change has two copies of its edge.
\<close>
theorem retouch_duplicates_edges:
  "count_edges demo_built = 1 \<and>
   map_option count_edges (retouch (\<lambda>_. Some []) [] [] demo_funcs demo_funcs demo_built) = Some 2"
  unfolding demo_built_eq by (simp add: build_defs count_edges_def)

end
