(* ===== verification/Jit_Search.thy ===== *)
theory Jit_Search
  imports Cfg_Build "HOL-Library.Transitive_Closure_Table"
begin

text \<open>
  The path search of the just-in-time validator (\<open>jit_path_exists\<close> and
  \<open>jit_track_callstack\<close> in \<open>src/dyninst-static/lbr_analysis.C\<close>): is there a path in
  the graph that takes the branches of the LBR, in order, and between two of them
  only branches the LBR does not record?

  The search is a depth-first one.  \<open>jit_state\<close> holds what it mutates: the visit
  counts and the current path (both in \<open>DFSState\<close>) and the call stack (a static
  variable).  The recursion is bounded by fuel; the theorems show that a stated
  amount is always enough.  \<open>Assert_Failed\<close> is the \<open>assert(0)\<close> of
  \<open>jit_track_callstack\<close>.
\<close>

section \<open>Edges\<close>

definition LBR_SIZE :: nat where "LBR_SIZE = 16"

definition edge_is_indirect :: "arms_edge \<Rightarrow> bool" where
  "edge_is_indirect e \<longleftrightarrow> is_indirect e \<or> is_return e"

definition edge_is_direct_call :: "arms_edge \<Rightarrow> bool" where
  "edge_is_direct_call e = is_direct_call e"

definition edge_is_indirect_call :: "arms_edge \<Rightarrow> bool" where
  "edge_is_indirect_call e = is_indirect_call e"

definition edge_is_indirect_jump :: "arms_edge \<Rightarrow> bool" where
  "edge_is_indirect_jump e = is_indirect_jump e"

definition edge_is_return :: "arms_edge \<Rightarrow> bool" where
  "edge_is_return e = is_return e"

definition edge_is_call :: "arms_edge \<Rightarrow> bool" where
  "edge_is_call e \<longleftrightarrow> e_type e = arms_direct_call \<or> e_type e = arms_indirect_call"

definition edge_is_function_exit :: "arms_edge \<Rightarrow> bool" where
  "edge_is_function_exit e \<longleftrightarrow> edge_is_indirect e \<or> edge_is_return e \<or> edge_is_call e"

definition edge_is_hidden :: "arms_edge \<Rightarrow> bool" where
  "edge_is_hidden e = e_hidden e"

definition edge_is_fastpath :: "arms_edge \<Rightarrow> bool" where
  "edge_is_fastpath e = is_fastpath e"

section \<open>The call stack\<close>

text \<open>
  The top of the stack is the head of the list; \<open>None\<close> in the stack is a null pointer, pushed when a
  call has no fall-through block.  The result is \<open>None\<close> for the failed assertion,
  otherwise the return value and the new stack.
\<close>

definition jit_track_callstack :: "cfg \<Rightarrow> nat \<Rightarrow> bool \<Rightarrow> nat option list \<Rightarrow> (nat \<times> nat option list) option" where
  "jit_track_callstack G e unroll stack =
    (if edge_is_call (edges G ! e) then
       if unroll then Some (1, if stack \<noteq> [] then tl stack else stack)
       else Some (1, get_fallthrough_bb G (e_source (edges G ! e)) # stack)
     else if edge_is_return (edges G ! e) then
       case stack of
         [] \<Rightarrow> Some (2, stack)
       | None # _ \<Rightarrow> None
       | Some b # rest \<Rightarrow> if e_target (edges G ! e) \<noteq> b then Some (0, Some b # rest) else Some (1, rest)
     else Some (1, stack))"

section \<open>The search\<close>

record jit_state =
  visited :: "nat \<Rightarrow> nat"
  dfs_edge :: "nat list"
  callstack :: "nat option list"

datatype jit_result = Found | NotFound jit_state | Assert_Failed | Out_of_fuel

definition mark_edge_visited :: "nat \<Rightarrow> jit_state \<Rightarrow> jit_state" where
  "mark_edge_visited e st = st\<lparr>visited := (visited st)(e := visited st e + 1)\<rparr>"

definition unmark_edge_visited :: "nat \<Rightarrow> jit_state \<Rightarrow> jit_state" where
  "unmark_edge_visited e st = st\<lparr>visited := (visited st)(e := visited st e - 1)\<rparr>"

text \<open>
  \<open>jit_edges\<close> is the loop over the outgoing edges of the target of \<open>e\<close>, from one of
  them on.  The first entry of \<open>lbr\<close> is the branch taken last, the second one is
  \<open>lbr_dst\<close>.
\<close>

function (sequential) jit_path_exists :: "nat \<Rightarrow> cfg \<Rightarrow> nat list \<Rightarrow> nat \<Rightarrow> jit_state \<Rightarrow> jit_result"
  and jit_edges :: "nat \<Rightarrow> cfg \<Rightarrow> nat list \<Rightarrow> nat list \<Rightarrow> jit_state \<Rightarrow> jit_result" where
  "jit_path_exists 0 G lbr e st = Out_of_fuel"
| "jit_path_exists (Suc n) G lbr e st =
    (if length lbr < 2 then Found
     else if visited st e \<ge> LBR_SIZE then NotFound st
     else let st = mark_edge_visited e st;
              st = st\<lparr>dfs_edge := dfs_edge st @ [e]\<rparr>
          in case jit_edges n G lbr (outgoing_edges (bbs G ! e_target (edges G ! e))) st of
               NotFound st \<Rightarrow>
                 (let st = st\<lparr>dfs_edge := butlast (dfs_edge st)\<rparr>;
                      st = unmark_edge_visited e st
                  in case jit_track_callstack G e True (callstack st) of
                       None \<Rightarrow> Assert_Failed
                     | Some (_, stk) \<Rightarrow> NotFound (st\<lparr>callstack := stk\<rparr>))
             | r \<Rightarrow> r)"
| "jit_edges n G lbr [] st = NotFound st"
| "jit_edges n G lbr (f # fs) st =
    (if edge_is_hidden (edges G ! f) then jit_edges n G lbr fs st
     else case jit_track_callstack G f False (callstack st) of
         None \<Rightarrow> Assert_Failed
       | Some (nb, stk) \<Rightarrow>
           (let st = st\<lparr>callstack := stk\<rparr>;
                vis = edge_is_indirect (edges G ! f) \<or> edge_is_direct_call (edges G ! f)
            in if nb = 0 \<or> (vis \<and> f \<noteq> lbr ! 1) then
                 case jit_track_callstack G f True (callstack st) of
                   None \<Rightarrow> Assert_Failed
                 | Some (_, stk) \<Rightarrow> jit_edges n G lbr fs (st\<lparr>callstack := stk\<rparr>)
               else if vis \<and> f = lbr ! 1 then
                 if length lbr - 1 < 2 then Found
                 else case jit_path_exists n G (tl lbr) f st of
                     NotFound st \<Rightarrow> jit_edges n G lbr fs st
                   | r \<Rightarrow> r
               else case jit_path_exists n G lbr f st of
                   NotFound st \<Rightarrow> jit_edges n G lbr fs st
                 | r \<Rightarrow> r))"
  by pat_completeness auto
termination
  by (relation "measures [case_sum (\<lambda>(n, _). n) (\<lambda>(n, _). n), case_sum (\<lambda>_. 0) (\<lambda>(n, G, lbr, fs, st). Suc (length fs))]") auto

definition jit_start :: jit_state where
  "jit_start = \<lparr>visited = (\<lambda>_. 0), dfs_edge = [], callstack = []\<rparr>"

section \<open>The search leaves no marks\<close>

abbreviation vis :: "cfg \<Rightarrow> nat \<Rightarrow> bool" where
  "vis G f \<equiv> edge_is_indirect (edges G ! f) \<or> edge_is_direct_call (edges G ! f)"

text \<open>
  One turn of the loop over the outgoing edges, as a case distinction.  A turn that
  recurses does so with the rest of the LBR when the edge is the next entry, and
  with the same LBR when the edge is one the LBR does not record.
\<close>

definition recurses :: "cfg \<Rightarrow> nat list \<Rightarrow> nat \<Rightarrow> nat list \<Rightarrow> bool" where
  "recurses G lbr f lbr' \<longleftrightarrow> (vis G f \<and> f = lbr ! 1 \<and> \<not> length lbr - 1 < 2 \<and> lbr' = tl lbr) \<or> (\<not> vis G f \<and> lbr' = lbr)"

lemma jit_edges_turn:
  assumes "jit_edges n G lbr (f # fs) st = r"
  obtains (hidden) "edge_is_hidden (edges G ! f)" "jit_edges n G lbr fs st = r"
  | (failed) unroll stk where "\<not> edge_is_hidden (edges G ! f)" "jit_track_callstack G f unroll stk = None" "r = Assert_Failed"
      "unroll \<Longrightarrow> \<exists>nb. jit_track_callstack G f False (callstack st) = Some (nb, stk) \<and> (nb = 0 \<or> (vis G f \<and> f \<noteq> lbr ! 1))"
      "\<not> unroll \<Longrightarrow> stk = callstack st"
  | (skip) nb stk x stk' where "\<not> edge_is_hidden (edges G ! f)" "jit_track_callstack G f False (callstack st) = Some (nb, stk)"
      "nb = 0 \<or> (vis G f \<and> f \<noteq> lbr ! 1)" "jit_track_callstack G f True stk = Some (x, stk')"
      "jit_edges n G lbr fs (st\<lparr>callstack := stk'\<rparr>) = r"
  | (hit) nb stk where "\<not> edge_is_hidden (edges G ! f)" "jit_track_callstack G f False (callstack st) = Some (nb, stk)" "nb \<noteq> 0"
      "vis G f" "f = lbr ! 1" "length lbr - 1 < 2" "r = Found"
  | (recurse) nb stk lbr' r' where "\<not> edge_is_hidden (edges G ! f)" "jit_track_callstack G f False (callstack st) = Some (nb, stk)" "nb \<noteq> 0"
      "recurses G lbr f lbr'" "jit_path_exists n G lbr' f (st\<lparr>callstack := stk\<rparr>) = r'"
      "(case r' of NotFound st' \<Rightarrow> jit_edges n G lbr fs st' | q \<Rightarrow> q) = r"
proof (cases "edge_is_hidden (edges G ! f)")
  case True
  then show ?thesis using hidden assms by simp
next
  case nh: False
  show ?thesis
  proof (cases "jit_track_callstack G f False (callstack st)")
    case None
    then show ?thesis using failed [of False "callstack st"] assms nh by simp
  next
    case (Some p)
    obtain nb stk where t: "jit_track_callstack G f False (callstack st) = Some (nb, stk)" using Some by (cases p) simp
    show ?thesis
    proof (cases "nb = 0 \<or> (vis G f \<and> f \<noteq> lbr ! 1)")
      case True
      then show ?thesis
        using assms nh t failed [of True stk] skip [OF nh t True]
        by (auto simp: Let_def split: option.splits if_splits)
    next
      case False
      then show ?thesis
        using assms nh t hit [OF nh t] recurse [OF nh t, of "tl lbr"] recurse [OF nh t, of lbr]
        by (cases "vis G f"; cases "length lbr - 1 < 2") (simp_all add: Let_def recurses_def)
    qed
  qed
qed

text \<open>One call, likewise.\<close>

lemma jit_path_call:
  assumes "jit_path_exists (Suc n) G lbr e st = r"
  obtains (short) "length lbr < 2" "r = Found"
  | (cut) "\<not> length lbr < 2" "visited st e \<ge> LBR_SIZE" "r = NotFound st"
  | (visit) r' where "\<not> length lbr < 2" "visited st e < LBR_SIZE"
      "jit_edges n G lbr (outgoing_edges (bbs G ! e_target (edges G ! e)))
         (st\<lparr>visited := (visited st)(e := visited st e + 1), dfs_edge := dfs_edge st @ [e]\<rparr>) = r'"
      "(case r' of NotFound st' \<Rightarrow>
          (case jit_track_callstack G e True (callstack st') of
             None \<Rightarrow> Assert_Failed
           | Some (x, stk) \<Rightarrow> NotFound (st'\<lparr>visited := (visited st')(e := visited st' e - 1),
                 dfs_edge := butlast (dfs_edge st'), callstack := stk\<rparr>))
        | q \<Rightarrow> q) = r"
  using assms
  by (cases "length lbr < 2"; cases "visited st e \<ge> LBR_SIZE")
    (auto simp: Let_def mark_edge_visited_def unmark_edge_visited_def split: jit_result.splits option.splits)

lemma jit_edges_restores:
  assumes path: "\<And>lbr e st st'. jit_path_exists n G lbr e st = NotFound st' \<Longrightarrow> visited st' = visited st \<and> dfs_edge st' = dfs_edge st"
  shows "jit_edges n G lbr fs st = NotFound st' \<Longrightarrow> visited st' = visited st \<and> dfs_edge st' = dfs_edge st"
proof (induction fs arbitrary: st)
  case (Cons f fs)
  from Cons.prems show ?case
  proof (cases rule: jit_edges_turn)
    case (recurse nb stk lbr' r')
    then obtain s where s: "r' = NotFound s" "jit_edges n G lbr fs s = NotFound st'" by (cases r') auto
    then show ?thesis using Cons.IH [OF s(2)] path [OF recurse(5) [unfolded s(1)]] by simp
  qed (use Cons.IH in auto)
qed simp

lemma jit_path_restores:
  "jit_path_exists n G lbr e st = NotFound st' \<Longrightarrow> visited st' = visited st \<and> dfs_edge st' = dfs_edge st"
proof (induction n arbitrary: lbr e st st')
  case (Suc n)
  from Suc.prems show ?case
  proof (cases rule: jit_path_call)
    case (visit r')
    then obtain s where s: "r' = NotFound s" by (cases r') (auto split: option.splits)
    then show ?thesis
      using visit(4) jit_edges_restores [OF Suc.IH visit(3) [unfolded s]] by (auto split: option.splits)
  qed simp_all
qed simp

lemmas jit_restores = jit_path_restores jit_edges_restores [OF jit_path_restores]

section \<open>Enough fuel\<close>

text \<open>
  Along the current path an edge occurs at most \<open>LBR_SIZE\<close> times, so the path, and
  with it the depth of the recursion, is bounded by \<open>LBR_SIZE\<close> times the number of
  edges.
\<close>

definition counted :: "cfg \<Rightarrow> jit_state \<Rightarrow> bool" where
  "counted G st \<longleftrightarrow> visited st = count_list (dfs_edge st) \<and> set (dfs_edge st) \<subseteq> {..<length (edges G)} \<and>
    (\<forall>e. visited st e \<le> LBR_SIZE)"

lemma counted_length:
  assumes "counted G st"
  shows "length (dfs_edge st) \<le> LBR_SIZE * length (edges G)"
proof -
  have "length (dfs_edge st) = (\<Sum>e<length (edges G). visited st e)"
    using assms sum_count_set [of "dfs_edge st" "{..<length (edges G)}"] by (simp add: counted_def)
  also have "\<dots> \<le> (\<Sum>e<length (edges G). LBR_SIZE)"
    using assms unfolding counted_def by (intro sum_mono) blast
  finally show ?thesis by (simp add: mult.commute)
qed

lemma counted_visit:
  assumes "counted G st" "e < length (edges G)" "visited st e < LBR_SIZE"
  shows "counted G (st\<lparr>visited := (visited st)(e := visited st e + 1), dfs_edge := dfs_edge st @ [e]\<rparr>)"
  using assms by (auto simp: counted_def fun_eq_iff Suc_le_eq)

lemma counted_stack [simp]: "counted G (st\<lparr>callstack := stk\<rparr>) = counted G st"
  by (simp add: counted_def)

lemma counted_same: "counted G st \<Longrightarrow> visited st' = visited st \<and> dfs_edge st' = dfs_edge st \<Longrightarrow> counted G st'"
  unfolding counted_def by metis

definition fuelled :: "nat \<Rightarrow> cfg \<Rightarrow> jit_state \<Rightarrow> bool" where
  "fuelled n G st \<longleftrightarrow> counted G st \<and> LBR_SIZE * length (edges G) < n + length (dfs_edge st)"

lemma fuelled_same: "fuelled n G st \<Longrightarrow> visited st' = visited st \<and> dfs_edge st' = dfs_edge st \<Longrightarrow> fuelled n G st'"
  by (auto simp: fuelled_def intro: counted_same)

lemma jit_edges_fuel:
  assumes path: "\<And>lbr e st. fuelled n G st \<Longrightarrow> e < length (edges G) \<Longrightarrow> jit_path_exists n G lbr e st \<noteq> Out_of_fuel"
  shows "fuelled n G st \<Longrightarrow> \<forall>f \<in> set fs. f < length (edges G) \<Longrightarrow> jit_edges n G lbr fs st \<noteq> Out_of_fuel"
proof (induction fs arbitrary: st)
  case (Cons f fs)
  obtain r where r: "jit_edges n G lbr (f # fs) st = r" by simp
  from r have "r \<noteq> Out_of_fuel"
  proof (cases rule: jit_edges_turn)
    case (skip nb stk x stk')
    then show ?thesis using Cons.IH [of "st\<lparr>callstack := stk'\<rparr>"] Cons.prems by (auto simp: fuelled_def)
  next
    case (recurse nb stk lbr' r')
    have "r' \<noteq> Out_of_fuel" using path [of "st\<lparr>callstack := stk\<rparr>" f lbr'] recurse(5) Cons.prems by (auto simp: fuelled_def)
    moreover have "jit_edges n G lbr fs s \<noteq> Out_of_fuel" if "r' = NotFound s" for s
      using jit_restores(1) [OF recurse(5) [unfolded that]] Cons.IH [of s] Cons.prems fuelled_same [of n G st s] by auto
    ultimately show ?thesis using recurse(6) by (cases r') auto
  qed (use Cons in auto)
  then show ?case using r by simp
qed simp

lemma jit_path_fuel:
  assumes wf: "wf_cfg G"
  shows "fuelled n G st \<Longrightarrow> e < length (edges G) \<Longrightarrow> jit_path_exists n G lbr e st \<noteq> Out_of_fuel"
proof (induction n arbitrary: lbr e st)
  case 0
  then show ?case using counted_length [of G st] by (simp add: fuelled_def)
next
  case (Suc n)
  obtain r where r: "jit_path_exists (Suc n) G lbr e st = r" by simp
  from r have "r \<noteq> Out_of_fuel"
  proof (cases rule: jit_path_call)
    case (visit r')
    let ?st = "st\<lparr>visited := (visited st)(e := visited st e + 1), dfs_edge := dfs_edge st @ [e]\<rparr>"
    have "e_target (edges G ! e) < length (bbs G)" using wf_edge [OF wf Suc.prems(2)] by (simp add: edge_ok_def)
    then have "\<forall>f \<in> set (outgoing_edges (bbs G ! e_target (edges G ! e))). f < length (edges G)"
      using wf_bb [OF wf] by (simp add: bb_ok_def)
    moreover have "fuelled n G ?st" using counted_visit Suc.prems visit(2) by (simp add: fuelled_def)
    ultimately have "r' \<noteq> Out_of_fuel" using jit_edges_fuel [OF Suc.IH] visit(3) by blast
    then show ?thesis using visit(4) by (cases r') (auto split: option.splits)
  qed simp_all
  then show ?case using r by simp
qed

section \<open>No failed assertion\<close>

definition calls_return :: "cfg \<Rightarrow> bool" where
  "calls_return G \<longleftrightarrow> (\<forall>e < length (edges G). edge_is_call (edges G ! e) \<longrightarrow> get_fallthrough_bb G (e_source (edges G ! e)) \<noteq> None)"

lemma track_ok:
  assumes "None \<notin> set stk" "calls_return G" "e < length (edges G)"
  shows "\<exists>nb stk'. jit_track_callstack G e unroll stk = Some (nb, stk') \<and> None \<notin> set stk'"
  using assms by (cases stk) (auto simp: jit_track_callstack_def calls_return_def split: option.split)

definition answers :: "jit_result \<Rightarrow> bool" where
  "answers r \<longleftrightarrow> r \<noteq> Assert_Failed \<and> (\<forall>st. r = NotFound st \<longrightarrow> None \<notin> set (callstack st))"

lemma jit_edges_answers:
  assumes calls: "calls_return G"
    and path: "\<And>lbr e st. None \<notin> set (callstack st) \<Longrightarrow> e < length (edges G) \<Longrightarrow> answers (jit_path_exists n G lbr e st)"
  shows "None \<notin> set (callstack st) \<Longrightarrow> \<forall>f \<in> set fs. f < length (edges G) \<Longrightarrow> answers (jit_edges n G lbr fs st)"
proof (induction fs arbitrary: st)
  case (Cons f fs)
  have f: "f < length (edges G)" using Cons.prems by simp
  obtain r where r: "jit_edges n G lbr (f # fs) st = r" by simp
  from r have "answers r"
  proof (cases rule: jit_edges_turn)
    case (failed unroll stk)
    have "None \<notin> set stk" using failed(4,5) track_ok [OF Cons.prems(1) calls f, of False] Cons.prems(1) by (cases unroll) auto
    then show ?thesis using track_ok [OF _ calls f, of stk unroll] failed(2) by auto
  next
    case (skip nb stk x stk')
    have "None \<notin> set stk'"
      using track_ok [OF Cons.prems(1) calls f, of False] track_ok [OF _ calls f, of stk True] skip(2,4) by auto
    then show ?thesis using Cons.IH [of "st\<lparr>callstack := stk'\<rparr>"] Cons.prems(2) skip(5) by simp
  next
    case (recurse nb stk lbr' r')
    have "None \<notin> set stk" using track_ok [OF Cons.prems(1) calls f, of False] recurse(2) by auto
    then have "answers r'" using path [of "st\<lparr>callstack := stk\<rparr>" f lbr'] f recurse(5) by simp
    then show ?thesis using recurse(6) Cons.IH Cons.prems(2) by (cases r') (auto simp: answers_def)
  qed (use Cons in \<open>auto simp: answers_def\<close>)
  then show ?case using r by simp
qed (simp add: answers_def)

lemma jit_path_answers:
  assumes wf: "wf_cfg G" and calls: "calls_return G"
  shows "None \<notin> set (callstack st) \<Longrightarrow> e < length (edges G) \<Longrightarrow> answers (jit_path_exists n G lbr e st)"
proof (induction n arbitrary: lbr e st)
  case (Suc n)
  obtain r where r: "jit_path_exists (Suc n) G lbr e st = r" by simp
  from r have "answers r"
  proof (cases rule: jit_path_call)
    case (visit r')
    have "e_target (edges G ! e) < length (bbs G)" using wf_edge [OF wf Suc.prems(2)] by (simp add: edge_ok_def)
    then have "\<forall>f \<in> set (outgoing_edges (bbs G ! e_target (edges G ! e))). f < length (edges G)"
      using wf_bb [OF wf] by (simp add: bb_ok_def)
    then have a: "answers r'" using jit_edges_answers [OF calls Suc.IH] visit(3) Suc.prems(1) by auto
    show ?thesis
    proof (cases r')
      case (NotFound s)
      then have "None \<notin> set (callstack s)" using a by (simp add: answers_def)
      from track_ok [OF this calls Suc.prems(2), of True] show ?thesis using visit(4) NotFound by (auto simp: answers_def)
    qed (use visit(4) a in \<open>auto simp: answers_def\<close>)
  qed (use Suc.prems in \<open>simp_all add: answers_def\<close>)
  then show ?case using r by simp
qed (simp add: answers_def)

section \<open>Paths\<close>

text \<open>
  The specification: \<open>silent\<close> is a step along an edge that leaves no trace in the
  LBR, \<open>reaches\<close> says that the recorded branches can be taken in order with silent
  steps before each of them.
\<close>

definition silent :: "cfg \<Rightarrow> nat \<Rightarrow> nat \<Rightarrow> bool" where
  "silent G b b' \<longleftrightarrow>
    (\<exists>f \<in> set (outgoing_edges (bbs G ! b)). \<not> edge_is_hidden (edges G ! f) \<and> \<not> vis G f \<and> e_target (edges G ! f) = b')"

fun reaches :: "cfg \<Rightarrow> nat \<Rightarrow> nat list \<Rightarrow> bool" where
  "reaches G b [] = True"
| "reaches G b (f # fs) =
    ((\<exists>b'. (silent G)\<^sup>*\<^sup>* b b' \<and> f \<in> set (outgoing_edges (bbs G ! b')) \<and> \<not> edge_is_hidden (edges G ! f) \<and> vis G f) \<and>
     reaches G (e_target (edges G ! f)) fs)"

lemma reaches_silent: "silent G b b' \<Longrightarrow> reaches G b' fs \<Longrightarrow> reaches G b fs"
  by (cases fs) (auto intro: converse_rtranclp_into_rtranclp)

lemma reaches_visible:
  "f \<in> set (outgoing_edges (bbs G ! b)) \<Longrightarrow> \<not> edge_is_hidden (edges G ! f) \<Longrightarrow> vis G f \<Longrightarrow>
   reaches G (e_target (edges G ! f)) fs \<Longrightarrow> reaches G b (f # fs)"
  by auto

lemma two_or_more: "\<not> length xs < 2 \<Longrightarrow> xs = hd xs # xs ! 1 # tl (tl xs)"
  by (cases xs; cases "tl xs") auto

lemma tl_one: "length xs - 1 < 2 \<Longrightarrow> \<not> length xs < 2 \<Longrightarrow> tl (tl xs) = []"
  by (cases xs; cases "tl xs") auto

lemma jit_edges_sound:
  assumes path: "\<And>lbr e st. jit_path_exists n G lbr e st = Found \<Longrightarrow> reaches G (e_target (edges G ! e)) (tl lbr)"
    and len: "\<not> length lbr < 2"
  shows "jit_edges n G lbr fs st = Found \<Longrightarrow> set fs \<subseteq> set (outgoing_edges (bbs G ! b)) \<Longrightarrow> reaches G b (tl lbr)"
proof (induction fs arbitrary: st)
  case (Cons f fs)
  have lbr: "tl lbr = lbr ! 1 # tl (tl lbr)" using two_or_more [OF len] by (metis list.sel(3))
  from Cons.prems(1) show ?case
  proof (cases rule: jit_edges_turn)
    case (hit nb stk)
    then have "reaches G b (f # tl (tl lbr))" using Cons.prems(2) tl_one [OF hit(6) len] by auto
    then show ?thesis using lbr hit(5) by metis
  next
    case (recurse nb stk lbr' r')
    show ?thesis
    proof (cases "r' = Found")
      case True
      have r: "reaches G (e_target (edges G ! f)) (tl lbr')" using path recurse(5) True by blast
      show ?thesis
      proof (cases "vis G f")
        case True
        then have "f = lbr ! 1" "lbr' = tl lbr" using recurse(4) by (auto simp: recurses_def)
        then have "reaches G b (f # tl (tl lbr))"
          using r True recurse(1) Cons.prems(2) reaches_visible [of f G b "tl (tl lbr)"] by simp
        then show ?thesis using lbr \<open>f = lbr ! 1\<close> by metis
      next
        case False
        then have "silent G b (e_target (edges G ! f))" using recurse(1) Cons.prems(2) by (auto simp: silent_def)
        then show ?thesis using reaches_silent r False recurse(4) by (auto simp: recurses_def)
      qed
    next
      case False
      then show ?thesis using recurse(6) Cons by (cases r') auto
    qed
  qed (use Cons in auto)
qed simp

lemma jit_path_sound: "jit_path_exists n G lbr e st = Found \<Longrightarrow> reaches G (e_target (edges G ! e)) (tl lbr)"
proof (induction n arbitrary: lbr e st)
  case (Suc n)
  from Suc.prems show ?case
  proof (cases rule: jit_path_call)
    case short
    then show ?thesis by (cases lbr) auto
  next
    case (visit r')
    then have "r' = Found" by (cases r') (auto split: option.splits)
    then show ?thesis by (intro jit_edges_sound [of n G lbr, OF Suc.IH visit(1)]) (use visit(3) in auto)
  qed simp
qed simp

text \<open>The same with the bound on the visits: \<open>v\<close> counts them.\<close>

inductive bounded :: "cfg \<Rightarrow> (nat \<Rightarrow> nat) \<Rightarrow> nat \<Rightarrow> nat list \<Rightarrow> bool" for G where
  quiet: "f \<in> set (outgoing_edges (bbs G ! b)) \<Longrightarrow> \<not> edge_is_hidden (edges G ! f) \<Longrightarrow> \<not> vis G f \<Longrightarrow> v f < LBR_SIZE \<Longrightarrow>
    bounded G (v(f := v f + 1)) (e_target (edges G ! f)) fs \<Longrightarrow> bounded G v b fs"
| final: "f \<in> set (outgoing_edges (bbs G ! b)) \<Longrightarrow> \<not> edge_is_hidden (edges G ! f) \<Longrightarrow> vis G f \<Longrightarrow> bounded G v b [f]"
| taken: "f \<in> set (outgoing_edges (bbs G ! b)) \<Longrightarrow> \<not> edge_is_hidden (edges G ! f) \<Longrightarrow> vis G f \<Longrightarrow> v f < LBR_SIZE \<Longrightarrow>
    bounded G (v(f := v f + 1)) (e_target (edges G ! f)) (f' # fs) \<Longrightarrow> bounded G v b (f # f' # fs)"

inductive_cases bounded_elim: "bounded G v b fs"

text \<open>A branch that is not a return is never refused by the call stack.\<close>

lemma track_not_return: "\<not> edge_is_return (edges G ! f) \<Longrightarrow> jit_track_callstack G f unroll stk = Some (nb, stk') \<Longrightarrow> nb \<noteq> 0"
  by (auto simp: jit_track_callstack_def split: if_splits)

lemma return_is_visible: "edge_is_return (edges G ! f) \<Longrightarrow> vis G f"
  by (simp add: edge_is_return_def edge_is_indirect_def)

text \<open>What a failed search rules out.\<close>

definition excluded :: "cfg \<Rightarrow> (nat \<Rightarrow> nat) \<Rightarrow> nat list \<Rightarrow> nat \<Rightarrow> bool" where
  "excluded G v lbr f \<longleftrightarrow> edge_is_hidden (edges G ! f) \<or>
    (\<forall>lbr'. recurses G lbr f lbr' \<longrightarrow> \<not> (v f < LBR_SIZE \<and> bounded G (v(f := v f + 1)) (e_target (edges G ! f)) (tl lbr'))) \<and>
    \<not> (vis G f \<and> f = lbr ! 1 \<and> length lbr - 1 < 2)"

lemma jit_edges_complete:
  assumes path: "\<And>lbr e st st'. jit_path_exists n G lbr e st = NotFound st' \<Longrightarrow> \<not> length lbr < 2 \<Longrightarrow>
      \<forall>f \<in> set (tl lbr). \<not> edge_is_return (edges G ! f) \<Longrightarrow>
      \<not> (visited st e < LBR_SIZE \<and> bounded G ((visited st)(e := visited st e + 1)) (e_target (edges G ! e)) (tl lbr))"
    and len: "\<not> length lbr < 2" and ret: "\<forall>f \<in> set (tl lbr). \<not> edge_is_return (edges G ! f)"
  shows "jit_edges n G lbr fs st = NotFound st' \<Longrightarrow> \<forall>f \<in> set fs. excluded G (visited st) lbr f"
proof (induction fs arbitrary: st)
  case (Cons f fs)
  have lbr: "tl lbr = lbr ! 1 # tl (tl lbr)" using two_or_more [OF len] by (metis list.sel(3))
  from Cons.prems show ?case
  proof (cases rule: jit_edges_turn)
    case (skip nb stk x stk')
    have "\<not> edge_is_return (edges G ! (lbr ! 1))" using ret lbr by (metis list.set_intros(1))
    then have "vis G f \<and> f \<noteq> lbr ! 1" using skip(2,3) track_not_return return_is_visible by blast
    then have "excluded G (visited st) lbr f" by (auto simp: excluded_def recurses_def)
    then show ?thesis using Cons.IH [OF skip(5)] by simp
  next
    case (recurse nb stk lbr' r')
    then obtain s where s: "r' = NotFound s" "jit_edges n G lbr fs s = NotFound st'" by (cases r') auto
    have "set (tl (tl lbr)) \<subseteq> set (tl lbr)" by (cases "tl lbr") auto
    then have l: "\<not> length lbr' < 2" "\<forall>f \<in> set (tl lbr'). \<not> edge_is_return (edges G ! f)"
      using recurse(4) len ret lbr by (auto simp: recurses_def)
    have "\<not> (visited st f < LBR_SIZE \<and> bounded G ((visited st)(f := visited st f + 1)) (e_target (edges G ! f)) (tl lbr'))"
      using path [OF recurse(5) [unfolded s(1)] l] by simp
    then have "excluded G (visited st) lbr f" using recurse(4) by (auto simp: excluded_def recurses_def)
    moreover have "visited s = visited st" using jit_restores(1) [OF recurse(5) [unfolded s(1)]] by simp
    ultimately show ?thesis using Cons.IH [OF s(2)] by simp
  qed (use Cons.IH in \<open>auto simp: excluded_def\<close>)
qed simp

lemma bounded_not_excluded:
  assumes "bounded G v b (tl lbr)" "\<not> length lbr < 2" "\<forall>f \<in> set (outgoing_edges (bbs G ! b)). excluded G v lbr f"
  shows False
proof -
  have lbr: "tl lbr = lbr ! 1 # tl (tl lbr)" using two_or_more [OF assms(2)] by (metis list.sel(3))
  from assms(1) show False
  proof (cases rule: bounded.cases)
    case (quiet f)
    then show ?thesis using assms(3) by (auto simp: excluded_def recurses_def)
  next
    case (final f)
    then have "f = lbr ! 1" "tl (tl lbr) = []" using lbr by auto
    moreover from this have "length lbr - 1 < 2" by (cases lbr; cases "tl lbr") auto
    ultimately show ?thesis using final assms(3) by (auto simp: excluded_def)
  next
    case (taken f f' fs)
    then have "f = lbr ! 1" and t: "tl (tl lbr) = f' # fs" using lbr by auto
    moreover have "\<not> length lbr - 1 < 2" using t by (cases lbr; cases "tl lbr") auto
    ultimately have "recurses G lbr f (tl lbr)" using taken by (simp add: recurses_def)
    moreover have "excluded G v lbr f" using taken assms(3) by blast
    ultimately have "\<not> bounded G (v(f := v f + 1)) (e_target (edges G ! f)) (tl (tl lbr))"
      using taken unfolding excluded_def by blast
    then show ?thesis using taken t by simp
  qed
qed

lemma jit_path_complete:
  "jit_path_exists n G lbr e st = NotFound st' \<Longrightarrow> \<not> length lbr < 2 \<Longrightarrow> \<forall>f \<in> set (tl lbr). \<not> edge_is_return (edges G ! f) \<Longrightarrow>
   \<not> (visited st e < LBR_SIZE \<and> bounded G ((visited st)(e := visited st e + 1)) (e_target (edges G ! e)) (tl lbr))"
proof (induction n arbitrary: lbr e st st')
  case (Suc n)
  from Suc.prems(1) show ?case
  proof (cases rule: jit_path_call)
    case (visit r')
    let ?st = "st\<lparr>visited := (visited st)(e := visited st e + 1), dfs_edge := dfs_edge st @ [e]\<rparr>"
    obtain s where s: "r' = NotFound s" using visit(4) by (cases r') (auto split: option.splits)
    have "\<forall>f \<in> set (outgoing_edges (bbs G ! e_target (edges G ! e))). excluded G (visited ?st) lbr f"
      by (rule jit_edges_complete [OF Suc.IH Suc.prems(2,3) visit(3) [unfolded s]])
    then show ?thesis using bounded_not_excluded [OF _ Suc.prems(2)] by (simp del: fun_upd_apply) blast
  qed (use Suc.prems in auto)
qed simp

section \<open>Silent steps can be taken without repeating an edge\<close>

lemma bounded_silent:
  assumes "rtrancl_path (silent G) b bs b'" "distinct bs" "fs \<noteq> []"
    and "\<forall>f. \<not> vis G f \<and> e_target (edges G ! f) \<in> set bs \<longrightarrow> v f + length fs \<le> LBR_SIZE"
    and "\<forall>f. \<not> vis G f \<longrightarrow> v f + length fs \<le> LBR_SIZE + 1" and "\<forall>f. vis G f \<longrightarrow> v f + length fs \<le> LBR_SIZE"
    and "\<And>v. \<forall>f. \<not> vis G f \<longrightarrow> v f + length fs \<le> LBR_SIZE + 1 \<Longrightarrow> \<forall>f. vis G f \<longrightarrow> v f + length fs \<le> LBR_SIZE \<Longrightarrow> bounded G v b' fs"
  shows "bounded G v b fs"
  using assms
proof (induction arbitrary: v rule: rtrancl_path.induct)
  case (base b)
  show ?case by (rule base.prems(6) [OF base.prems(4,5)])
next
  case (step b c bs b')
  obtain f where f: "f \<in> set (outgoing_edges (bbs G ! b))" "\<not> edge_is_hidden (edges G ! f)" "\<not> vis G f" "e_target (edges G ! f) = c"
    using step.hyps(1) by (auto simp: silent_def)
  have "v f + length fs \<le> LBR_SIZE" using step.prems(3) f by auto
  moreover have "length fs > 0" using step.prems(2) by simp
  ultimately have lt: "v f < LBR_SIZE" by linarith
  have "bounded G (v(f := v f + 1)) c fs"
  proof (rule step.IH)
    show "\<forall>g. \<not> vis G g \<and> e_target (edges G ! g) \<in> set bs \<longrightarrow> (v(f := v f + 1)) g + length fs \<le> LBR_SIZE"
      using step.prems(1,3) f(4) by auto
    show "\<forall>g. \<not> vis G g \<longrightarrow> (v(f := v f + 1)) g + length fs \<le> LBR_SIZE + 1"
      using step.prems(4) \<open>v f + length fs \<le> LBR_SIZE\<close> by simp
    show "\<forall>g. vis G g \<longrightarrow> (v(f := v f + 1)) g + length fs \<le> LBR_SIZE"
      using step.prems(5) f(3) by simp
  qed (use step.prems(1,2,6) in auto)
  then show ?case using bounded.quiet [where v = v, OF f(1-3) lt] f(4) by simp
qed

lemma bounded_visible:
  assumes "\<forall>g. \<not> vis G g \<longrightarrow> v g + length (f # fs) \<le> LBR_SIZE + 1" "\<forall>g. vis G g \<longrightarrow> v g + length (f # fs) \<le> LBR_SIZE"
    and f: "f \<in> set (outgoing_edges (bbs G ! b))" "\<not> edge_is_hidden (edges G ! f)" "vis G f"
    and rest: "\<And>v. \<forall>g. v g + length fs \<le> LBR_SIZE \<Longrightarrow> fs \<noteq> [] \<Longrightarrow> bounded G v (e_target (edges G ! f)) fs"
  shows "bounded G v b (f # fs)"
proof (cases fs)
  case Nil
  then show ?thesis using bounded.final [OF f] by simp
next
  case (Cons g gs)
  have vf: "v f + length fs < LBR_SIZE" using assms(2) f(3) by (auto simp: Suc_le_eq)
  have "(v(f := v f + 1)) g + length fs \<le> LBR_SIZE" for g
    using vf assms(1,2) by (cases "vis G g") (auto simp: Suc_le_eq)
  then have "bounded G (v(f := v f + 1)) (e_target (edges G ! f)) fs" using rest Cons by blast
  then show ?thesis using bounded.taken [OF f] vf Cons by simp
qed

lemma reaches_bounded: "reaches G b fs \<Longrightarrow> \<forall>f. v f + length fs \<le> LBR_SIZE \<Longrightarrow> fs \<noteq> [] \<Longrightarrow> bounded G v b fs"
proof (induction fs arbitrary: b v)
  case (Cons f fs)
  obtain b' where b': "(silent G)\<^sup>*\<^sup>* b b'" "f \<in> set (outgoing_edges (bbs G ! b'))" "\<not> edge_is_hidden (edges G ! f)" "vis G f"
      and r: "reaches G (e_target (edges G ! f)) fs" using Cons.prems(1) by auto
  obtain bs where "rtrancl_path (silent G) b bs b'" "distinct (b # bs)"
    using b'(1) rtrancl_path_distinct by (metis rtranclp_eq_rtrancl_path)
  moreover have "v g + length (f # fs) \<le> LBR_SIZE + 1" for g using spec [OF Cons.prems(2), of g] by simp
  ultimately show ?case
  proof (intro bounded_silent [of G b bs b'])
    show "bounded G w b' (f # fs)" if "\<forall>g. \<not> vis G g \<longrightarrow> w g + length (f # fs) \<le> LBR_SIZE + 1"
      "\<forall>g. vis G g \<longrightarrow> w g + length (f # fs) \<le> LBR_SIZE" for w
      by (rule bounded_visible [OF that b'(2-4)]) (rule Cons.IH [OF r])
  qed (use Cons.prems(2) in auto)
qed simp

section \<open>Properties\<close>

lemma counted_start: "counted G jit_start"
  by (simp add: counted_def jit_start_def fun_eq_iff)

lemma jit_path_decides:
  assumes wf: "wf_cfg G" and calls: "calls_return G" and e: "e < length (edges G)"
    and len: "length (e # lbr) \<le> LBR_SIZE" and ret: "\<forall>f \<in> set lbr. \<not> edge_is_return (edges G ! f)"
    and n: "n > LBR_SIZE * length (edges G)"
  shows "jit_path_exists n G (e # lbr) e jit_start = Found \<longleftrightarrow> reaches G (e_target (edges G ! e)) lbr"
proof
  assume "jit_path_exists n G (e # lbr) e jit_start = Found"
  from jit_path_sound [OF this] show "reaches G (e_target (edges G ! e)) lbr" by simp
next
  assume r: "reaches G (e_target (edges G ! e)) lbr"
  have f: "fuelled n G jit_start" using n counted_start by (simp add: fuelled_def jit_start_def)
  have no: "jit_path_exists n G (e # lbr) e jit_start \<noteq> Out_of_fuel"
    "jit_path_exists n G (e # lbr) e jit_start \<noteq> Assert_Failed"
    using jit_path_fuel [OF wf f e] jit_path_answers [OF wf calls _ e, of jit_start n "e # lbr"]
    by (auto simp: answers_def jit_start_def)
  show "jit_path_exists n G (e # lbr) e jit_start = Found"
  proof (cases "lbr = []")
    case True
    then show ?thesis using n by (cases n) simp_all
  next
    case False
    have "bounded G ((visited jit_start)(e := visited jit_start e + 1)) (e_target (edges G ! e)) lbr"
      using len by (intro reaches_bounded [OF r _ False]) (auto simp: jit_start_def)
    moreover have "visited jit_start e < LBR_SIZE" by (simp add: jit_start_def LBR_SIZE_def)
    ultimately have "jit_path_exists n G (e # lbr) e jit_start \<noteq> NotFound st" for st
      using jit_path_complete [of n G "e # lbr" e jit_start st] ret False by (cases lbr) auto
    then show ?thesis using no by (cases "jit_path_exists n G (e # lbr) e jit_start") auto
  qed
qed

text \<open>
  C23: The search ends: fuel above \<open>LBR_SIZE\<close> times the number of edges is enough on
  every well-formed graph and for every LBR.  When every call has a block to return
  to, it ends with an answer and does not hit the assertion.
\<close>
theorem jit_search_terminates:
  assumes "wf_cfg G" "e < length (edges G)" "n > LBR_SIZE * length (edges G)"
  shows "jit_path_exists n G lbr e jit_start \<noteq> Out_of_fuel \<and>
    (calls_return G \<longrightarrow> jit_path_exists n G lbr e jit_start \<noteq> Assert_Failed)"
proof -
  have "fuelled n G jit_start" using assms(3) counted_start by (simp add: fuelled_def jit_start_def)
  then show ?thesis
    using jit_path_fuel [OF assms(1) _ assms(2)] jit_path_answers [OF assms(1) _ _ assms(2), of jit_start n lbr]
    by (auto simp: answers_def jit_start_def)
qed

text \<open>
  C2: The search is sound: when it accepts, the graph has a path that takes the
  branches of the LBR in order, with only unrecorded branches in between.
\<close>
theorem jit_search_sound:
  assumes "jit_path_exists n G lbr e st = Found"
  shows "reaches G (e_target (edges G ! e)) (tl lbr)"
  using assms by (rule jit_path_sound)

text \<open>
  C3: For an LBR without returns after its first entry the search decides exactly
  whether such a path exists; the bound on the visits of an edge loses nothing.
\<close>
theorem jit_search_decides:
  assumes wf: "wf_cfg G" and calls: "calls_return G" and e: "e < length (edges G)"
    and len: "length (e # lbr) \<le> LBR_SIZE" and ret: "\<forall>f \<in> set lbr. \<not> edge_is_return (edges G ! f)"
    and n: "n > LBR_SIZE * length (edges G)"
  shows "jit_path_exists n G (e # lbr) e jit_start = Found \<longleftrightarrow> reaches G (e_target (edges G ! e)) lbr"
  using assms by (rule jit_path_decides)

section \<open>Call and return matching\<close>

text \<open>
  What the call stack is for: \<open>disciplined\<close> says that every return in a sequence of
  branches goes to the block after the call it belongs to, unless that call is older
  than the LBR.
\<close>

fun disciplined :: "cfg \<Rightarrow> nat option list \<Rightarrow> nat list \<Rightarrow> bool" where
  "disciplined G stk [] = True"
| "disciplined G stk (f # fs) =
    (case jit_track_callstack G f False stk of
       None \<Rightarrow> False
     | Some (nb, stk') \<Rightarrow> nb \<noteq> 0 \<and> disciplined G stk' fs)"

text \<open>
  A program in which \<open>a\<close> (block 2), called from block 0, calls \<open>b\<close> (block 4), and \<open>b\<close>
  has two return instructions, in blocks 5 and 6.  Block 1 follows the first call
  and block 3 the second one.
\<close>

definition demo_block :: "u64 \<Rightarrow> u64 \<Rightarrow> nat list \<Rightarrow> nat list \<Rightarrow> arms_bb" where
  "demo_block a l is os = (mk_bb a (l + 5) l [])\<lparr>incoming_edges := is, outgoing_edges := os\<rparr>"

definition two_returns :: cfg where
  "two_returns = (mk_cfg ''demo'')\<lparr>
     edges := [mk_typed_edge True 1 0 arms_indirect_jmp, mk_typed_edge True 0 2 arms_direct_call,
       mk_typed_edge True 2 4 arms_direct_call, mk_typed_edge True 4 5 arms_cond_taken,
       mk_typed_edge True 4 6 arms_cond_not_taken, mk_typed_edge True 5 3 arms_ret,
       mk_typed_edge True 6 3 arms_ret, mk_typed_edge True 6 1 arms_ret],
     bbs := [demo_block 0x10 0x12 [0] [1], demo_block 0x17 0x18 [7] [0], demo_block 0x20 0x22 [1] [2],
       demo_block 0x27 0x28 [5, 6] [], demo_block 0x30 0x31 [2] [3, 4], demo_block 0x40 0x41 [3] [5],
       demo_block 0x50 0x51 [4] [6, 7]],
     start2bb := [(0x10, 0), (0x17, 1), (0x20, 2), (0x27, 3), (0x30, 4), (0x40, 5), (0x50, 6)]\<rparr>"

lemmas demo_defs = two_returns_def demo_block_def mk_cfg_def mk_bb_def mk_typed_edge_def set_type_def Let_def

text \<open>The graph, evaluated.\<close>

lemma two_returns_fallthrough:
  "get_fallthrough_bb two_returns 0 = Some 1" "get_fallthrough_bb two_returns 2 = Some 3"
  by (simp_all add: demo_defs get_fallthrough_bb_def find_bb_def upt_rec)

lemma two_returns_edges [simp]:
  "edges two_returns ! 0 = mk_typed_edge True 1 0 arms_indirect_jmp" "edges two_returns ! Suc 0 = mk_typed_edge True 0 2 arms_direct_call"
  "edges two_returns ! 2 = mk_typed_edge True 2 4 arms_direct_call" "edges two_returns ! 3 = mk_typed_edge True 4 5 arms_cond_taken"
  "edges two_returns ! 4 = mk_typed_edge True 4 6 arms_cond_not_taken" "edges two_returns ! 5 = mk_typed_edge True 5 3 arms_ret"
  "edges two_returns ! 6 = mk_typed_edge True 6 3 arms_ret" "edges two_returns ! 7 = mk_typed_edge True 6 1 arms_ret"
  by (simp_all add: two_returns_def)

lemma two_returns_out [simp]:
  "outgoing_edges (bbs two_returns ! 0) = [1]" "outgoing_edges (bbs two_returns ! 2) = [2]"
  "outgoing_edges (bbs two_returns ! 4) = [3, 4]" "outgoing_edges (bbs two_returns ! 5) = [5]"
  "outgoing_edges (bbs two_returns ! 6) = [6, 7]"
  by (simp_all add: two_returns_def demo_block_def)

lemmas edge_defs = edge_is_call_def edge_is_return_def is_return_def edge_is_hidden_def edge_is_indirect_def
  edge_is_direct_call_def is_indirect_def is_direct_call_def edge_type_is_indirect_def edge_type_is_direct_call_def

lemma rejected: "\<exists>st. jit_path_exists (Suc (Suc (Suc (Suc (Suc (Suc n)))))) two_returns [0, 1, 2, 6] 0 jit_start = NotFound st"
  by (simp add: Let_def edge_defs jit_track_callstack_def mark_edge_visited_def unmark_edge_visited_def jit_start_def
      two_returns_fallthrough LBR_SIZE_def)

lemma accepted: "jit_path_exists (Suc (Suc (Suc (Suc (Suc (Suc n)))))) two_returns [1, 2, 7] 1 jit_start = Found"
  by (simp add: Let_def edge_defs jit_track_callstack_def mark_edge_visited_def unmark_edge_visited_def jit_start_def
      two_returns_fallthrough LBR_SIZE_def)

lemma two_returns_wf: "wf_cfg two_returns"
  by (simp add: wf_cfg_def demo_defs All_less_Suc2 edge_ok_def bb_ok_def map_ok_def)

lemma two_returns_calls: "calls_return two_returns"
proof -
  have "\<forall>x \<in> set (edges two_returns). edge_is_call x \<longrightarrow> get_fallthrough_bb two_returns (e_source x) \<noteq> None"
    by (subst two_returns_def) (simp add: edge_is_call_def two_returns_fallthrough)
  then show ?thesis by (simp add: calls_return_def)
qed

text \<open>
  C37: The call stack of the search does not implement call and return matching,
  because a return that was popped and then not taken is not pushed back.  The trace
  of a program that behaves, with a function that has two return instructions, is
  rejected; a trace in which that function returns to the wrong caller is accepted.
\<close>
theorem jit_call_matching_misjudges:
  "reaches two_returns (e_target (edges two_returns ! 0)) [1, 2, 6] \<and> disciplined two_returns [] [1, 2, 6] \<and>
   (\<exists>st. jit_path_exists 200 two_returns [0, 1, 2, 6] 0 jit_start = NotFound st) \<and>
   \<not> disciplined two_returns [] [2, 7] \<and> jit_path_exists 200 two_returns [1, 2, 7] 1 jit_start = Found"
proof (intro conjI)
  have "silent two_returns 4 6" by (simp add: silent_def edge_defs)
  moreover have "reaches two_returns 6 [6]" by (rule reaches_visible) (simp_all add: edge_defs)
  ultimately have r: "reaches two_returns 4 [6]" by (rule reaches_silent)
  have r: "reaches two_returns 2 [2, 6]" by (rule reaches_visible) (simp_all add: edge_defs r del: reaches.simps)
  have "reaches two_returns 0 [1, 2, 6]" by (rule reaches_visible) (simp_all add: edge_defs r del: reaches.simps)
  then show "reaches two_returns (e_target (edges two_returns ! 0)) [1, 2, 6]" by simp
  show "\<exists>st. jit_path_exists 200 two_returns [0, 1, 2, 6] 0 jit_start = NotFound st" using rejected [of 194] by simp
  show "jit_path_exists 200 two_returns [1, 2, 7] 1 jit_start = Found" using accepted [of 194] by simp
qed (simp_all add: jit_track_callstack_def edge_defs two_returns_fallthrough)

lemma two_returns_count: "length (edges two_returns) = 8"
  by (simp add: two_returns_def)

theorem jit_search_terminates_witness:
  "wf_cfg two_returns \<and> 0 < length (edges two_returns) \<and> 200 > LBR_SIZE * length (edges two_returns) \<and> calls_return two_returns \<and>
   jit_path_exists 200 two_returns [0, 1, 2, 6] 0 jit_start \<noteq> Out_of_fuel \<and>
   jit_path_exists 200 two_returns [0, 1, 2, 6] 0 jit_start \<noteq> Assert_Failed"
  using jit_search_terminates [of two_returns 0 200 "[0, 1, 2, 6]"] two_returns_wf two_returns_calls
  by (simp add: two_returns_count LBR_SIZE_def)

theorem jit_search_sound_witness:
  "jit_path_exists 200 two_returns [1, 2, 7] 1 jit_start = Found \<and> reaches two_returns 2 [2, 7]"
  using jit_search_sound [of 200 two_returns "[1, 2, 7]" 1 jit_start] accepted [of 194] by (simp del: reaches.simps)

theorem jit_search_decides_witness:
  "wf_cfg two_returns \<and> calls_return two_returns \<and>
   (jit_path_exists 200 two_returns [0, 1, 2] 0 jit_start = Found \<longleftrightarrow> reaches two_returns 0 [1, 2])"
proof -
  have "(jit_path_exists 200 two_returns [0, 1, 2] 0 jit_start = Found) = reaches two_returns (e_target (edges two_returns ! 0)) [1, 2]"
    by (rule jit_search_decides [OF two_returns_wf two_returns_calls]) (simp_all add: two_returns_count LBR_SIZE_def edge_defs)
  then show ?thesis using two_returns_wf two_returns_calls by simp
qed

end
