(* ===== verification/Jit_Validate.thy ===== *)
theory Jit_Validate
  imports Jit_Search
begin

text \<open>
  Validating an LBR against the graph (\<open>jit_validate_lbr\<close> in
  \<open>src/dyninst-static/lbr_analysis.C\<close>): entries that lead into the wrapper are
  removed, the addresses are normalised, every entry is looked up as an edge, and
  the path search decides.  On the way the graph grows: unknown code is parsed again
  and edges the analysis missed are added under conditions.
\<close>

section \<open>Removing the branches into the wrapper\<close>

text \<open>The register that holds the entry \<open>i\<close> of the LBR, the oldest being the first.\<close>

definition slot :: "u64 \<Rightarrow> nat \<Rightarrow> nat" where
  "slot t i = unat (t + of_nat i + 1) mod LBR_ENTRIES"

text \<open>The two \<open>memmove\<close>s: the registers from \<open>start\<close> up to \<open>index\<close> move up by one, and the first is cleared.\<close>

definition shift_in :: "nat \<Rightarrow> nat \<Rightarrow> u64 list \<Rightarrow> u64 list" where
  "shift_in start index xs = take start xs @ [0] @ drop start (take index xs) @ drop (Suc index) xs"

fun moveblocks_loop :: "nat \<Rightarrow> u64 \<Rightarrow> nat list \<Rightarrow> lbr_t \<Rightarrow> bool \<times> lbr_t" where
  "moveblocks_loop start target [] l = (True, l)"
| "moveblocks_loop start target (i # is) l =
    (let index = slot (tos l) i in
     if to_regs l ! index = target then
       if start > index then (False, l)
       else moveblocks_loop start target is
              (l\<lparr>from_regs := shift_in start index (from_regs l), to_regs := shift_in start index (to_regs l)\<rparr>)
     else moveblocks_loop start target is l)"

definition moveblocks :: "u64 \<Rightarrow> lbr_t \<Rightarrow> bool \<times> lbr_t" where
  "moveblocks target l = moveblocks_loop (slot (tos l) 0) target [0..<LBR_ENTRIES] l"

definition remove_lib_enter_edges :: "u64 \<Rightarrow> lbr_t \<Rightarrow> bool \<times> lbr_t" where
  "remove_lib_enter_edges target l =
    (let (ok, l) = moveblocks target l in
     if ok then (True, l)
     else let copy = l\<lparr>tos := of_nat LBR_ENTRIES - 1,
                from_regs := map (\<lambda>i. from_regs l ! slot (tos l) i) [0..<LBR_ENTRIES],
                to_regs := map (\<lambda>i. to_regs l ! slot (tos l) i) [0..<LBR_ENTRIES]\<rparr>;
              (ok, copy) = moveblocks target copy
          in if \<not> ok then (False, l)
          else (True, fold (\<lambda>i l. l\<lparr>from_regs := (from_regs l)[slot (tos l) i := from_regs copy ! i],
                                      to_regs := (to_regs l)[slot (tos l) i := to_regs copy ! i]\<rparr>) [0..<LBR_ENTRIES] l))"

definition lbr_entries :: "lbr_t \<Rightarrow> (u64 \<times> u64) list" where
  "lbr_entries l = map (\<lambda>i. (from_regs l ! slot (tos l) i, to_regs l ! slot (tos l) i)) [0..<LBR_ENTRIES]"

lemma slot_eq: "slot t i = (unat t + i + 1) mod LBR_ENTRIES"
proof -
  have "slot t i = ((unat t + i + 1) mod 2 ^ 64) mod 16"
    by (simp add: slot_def LBR_ENTRIES_def unat_word_ariths unat_of_nat mod_simps)
  also have "\<dots> = (unat t + i + 1) mod 16" by (rule mod_mod_cancel) simp
  finally show ?thesis by (simp add: LBR_ENTRIES_def)
qed

lemma slot_less: "slot t i < LBR_ENTRIES"
  by (simp add: slot_def LBR_ENTRIES_def)

lemma slot_from_first:
  assumes "i < LBR_ENTRIES"
  shows "slot t i = (if slot t 0 + i < LBR_ENTRIES then slot t 0 + i else slot t 0 + i - LBR_ENTRIES)"
proof -
  have "slot t i = (slot t 0 + i) mod LBR_ENTRIES" by (simp add: slot_eq mod_simps add_ac)
  then show ?thesis using assms slot_less [of t 0] by (simp add: mod_if)
qed

lemma slot_inj: "i < LBR_ENTRIES \<Longrightarrow> j < LBR_ENTRIES \<Longrightarrow> slot t i = slot t j \<longleftrightarrow> i = j"
  using slot_less [of t 0] slot_from_first [of i t] slot_from_first [of j t] by (auto split: if_splits)

lemma length_lbr_entries [simp]: "length (lbr_entries l) = LBR_ENTRIES"
  by (simp add: lbr_entries_def)

lemma lbr_entries_nth: "i < LBR_ENTRIES \<Longrightarrow> lbr_entries l ! i = (from_regs l ! slot (tos l) i, to_regs l ! slot (tos l) i)"
  by (simp add: lbr_entries_def)

lemma length_shift_in: "start \<le> index \<Longrightarrow> index < length xs \<Longrightarrow> length (shift_in start index xs) = length xs"
  by (simp add: shift_in_def)

lemma shift_in_nth:
  assumes "start \<le> index" "index < length xs" "p < length xs"
  shows "shift_in start index xs ! p = (if p = start then 0 else if start < p \<and> p \<le> index then xs ! (p - 1) else xs ! p)"
  using assms by (auto simp: shift_in_def nth_append nth_Cons' min_def)

lemma entries_shift:
  assumes wf: "wf_lbr l" and i: "slot (tos l) 0 + i < LBR_ENTRIES"
  shows "lbr_entries (l\<lparr>from_regs := shift_in (slot (tos l) 0) (slot (tos l) i) (from_regs l),
      to_regs := shift_in (slot (tos l) 0) (slot (tos l) i) (to_regs l)\<rparr>) =
    (0, 0) # take i (lbr_entries l) @ drop (Suc i) (lbr_entries l)" (is "lbr_entries ?l = ?r")
proof (rule nth_equalityI)
  let ?s = "slot (tos l) 0"
  have i16: "i < LBR_ENTRIES" using i by simp
  have si: "slot (tos l) i = ?s + i" using slot_from_first [OF i16, of "tos l"] i by simp
  fix j assume "j < length (lbr_entries ?l)"
  then have j: "j < LBR_ENTRIES" by simp
  have sh: "shift_in ?s (slot (tos l) i) xs ! slot (tos l) j =
      (if j = 0 then 0 else if j \<le> i then xs ! slot (tos l) (j - 1) else xs ! slot (tos l) j)"
    if "length xs = LBR_ENTRIES" for xs
    using that i j si slot_from_first [OF j, of "tos l"] slot_from_first [of "j - 1" "tos l"]
    by (subst shift_in_nth) (auto simp: slot_less)
  have "?r ! j = (if j = 0 then (0, 0) else if j \<le> i then lbr_entries l ! (j - 1) else lbr_entries l ! j)"
    using i16 j by (auto simp: nth_Cons' nth_append min_def)
  then show "lbr_entries ?l ! j = ?r ! j"
    using j wf by (auto simp: lbr_entries_nth sh wf_lbr_def)
qed (use i in simp)

definition cleaned :: "('a \<Rightarrow> bool) \<Rightarrow> 'a \<Rightarrow> nat \<Rightarrow> 'a list \<Rightarrow> 'a list" where
  "cleaned P z m xs = replicate (m - length (filter P (take m xs))) z @ filter P (take m xs) @ drop m xs"

lemma cleaned_keep: "m < length xs \<Longrightarrow> P (xs ! m) \<Longrightarrow> cleaned P z (Suc m) xs = cleaned P z m xs"
  by (simp add: cleaned_def take_Suc_conv_app_nth Cons_nth_drop_Suc [symmetric])

lemma filter_take_le: "length (filter P (take m xs)) \<le> m"
  by (rule order_trans [OF length_filter_le]) simp

lemma cleaned_drop:
  assumes m: "m < length xs" and P: "\<not> P (xs ! m)"
  shows "z # take m (cleaned P z m xs) @ drop (Suc m) (cleaned P z m xs) = cleaned P z (Suc m) xs"
proof -
  let ?ys = "replicate (m - length (filter P (take m xs))) z @ filter P (take m xs)"
  have l: "length ?ys = m" using filter_take_le [of P m xs] by simp
  have c: "cleaned P z m xs = ?ys @ drop m xs" by (simp add: cleaned_def)
  have "take m (cleaned P z m xs) = ?ys" "drop (Suc m) (cleaned P z m xs) = drop (Suc m) xs"
    unfolding c using l m by simp_all
  moreover have "cleaned P z (Suc m) xs = z # ?ys @ drop (Suc m) xs"
    using m P filter_take_le [of P m xs] by (simp add: cleaned_def take_Suc_conv_app_nth Suc_diff_le)
  ultimately show ?thesis by simp
qed

lemma length_cleaned: "m \<le> length xs \<Longrightarrow> length (cleaned P z m xs) = length xs"
  using filter_take_le [of P m xs] by (simp add: cleaned_def)

lemma cleaned_nth: "m < length xs \<Longrightarrow> cleaned P z m xs ! m = xs ! m"
  using filter_take_le [of P m xs] unfolding cleaned_def append_assoc [symmetric] by (subst nth_append) simp

lemma cleaned_again:
  assumes "m \<le> length xs"
  shows "cleaned P z (length xs) (cleaned P z m xs) = cleaned P z (length xs) xs"
proof -
  have f: "filter P xs = filter P (take m xs) @ filter P (drop m xs)" by (metis append_take_drop_id filter_append)
  have k: "length (filter P (take m xs)) \<le> m" by (rule filter_take_le)
  have d: "length (filter P (drop m xs)) \<le> length xs - m" by (metis length_drop length_filter_le)
  show ?thesis
    using k d assms by (cases "P z") (simp_all add: cleaned_def f replicate_add [symmetric] flip: append_assoc)
qed

abbreviation survives :: "u64 \<Rightarrow> u64 \<times> u64 \<Rightarrow> bool" where
  "survives target e \<equiv> snd e \<noteq> target"

lemma moveblocks_loop_cleans:
  assumes "m \<le> LBR_ENTRIES" "wf_lbr l" "length E = LBR_ENTRIES" "lbr_entries l = cleaned (survives target) (0, 0) m E"
    "moveblocks_loop (slot (tos l) 0) target [m..<LBR_ENTRIES] l = (ok, l')"
  shows "wf_lbr l' \<and> tos l' = tos l \<and> (slot (tos l) 0 = 0 \<longrightarrow> ok) \<and>
    (\<exists>m' \<le> LBR_ENTRIES. (ok \<longrightarrow> m' = LBR_ENTRIES) \<and> lbr_entries l' = cleaned (survives target) (0, 0) m' E)"
  using assms
proof (induction m arbitrary: l rule: inc_induct)
  case base
  then show ?case by (intro conjI exI [of _ LBR_ENTRIES]) auto
next
  case (step m)
  let ?s = "slot (tos l) 0" and ?i = "slot (tos l) m"
  have up: "[m..<LBR_ENTRIES] = m # [Suc m..<LBR_ENTRIES]" using step.hyps by (simp add: upt_conv_Cons)
  have Em: "lbr_entries l ! m = E ! m" using step cleaned_nth [of m E] by simp
  have to_m: "to_regs l ! ?i = snd (E ! m)" using Em step.hyps by (simp add: lbr_entries_nth flip: Em)
  show ?case
  proof (cases "snd (E ! m) = target")
    case False
    then have "lbr_entries l = cleaned (survives target) (0, 0) (Suc m) E"
      using step cleaned_keep [of m E "survives target"] by simp
    then show ?thesis using step.IH [OF step.prems(1)] step.prems False by (simp add: up to_m Let_def)
  next
    case hit: True
    show ?thesis
    proof (cases "?s + m < LBR_ENTRIES")
      case True
      have si: "?i = ?s + m" using slot_from_first [of m "tos l"] True by simp
      let ?l = "l\<lparr>from_regs := shift_in ?s ?i (from_regs l), to_regs := shift_in ?s ?i (to_regs l)\<rparr>"
      have "wf_lbr ?l" using step.prems(1) si True by (simp add: wf_lbr_def length_shift_in)
      moreover have "lbr_entries ?l = cleaned (survives target) (0, 0) (Suc m) E"
        using entries_shift [OF step.prems(1) True] cleaned_drop [of m E "survives target" "(0, 0)"] step hit by simp
      ultimately show ?thesis using step.IH [of ?l] step.prems si hit by (simp add: up to_m [unfolded si] Let_def)
    next
      case False
      then have "?s > ?i" using slot_from_first [of m "tos l"] step.hyps slot_less [of "tos l" 0] by auto
      then have "ok = False" "l' = l" using step.prems(4) hit by (auto simp: up to_m Let_def)
      moreover have "?s \<noteq> 0" using False step.hyps by auto
      ultimately show ?thesis using step.prems step.hyps by (intro conjI exI [of _ m]) auto
    qed
  qed
qed

lemma moveblocks_cleans:
  assumes "wf_lbr l" "moveblocks target l = (ok, l')"
  shows "wf_lbr l' \<and> tos l' = tos l \<and> (slot (tos l) 0 = 0 \<longrightarrow> ok) \<and>
    (\<exists>m' \<le> LBR_ENTRIES. (ok \<longrightarrow> m' = LBR_ENTRIES) \<and> lbr_entries l' = cleaned (survives target) (0, 0) m' (lbr_entries l))"
  using assms moveblocks_loop_cleans [of 0 l "lbr_entries l" target ok l'] by (simp add: moveblocks_def cleaned_def)

text \<open>Copying the straightened registers back.\<close>

definition write_back :: "lbr_t \<Rightarrow> nat \<Rightarrow> lbr_t \<Rightarrow> lbr_t" where
  "write_back copy i l = l\<lparr>from_regs := (from_regs l)[slot (tos l) i := from_regs copy ! i],
     to_regs := (to_regs l)[slot (tos l) i := to_regs copy ! i]\<rparr>"

lemma fold_write_back:
  assumes "wf_lbr l" "m \<le> LBR_ENTRIES"
  shows "wf_lbr (fold (write_back copy) [0..<m] l) \<and> tos (fold (write_back copy) [0..<m] l) = tos l \<and>
    (\<forall>i < LBR_ENTRIES. lbr_entries (fold (write_back copy) [0..<m] l) ! i =
       (if i < m then (from_regs copy ! i, to_regs copy ! i) else lbr_entries l ! i))"
  using assms
proof (induction m)
  case (Suc m)
  let ?l = "fold (write_back copy) [0..<m] l"
  have IH: "wf_lbr ?l" "tos ?l = tos l"
    "\<forall>i < LBR_ENTRIES. lbr_entries ?l ! i = (if i < m then (from_regs copy ! i, to_regs copy ! i) else lbr_entries l ! i)"
    using Suc by simp_all
  have "lbr_entries (write_back copy m ?l) ! i = (if i = m then (from_regs copy ! i, to_regs copy ! i) else lbr_entries ?l ! i)"
    if "i < LBR_ENTRIES" for i
    using that Suc.prems IH(1,2) slot_inj [OF that, of m "tos l"] slot_less
    by (auto simp: lbr_entries_nth write_back_def nth_list_update wf_lbr_def)
  moreover have "wf_lbr (write_back copy m ?l)" "tos (write_back copy m ?l) = tos l"
    using IH(1,2) by (simp_all add: write_back_def wf_lbr_def)
  ultimately show ?case using IH(3) by (auto simp: less_Suc_eq)
qed simp

lemma remove_keeps_others:
  assumes "wf_lbr l"
  shows "fst (remove_lib_enter_edges target l) \<and>
    lbr_entries (snd (remove_lib_enter_edges target l)) =
      (let kept = filter (\<lambda>e. snd e \<noteq> target) (lbr_entries l) in replicate (LBR_ENTRIES - length kept) (0, 0) @ kept) \<and>
    tos (snd (remove_lib_enter_edges target l)) = tos l"
proof -
  have full: "cleaned P z LBR_ENTRIES (lbr_entries k) =
      replicate (LBR_ENTRIES - length (filter P (lbr_entries k))) z @ filter P (lbr_entries k)" for P z k
    by (simp add: cleaned_def)
  obtain ok l1 where 1: "moveblocks target l = (ok, l1)" by fastforce
  obtain m where m: "wf_lbr l1" "tos l1 = tos l" "m \<le> LBR_ENTRIES" "ok \<longrightarrow> m = LBR_ENTRIES"
      "lbr_entries l1 = cleaned (survives target) (0, 0) m (lbr_entries l)"
    using moveblocks_cleans [OF assms 1] by blast
  show ?thesis
  proof (cases ok)
    case True
    then show ?thesis using m by (simp add: remove_lib_enter_edges_def 1 full Let_def)
  next
    case False
    let ?copy = "l1\<lparr>tos := of_nat LBR_ENTRIES - 1, from_regs := map (\<lambda>i. from_regs l1 ! slot (tos l1) i) [0..<LBR_ENTRIES],
        to_regs := map (\<lambda>i. to_regs l1 ! slot (tos l1) i) [0..<LBR_ENTRIES]\<rparr>"
    obtain ok2 c where 2: "moveblocks target ?copy = (ok2, c)" by fastforce
    have s: "slot (of_nat LBR_ENTRIES - 1) i = i" if "i < LBR_ENTRIES" for i
      using that by (simp add: slot_eq LBR_ENTRIES_def)
    have e: "lbr_entries ?copy = lbr_entries l1" by (simp add: lbr_entries_def s)
    have w: "wf_lbr ?copy" by (simp add: wf_lbr_def)
    have c: "wf_lbr c" "tos c = of_nat LBR_ENTRIES - 1" "ok2" "lbr_entries c = cleaned (survives target) (0, 0) LBR_ENTRIES (lbr_entries l1)"
      using moveblocks_cleans [OF w 2] s [of 0] e by (auto simp: LBR_ENTRIES_def)
    have ce: "lbr_entries c ! i = (from_regs c ! i, to_regs c ! i)" if "i < LBR_ENTRIES" for i
      using that c(2) by (simp add: lbr_entries_nth s)
    let ?l2 = "fold (write_back c) [0..<LBR_ENTRIES] l1"
    have "lbr_entries ?l2 = lbr_entries c"
      using fold_write_back [OF m(1) order_refl, of c] by (intro nth_equalityI) (simp_all add: ce)
    moreover have "remove_lib_enter_edges target l = (True, ?l2)"
      using False c(3) by (simp add: remove_lib_enter_edges_def 1 2 Let_def write_back_def [abs_def])
    moreover have "lbr_entries c = cleaned (survives target) (0, 0) LBR_ENTRIES (lbr_entries l)"
      using c(4) m(3,5) cleaned_again [of m "lbr_entries l"] by simp
    moreover have "tos ?l2 = tos l" using fold_write_back [OF m(1) order_refl, of c] m(2) by simp
    ultimately show ?thesis by (simp add: full Let_def)
  qed
qed

text \<open>
  C24: \<open>remove_lib_enter_edges\<close> succeeds on every LBR, whether or not the entries wrap
  around the end of the registers: the branches into the wrapper are gone, the
  others keep their order, and the room is filled with empty entries at the old end.
\<close>
theorem remove_lib_enter_edges_filters:
  assumes "wf_lbr l"
  shows "fst (remove_lib_enter_edges target l) \<and>
    lbr_entries (snd (remove_lib_enter_edges target l)) =
      (let kept = filter (\<lambda>e. snd e \<noteq> target) (lbr_entries l) in replicate (LBR_ENTRIES - length kept) (0, 0) @ kept) \<and>
    tos (snd (remove_lib_enter_edges target l)) = tos l"
  using assms by (rule remove_keeps_others)

definition demo_wrapped :: lbr_t where
  "demo_wrapped = zero_lbr\<lparr>tos := 3, to_regs := (replicate LBR_ENTRIES 0)[1 := 7, 5 := 8, 6 := 7]\<rparr>"

theorem remove_lib_enter_edges_filters_witness:
  "wf_lbr demo_wrapped \<and> fst (remove_lib_enter_edges 7 demo_wrapped) \<and>
   lbr_entries (snd (remove_lib_enter_edges 7 demo_wrapped)) =
     (let kept = filter (\<lambda>e. snd e \<noteq> 7) (lbr_entries demo_wrapped) in replicate (LBR_ENTRIES - length kept) (0, 0) @ kept)"
proof -
  have "wf_lbr demo_wrapped" by (simp add: demo_wrapped_def wf_lbr_def zero_lbr_def)
  then show ?thesis using remove_lib_enter_edges_filters [of demo_wrapped 7] by simp
qed

section \<open>Binary search\<close>

definition cmpfunc :: "u64 \<Rightarrow> u64 \<Rightarrow> int" where
  "cmpfunc left right = (if left < right then - 1 else if left > right then 1 else 0)"

text \<open>The C library's \<open>bsearch\<close> between two bounds.\<close>

function bsearch_between :: "u64 \<Rightarrow> u64 list \<Rightarrow> nat \<Rightarrow> nat \<Rightarrow> bool" where
  "bsearch_between key xs l u =
    (if l < u then
       let idx = (l + u) div 2; c = cmpfunc key (xs ! idx) in
       if c < 0 then bsearch_between key xs l idx
       else if c > 0 then bsearch_between key xs (idx + 1) u
       else True
     else False)"
  by pat_completeness auto
termination
  by (relation "measure (\<lambda>(_, _, l, u). u - l)") auto

declare bsearch_between.simps [simp del]

definition bsearch :: "u64 \<Rightarrow> u64 list \<Rightarrow> bool" where
  "bsearch key xs = bsearch_between key xs 0 (length xs)"

lemma bsearch_between_iff:
  assumes "sorted xs" "u \<le> length xs"
  shows "bsearch_between key xs l u \<longleftrightarrow> (\<exists>i. l \<le> i \<and> i < u \<and> xs ! i = key)"
  using assms
proof (induction key xs l u rule: bsearch_between.induct)
  case (1 key xs l u)
  let ?m = "(l + u) div 2"
  show ?case
  proof (cases "l < u")
    case True
    then have m: "l \<le> ?m" "?m < u" by auto
    have le: "xs ! i \<le> xs ! j" if "i \<le> j" "j < length xs" for i j using that "1.prems"(1) sorted_nth_mono by blast
    consider "key < xs ! ?m" | "key > xs ! ?m" | "key = xs ! ?m" by fastforce
    then show ?thesis
    proof cases
      case 1
      have "i < ?m" if "i < u" "xs ! i = key" for i
        using that 1 le [of ?m i] "1.prems"(2) by (meson leD le_less_linear less_le_trans order_le_less_trans)
      then show ?thesis using 1 True m "1.IH"(1) [OF True refl refl] "1.prems"
        by (subst bsearch_between.simps) (auto simp: cmpfunc_def Let_def)
    next
      case 2
      have gt: "?m < i" if "xs ! i = key" "l \<le> i" for i
        using that 2 le [of i ?m] "1.prems"(2) m by (meson leD le_less_linear less_le_trans order_less_le_trans)
      have "(\<exists>i. l \<le> i \<and> i < u \<and> xs ! i = key) \<longleftrightarrow> (\<exists>i. ?m + 1 \<le> i \<and> i < u \<and> xs ! i = key)" (is "?a = ?b")
      proof (intro iffI; elim exE conjE)
        show ?b if "l \<le> i" "i < u" "xs ! i = key" for i using gt [of i] that by (intro exI [of _ i]) simp
        show ?a if "?m + 1 \<le> i" "i < u" "xs ! i = key" for i using m(1) that by (intro exI [of _ i]) linarith
      qed
      moreover have "bsearch_between key xs l u = bsearch_between key xs (?m + 1) u"
        using 2 True by (subst bsearch_between.simps) (auto simp: cmpfunc_def Let_def)
      ultimately show ?thesis using 2 "1.IH"(2) [OF True refl refl] "1.prems" by (simp add: cmpfunc_def)
    next
      case 3
      then show ?thesis using True m by (subst bsearch_between.simps) (auto simp: cmpfunc_def Let_def)
    qed
  qed (auto simp: bsearch_between.simps)
qed

lemma bsearch_iff: "sorted xs \<Longrightarrow> bsearch key xs \<longleftrightarrow> key \<in> set xs"
  by (auto simp: bsearch_def bsearch_between_iff in_set_conv_nth)

section \<open>Normalising addresses\<close>

definition JIT_ADDR_UNKNOWN :: u64 where "JIT_ADDR_UNKNOWN = 0xffffffffffffffff"

text \<open>\<open>last\<close> is the static variable \<open>last_lib_call\<close>; the second result is its new value.\<close>

definition jit_normalize_addr :: "cfg \<Rightarrow> offsets_t \<Rightarrow> u64 \<Rightarrow> u64 \<Rightarrow> u64 \<times> u64" where
  "jit_normalize_addr G offs addr last_call =
    (if addr_in_cfg G addr then (addr, last_call)
     else if addr = o_indirect_call_source offs then (ADDRESS_TAKEN, last_call)
     else if addr = o_load_from offs then (0, last_call)
     else if addr = o_armor_lib_return offs then (last_call, last_call)
     else if addr = o_pthread_create offs \<or> addr = o_pthread_create_return offs then
       (case find_lib_dummy_by_name G ''pthread_create'' of
          None \<Rightarrow> (addr, last_call)
        | Some f \<Rightarrow> (base_addr (fns G ! f), last_call))
     else if list_ex (\<lambda>i. o_start offs ! i < addr \<and> addr < o_end offs ! i) [0..<unat (o_libs offs)] then (addr, addr)
     else (JIT_ADDR_UNKNOWN, last_call))"

section \<open>Adding an edge from the PLT\<close>

text \<open>
  A loop \<open>for (i = 0; i < count; i++)\<close> over a set of edges the body may extend: the
  list is read again at every turn.  The fuel bounds the number of turns; \<open>None\<close>
  is a null dereference or that the fuel is used up.
\<close>

fun for_edges :: "nat \<Rightarrow> (cfg \<Rightarrow> nat list) \<Rightarrow> (nat \<Rightarrow> cfg \<Rightarrow> cfg option) \<Rightarrow> nat \<Rightarrow> cfg \<Rightarrow> cfg option" where
  "for_edges 0 es body i G = None"
| "for_edges (Suc n) es body i G =
    (if i < length (es G) then
       case body (es G ! i) G of None \<Rightarrow> None | Some G \<Rightarrow> for_edges n es body (Suc i) G
     else Some G)"

definition add_typed_edge :: "u64 \<Rightarrow> u64 \<Rightarrow> arms_edge_type_t \<Rightarrow> bool \<Rightarrow> cfg \<Rightarrow> nat \<times> cfg" where
  "add_typed_edge a b ty intra G =
    (let (e, G) = create_and_add_edge a b G
     in (e, upd_edge e (\<lambda>x. (set_type ty x)\<lparr>e_intra := intra\<rparr>) G))"

definition add_ret_edge :: "u64 \<Rightarrow> nat option \<Rightarrow> cfg \<Rightarrow> cfg option" where
  "add_ret_edge shlib ret G =
    (case ret of None \<Rightarrow> Some G | Some c \<Rightarrow> Some (snd (add_typed_edge shlib (start_address (bbs G ! c)) arms_ret False G)))"

definition ret_edges_for_caller :: "nat \<Rightarrow> u64 \<Rightarrow> nat \<Rightarrow> cfg \<Rightarrow> cfg option" where
  "ret_edges_for_caller n shlib inc G =
    (let cc = e_source (edges G ! inc) in
     case for_edges n (\<lambda>G. outgoing_edges (bbs G ! cc))
       (\<lambda>outgoing G.
          if \<not> edge_is_call (edges G ! outgoing) then
            for_edges n (\<lambda>G. incoming_edges (bbs G ! cc))
              (\<lambda>in2 G. add_ret_edge shlib (get_fallthrough_bb G (e_source (edges G ! in2))) G) 0 G
          else Some G) 0 G of
       None \<Rightarrow> None
     | Some G \<Rightarrow> add_ret_edge shlib (get_fallthrough_bb G cc) G)"

definition jit_add_plt_got_edge :: "nat \<Rightarrow> u64 \<Rightarrow> u64 \<Rightarrow> cfg \<Rightarrow> (nat option \<times> cfg) option" where
  "jit_add_plt_got_edge n a b G =
    (case find_function G a of
       None \<Rightarrow> Some (None, G)
     | Some plt \<Rightarrow>
         if \<not> is_plt (fns G ! plt) then Some (None, G)
         else
           let (shlib, G) = create_dummy_function (funname (fns G ! plt)) b G;
               G = set_is_lib_dummy shlib G;
               (e, G) = add_typed_edge a b arms_inter_indirect_jmp False G
           in case find_bb G (base_addr (fns G ! plt)) of
                None \<Rightarrow> None
              | Some bb \<Rightarrow>
                  map_option (Pair (Some e))
                    (for_edges n (\<lambda>G. incoming_edges (bbs G ! bb))
                       (ret_edges_for_caller n (base_addr (fns G ! shlib))) 0 G))"

section \<open>The validator\<close>

text \<open>
  The inputs besides the graph and the LBR: the tables of the LBR reader, and what
  Dyninst answers when the entry \<open>i\<close> makes it parse again at an address (the
  functions after \<open>parse_all\<close>, and those after the parse at the address).
\<close>

record jit_inputs =
  ji_offsets :: offsets_t
  ji_plt_got :: "(u64 \<times> u64) list"
  ji_exitpoints :: "u64 list"
  ji_script :: "u64 \<Rightarrow> string option"
  ji_mods :: "(u64 \<times> u64) list"
  ji_fbt :: "u64 list"
  ji_parsed :: "nat \<Rightarrow> u64 \<Rightarrow> parsed_func list \<times> parsed_func list"

definition patch_simples :: "jit_inputs \<Rightarrow> lbr_t \<Rightarrow> lbr_t" where
  "patch_simples inp l =
    l\<lparr>from_regs := map (\<lambda>a. if bsearch a (ji_exitpoints inp) then o_armor_lib_return (ji_offsets inp) else a) (from_regs l)\<rparr>"

definition find_edge_reparsing :: "jit_inputs \<Rightarrow> nat \<Rightarrow> u64 \<Rightarrow> u64 \<Rightarrow> cfg \<Rightarrow> (nat option \<times> cfg) option" where
  "find_edge_reparsing inp i a b G =
    (if find_edge G a b = None \<and> find_bb G b = None \<and> b < 0x4000000 then
       map_option (\<lambda>G. (find_edge G a b, G))
         (retouch (ji_script inp) (ji_mods inp) (ji_fbt inp) (fst (ji_parsed inp i b)) (snd (ji_parsed inp i b)) G)
     else Some (find_edge G a b, G))"

definition single_dummy_jump :: "cfg \<Rightarrow> u64 \<Rightarrow> u64 \<Rightarrow> bool" where
  "single_dummy_jump G a b \<longleftrightarrow>
    (case (find_bb_by_last_insn_address G a, find_bb G b) of
       (Some s, Some t) \<Rightarrow> length (outgoing_edges (bbs G ! s)) = 1 \<and>
         is_dummy (bbs G ! e_target (edges G ! (outgoing_edges (bbs G ! s) ! 0))) \<and>
         get_function (bbs G ! s) = get_function (bbs G ! t)
     | _ \<Rightarrow> False)"

definition indirect_jumps_only :: "cfg \<Rightarrow> u64 \<Rightarrow> bool" where
  "indirect_jumps_only G a \<longleftrightarrow>
    (case find_bb_by_last_insn_address G a of None \<Rightarrow> False | Some s \<Rightarrow> intra_procedural_indirect_jump_targets_only G s)"

definition jit_find_edge :: "jit_inputs \<Rightarrow> nat \<Rightarrow> u64 \<Rightarrow> u64 \<Rightarrow> cfg \<Rightarrow> (nat option \<times> cfg) option" where
  "jit_find_edge inp i a b G =
    map_option (\<lambda>(e, G).
       if e \<noteq> None then (e, G)
       else if single_dummy_jump G a b \<or> indirect_jumps_only G a then
         (let (e, G) = add_typed_edge a b arms_indirect_jmp True G in (Some e, G))
       else (None, G))
      (find_edge_reparsing inp i a b G)"

datatype plt_hit = In_plt | Unsupported | Not_listed

definition BIT63 :: u64 where "BIT63 = push_bit 63 1"

fun scan_plt_got :: "u64 \<Rightarrow> u64 \<Rightarrow> (u64 \<times> u64) list \<Rightarrow> plt_hit" where
  "scan_plt_got a b [] = Not_listed"
| "scan_plt_got a b ((p, g) # pgs) =
    (if p = a \<and> g = b then In_plt
     else if g AND BIT63 \<noteq> 0 \<and> g = b OR BIT63 then Unsupported
     else scan_plt_got a b pgs)"

fun preceding_block :: "cfg \<Rightarrow> u64 \<Rightarrow> nat list \<Rightarrow> nat option" where
  "preceding_block G b [] = None"
| "preceding_block G b (x # xs) =
    (case find_bb_by_last_insn_address G (b - of_nat x) of Some c \<Rightarrow> Some c | None \<Rightarrow> preceding_block G b xs)"

definition after_uninstrumentable :: "jit_inputs \<Rightarrow> u64 \<Rightarrow> cfg \<Rightarrow> bool" where
  "after_uninstrumentable inp b G \<longleftrightarrow>
    (case preceding_block G b [0..<16] of
       None \<Rightarrow> False
     | Some c \<Rightarrow> list_ex (\<lambda>e. list_ex (\<lambda>(p, g). p AND BIT63 \<noteq> 0 \<and> p = start_address (bbs G ! e_target (edges G ! e)) OR BIT63)
         (ji_plt_got inp)) (outgoing_edges (bbs G ! c)))"

text \<open>What a turn of the loop does: go on with the state, or leave with a verdict.\<close>

record jit_loop_state =
  jl_cfg :: cfg
  jl_last :: u64
  jl_edges :: "nat list"

datatype turn = Go jit_loop_state | Leave nat jit_loop_state | Crash

definition entry_skipped :: "offsets_t \<Rightarrow> (u64 \<times> u64) list \<Rightarrow> nat \<Rightarrow> bool" where
  "entry_skipped offs ens i \<longleftrightarrow>
    (fst (ens ! i) = o_armor_lib_return offs \<and> (i = 0 \<or> ens ! (i - 1) = (0, 0))) \<or> ens ! i = (0, 0)"

definition jit_missing_edge :: "nat \<Rightarrow> jit_inputs \<Rightarrow> (u64 \<times> u64) \<Rightarrow> u64 \<Rightarrow> u64 \<Rightarrow> jit_loop_state \<Rightarrow> turn" where
  "jit_missing_edge n inp orig a b st =
    (let G = jl_cfg st; hit = scan_plt_got (fst orig) (snd orig) (ji_plt_got inp) in
     if hit = Unsupported \<or> (hit = Not_listed \<and> after_uninstrumentable inp b G) then Leave 2 st
     else if hit = Not_listed then Leave 0 st
     else case jit_add_plt_got_edge n a b G of
         None \<Rightarrow> Crash
       | Some (None, G) \<Rightarrow> Leave 0 (st\<lparr>jl_cfg := G\<rparr>)
       | Some (Some e, G) \<Rightarrow> Go (st\<lparr>jl_cfg := G, jl_edges := jl_edges st @ [e]\<rparr>))"

definition jit_entry :: "nat \<Rightarrow> jit_inputs \<Rightarrow> (u64 \<times> u64) list \<Rightarrow> nat \<Rightarrow> jit_loop_state \<Rightarrow> turn" where
  "jit_entry n inp ens i st =
    (if entry_skipped (ji_offsets inp) ens i then Go st
     else
       let (a, l) = jit_normalize_addr (jl_cfg st) (ji_offsets inp) (fst (ens ! i)) (jl_last st);
           (b, l) = jit_normalize_addr (jl_cfg st) (ji_offsets inp) (snd (ens ! i)) l;
           st = st\<lparr>jl_last := l\<rparr>
       in if a = JIT_ADDR_UNKNOWN \<or> b = JIT_ADDR_UNKNOWN then Leave 0 st
       else case jit_find_edge inp i a b (jl_cfg st) of
           None \<Rightarrow> Crash
         | Some (Some e, G) \<Rightarrow> Go (st\<lparr>jl_cfg := G, jl_edges := jl_edges st @ [e]\<rparr>)
         | Some (None, G) \<Rightarrow> jit_missing_edge n inp (ens ! i) a b (st\<lparr>jl_cfg := G\<rparr>))"

fun jit_entries :: "nat \<Rightarrow> jit_inputs \<Rightarrow> (u64 \<times> u64) list \<Rightarrow> nat list \<Rightarrow> jit_loop_state \<Rightarrow> turn" where
  "jit_entries n inp ens [] st = Go st"
| "jit_entries n inp ens (i # is) st =
    (case jit_entry n inp ens i st of Go st \<Rightarrow> jit_entries n inp ens is st | t \<Rightarrow> t)"

text \<open>
  The result is the verdict (1 valid, 0 not valid, 2 not supported) with the graph and
  \<open>last_lib_call\<close> left behind; the fuel \<open>n\<close> is for the loops of \<open>jit_add_plt_got_edge\<close>.
\<close>

definition jit_validate_lbr :: "nat \<Rightarrow> jit_inputs \<Rightarrow> u64 \<Rightarrow> cfg \<Rightarrow> lbr_t \<Rightarrow> (nat \<times> cfg \<times> u64) option" where
  "jit_validate_lbr n inp last_call G lbr =
    (let l = patch_simples inp (snd (remove_lib_enter_edges (o_armor_lib_enter (ji_offsets inp)) lbr)) in
     case jit_entries n inp (lbr_entries l) [0..<LBR_SIZE] \<lparr>jl_cfg = G, jl_last = last_call, jl_edges = []\<rparr> of
       Crash \<Rightarrow> None
     | Leave v st \<Rightarrow> Some (v, jl_cfg st, jl_last st)
     | Go st \<Rightarrow>
         (case jit_path_exists (Suc (LBR_SIZE * length (edges (jl_cfg st)))) (jl_cfg st) (jl_edges st)
                 (if jl_edges st = [] then 0 else hd (jl_edges st)) jit_start of
            Found \<Rightarrow> Some (1, jl_cfg st, jl_last st)
          | NotFound _ \<Rightarrow> Some (0, jl_cfg st, jl_last st)
          | _ \<Rightarrow> None))"

section \<open>The graph stays well formed\<close>

definition joins :: "cfg \<Rightarrow> nat \<Rightarrow> u64 \<Rightarrow> u64 \<Rightarrow> bool" where
  "joins G e a b \<longleftrightarrow> e < length (edges G) \<and> last_insn_address (bbs G ! e_source (edges G ! e)) = a \<and>
    start_address (bbs G ! e_target (edges G ! e)) = b"

lemma joins_extends:
  assumes "joins G e a b" "wf_cfg G" "extends G G'"
  shows "joins G' e a b"
proof -
  have e: "e < length (edges G)" using assms(1) by (simp add: joins_def)
  have "e_source (edges G ! e) < length (bbs G)" "e_target (edges G ! e) < length (bbs G)"
    using wf_edge [OF assms(2) e] by (simp_all add: edge_ok_def)
  then show ?thesis using assms(1,3) e by (simp add: joins_def extends_def)
qed

lemma find_edge_joins:
  assumes wf: "wf_cfg G" and e: "find_edge G a b = Some e"
  shows "joins G e a b"
proof -
  obtain s where s: "find_bb_by_last_insn_address G a = Some s" using e by (auto simp: find_edge_def split: option.splits)
  have "e \<in> set (outgoing_edges (bbs G ! s))" "start_address (bbs G ! e_target (edges G ! e)) = b"
    using e by (auto simp: find_edge_def s find_Some_iff)
  then show ?thesis using find_last_ok [OF wf s] wf_bb [OF wf, of s] by (auto simp: joins_def bb_ok_def)
qed

lemma find_or_new_facts:
  assumes "find_or_new found a G = (s, G')"
  shows "edges G' = edges G" "found = None \<Longrightarrow> start_address (bbs G' ! s) = a \<and> last_insn_address (bbs G' ! s) = a"
    "found \<noteq> None \<Longrightarrow> found = Some s \<and> G' = G"
  using assms by (auto simp: find_or_new_def new_bb_def store_bb_def mk_bb_def split: option.splits)

lemma create_and_add_edge_joins:
  assumes wf: "wf_cfg G" and new: "create_and_add_edge a b G = (e, G')"
  shows "keeps G G' \<and> e = length (edges G) \<and> joins G' e a b"
proof -
  obtain s G1 where 1: "find_or_new (find_bb_by_last_insn_address G a) a G = (s, G1)" by fastforce
  obtain t G2 where 2: "find_or_new (find_bb G1 b) b G1 = (t, G2)" by fastforce
  have r: "link_edge (mk_edge s t) G2 = (e, G')" using new by (simp add: create_and_add_edge_unfold 1 2)
  have k1: "keeps G G1" "s < length (bbs G1)" using keeps_find_or_new [OF wf _ 1] find_last_ok [OF wf] by auto
  have k2: "keeps G1 G2" "t < length (bbs G2)"
    using keeps_find_or_new [OF keeps_wf [OF k1(1)] _ 2] find_bb_ok [OF keeps_wf [OF k1(1)]] by auto
  have s1: "last_insn_address (bbs G1 ! s) = a"
    using find_or_new_facts(2,3) [OF 1] find_last_ok [OF wf] by (cases "find_bb_by_last_insn_address G a") auto
  have t2: "start_address (bbs G2 ! t) = b"
    using find_or_new_facts(2,3) [OF 2] find_bb_ok [OF keeps_wf [OF k1(1)]] by (cases "find_bb G1 b") auto
  have ed: "edges G2 = edges G" using find_or_new_facts(1) [OF 1] find_or_new_facts(1) [OF 2] by simp
  have s2: "s < length (bbs G2)" "last_insn_address (bbs G2 ! s) = a" using k1(2) s1 k2(1) by (auto simp: keeps_def extends_def)
  have ok: "edge_ok (length (bbs G2)) (mk_edge s t)" using s2 k2(2) by (simp add: edge_ok_def)
  have k3: "keeps G2 G'" using keeps_link_edge [OF keeps_wf [OF k2(1)] ok] by (simp add: r)
  have e: "e = length (edges G)" "edges G' = edges G @ [mk_edge s t]" using link_edge_simps(1,7) [of "mk_edge s t" G2] by (simp_all add: r ed)
  have "joins G' e a b" using k3 s2 t2 k2(2) by (simp add: joins_def e keeps_def extends_def)
  then show ?thesis using keeps_trans [OF keeps_trans [OF k1(1) k2(1)] k3] e by simp
qed

lemma add_typed_edge_joins:
  assumes wf: "wf_cfg G" and new: "add_typed_edge a b ty intra G = (e, G')"
  shows "keeps G G' \<and> joins G' e a b"
proof -
  obtain G1 where 1: "create_and_add_edge a b G = (e, G1)" and
    G': "G' = upd_edge e (\<lambda>x. (set_type ty x)\<lparr>e_intra := intra\<rparr>) G1"
    using new by (auto simp: add_typed_edge_def split: prod.splits)
  have k: "keeps G G1" "e = length (edges G)" "joins G1 e a b" using create_and_add_edge_joins [OF wf 1] by blast+
  have e: "e < length (edges G1)" using k(3) by (simp add: joins_def)
  have st: "e_source (edges G' ! f) = e_source (edges G1 ! f)" "e_target (edges G' ! f) = e_target (edges G1 ! f)" for f
    using e by (cases "f = e"; simp add: G' upd_edge_def set_type_def Let_def)+
  have same: "bbs G' = bbs G1" "fns G' = fns G1" "addr2fn G' = addr2fn G1" "start2bb G' = start2bb G1" "last2bb G' = last2bb G1"
    "length (edges G') = length (edges G1)" by (simp_all add: G' upd_edge_def)
  have "wf_cfg G'" using keeps_wf [OF k(1)] by (simp add: wf_cfg_def same st edge_ok_def bb_ok_def)
  moreover have "extends G G'"
    using k(1,2) by (simp add: keeps_def extends_def same) (simp add: G' upd_edge_def)
  ultimately show ?thesis using k(3) by (simp add: keeps_def joins_def same st)
qed

lemma keeps_add_ret_edge: "wf_cfg G \<Longrightarrow> add_ret_edge shlib ret G = Some G' \<Longrightarrow> keeps G G'"
  using add_typed_edge_joins [of G shlib _ arms_ret False]
  by (auto simp: add_ret_edge_def keeps_refl split: option.splits) (metis prod.collapse)

lemma for_edges_keeps:
  assumes "\<And>e G G'. wf_cfg G \<Longrightarrow> body e G = Some G' \<Longrightarrow> keeps G G'"
  shows "wf_cfg G \<Longrightarrow> for_edges n es body i G = Some G' \<Longrightarrow> keeps G G'"
proof (induction n arbitrary: i G)
  case (Suc n)
  show ?case
  proof (cases "i < length (es G)")
    case True
    then obtain G1 where "body (es G ! i) G = Some G1" "for_edges n es body (Suc i) G1 = Some G'"
      using Suc.prems(2) by (auto split: option.splits)
    then show ?thesis using assms [OF Suc.prems(1)] Suc.IH keeps_wf keeps_trans by blast
  qed (use Suc.prems keeps_refl in simp)
qed simp

lemma keeps_ret_edges_for_caller:
  assumes wf: "wf_cfg G" and r: "ret_edges_for_caller n shlib inc G = Some G'"
  shows "keeps G G'"
proof -
  let ?cc = "e_source (edges G ! inc)"
  let ?body = "\<lambda>outgoing G. if \<not> edge_is_call (edges G ! outgoing) then
      for_edges n (\<lambda>G. incoming_edges (bbs G ! ?cc))
        (\<lambda>in2 G. add_ret_edge shlib (get_fallthrough_bb G (e_source (edges G ! in2))) G) 0 G else Some G"
  have body: "keeps H H'" if "wf_cfg H" "?body e H = Some H'" for e H H'
    using that by (auto split: if_splits simp: keeps_refl intro: for_edges_keeps [OF keeps_add_ret_edge])
  obtain G1 where 1: "for_edges n (\<lambda>H. outgoing_edges (bbs H ! ?cc)) ?body 0 G = Some G1"
      "add_ret_edge shlib (get_fallthrough_bb G1 ?cc) G1 = Some G'"
    using r unfolding ret_edges_for_caller_def Let_def by (auto split: option.splits)
  have "keeps G G1" by (rule for_edges_keeps [OF body wf 1(1)])
  then show ?thesis using keeps_add_ret_edge [OF keeps_wf 1(2)] keeps_trans by blast
qed

lemma jit_add_plt_got_edge_joins:
  assumes wf: "wf_cfg G" and r: "jit_add_plt_got_edge n a b G = Some (r, G')"
  shows "keeps G G' \<and> (\<forall>e. r = Some e \<longrightarrow> joins G' e a b)"
proof (cases "r = None")
  case True
  then show ?thesis
    using r wf by (auto simp: jit_add_plt_got_edge_def keeps_refl Let_def split: option.splits if_splits prod.splits)
next
  case False
  then obtain plt where plt: "find_function G a = Some plt" "is_plt (fns G ! plt)"
    using r by (auto simp: jit_add_plt_got_edge_def split: option.splits if_splits)
  obtain sh G1 where 1: "create_dummy_function (funname (fns G ! plt)) b G = (sh, G1)" by fastforce
  let ?G2 = "set_is_lib_dummy sh G1"
  obtain e G3 where 3: "add_typed_edge a b arms_inter_indirect_jmp False ?G2 = (e, G3)" by fastforce
  obtain bb where bb: "find_bb G3 (base_addr (fns G3 ! plt)) = Some bb" and re: "r = Some e" and
      4: "for_edges n (\<lambda>G. incoming_edges (bbs G ! bb)) (ret_edges_for_caller n (base_addr (fns G3 ! sh))) 0 G3 = Some G'"
    using r plt by (auto simp: jit_add_plt_got_edge_def 1 3 Let_def split: option.splits)
  have k1: "keeps G G1" "sh < length (fns G1)" using keeps_create_dummy_function [OF wf 1] by simp_all
  have k2: "keeps G1 ?G2" by (rule keeps_fn_flags(3) [OF keeps_wf [OF k1(1)] k1(2)])
  have k3: "keeps ?G2 G3" "joins G3 e a b" using add_typed_edge_joins [OF keeps_wf [OF k2] 3] by simp_all
  have k4: "keeps G3 G'" by (rule for_edges_keeps [OF keeps_ret_edges_for_caller keeps_wf [OF k3(1)] 4])
  then have "joins G' e a b" using joins_extends [OF k3(2) keeps_wf [OF k3(1)]] by (simp add: keeps_def)
  then show ?thesis using re keeps_trans [OF keeps_trans [OF keeps_trans [OF k1(1) k2] k3(1)] k4] by simp
qed

section \<open>What an accepted LBR means\<close>

text \<open>What is assumed of Dyninst and of the script that resolves indirect calls.\<close>

definition inputs_ok :: "jit_inputs \<Rightarrow> bool" where
  "inputs_ok inp \<longleftrightarrow> (\<forall>a. ji_script inp a \<noteq> None) \<and>
    (\<forall>i b. parsed_ok (fst (ji_parsed inp i b)) \<and> parsed_ok (snd (ji_parsed inp i b)))"

lemma find_edge_reparsing_joins:
  assumes wf: "wf_cfg G" and ok: "inputs_ok inp" and r: "find_edge_reparsing inp i a b G = Some (r, G')"
  shows "keeps G G' \<and> (\<forall>e. r = Some e \<longrightarrow> joins G' e a b)"
proof -
  obtain G1 where t: "retouch (ji_script inp) (ji_mods inp) (ji_fbt inp) (fst (ji_parsed inp i b)) (snd (ji_parsed inp i b)) G = Some G1"
      "keeps G G1"
    using retouch_total [OF wf, of "fst (ji_parsed inp i b)" "snd (ji_parsed inp i b)" "ji_script inp" "ji_mods inp" "ji_fbt inp"] ok
    by (auto simp: inputs_ok_def keeps_def grows_def)
  have "keeps G G' \<and> r = find_edge G' a b"
    using r t keeps_refl [OF wf] by (auto simp: find_edge_reparsing_def split: if_splits)
  then show ?thesis using find_edge_joins keeps_wf by metis
qed

lemma jit_find_edge_joins:
  assumes wf: "wf_cfg G" and ok: "inputs_ok inp" and r: "jit_find_edge inp i a b G = Some (r, G')"
  shows "keeps G G' \<and> (\<forall>e. r = Some e \<longrightarrow> joins G' e a b)"
proof -
  obtain r1 G1 where 1: "find_edge_reparsing inp i a b G = Some (r1, G1)"
    using r by (auto simp: jit_find_edge_def)
  note k1 = find_edge_reparsing_joins [OF wf ok 1]
  obtain e2 G2 where 2: "add_typed_edge a b arms_indirect_jmp True G1 = (e2, G2)" by fastforce
  have k2: "keeps G1 G2 \<and> joins G2 e2 a b" using add_typed_edge_joins [OF _ 2] k1 keeps_wf by blast
  show ?thesis using r k1 k2 keeps_trans [of G G1 G2] by (auto simp: jit_find_edge_def 1 2 split: if_splits)
qed

text \<open>How an address of the LBR may be read: as itself, or as what the special addresses stand for.\<close>

definition reads_as :: "offsets_t \<Rightarrow> u64 \<Rightarrow> u64 \<Rightarrow> bool" where
  "reads_as offs raw a \<longleftrightarrow> a = raw \<or> (raw = o_indirect_call_source offs \<and> a = ADDRESS_TAKEN) \<or> (raw = o_load_from offs \<and> a = 0) \<or>
    raw = o_armor_lib_return offs \<or> raw = o_pthread_create offs \<or> raw = o_pthread_create_return offs"

lemma normalize_reads_as: "jit_normalize_addr G offs raw l = (a, l') \<Longrightarrow> a \<noteq> JIT_ADDR_UNKNOWN \<Longrightarrow> reads_as offs raw a"
  by (auto simp: jit_normalize_addr_def reads_as_def split: if_splits option.splits)

definition matches :: "cfg \<Rightarrow> offsets_t \<Rightarrow> nat \<Rightarrow> u64 \<times> u64 \<Rightarrow> bool" where
  "matches G offs e raw \<longleftrightarrow> (\<exists>a b. joins G e a b \<and> reads_as offs (fst raw) a \<and> reads_as offs (snd raw) b)"

lemma matches_extends: "matches G offs e raw \<Longrightarrow> wf_cfg G \<Longrightarrow> extends G G' \<Longrightarrow> matches G' offs e raw"
  using joins_extends unfolding matches_def by blast

lemma jit_missing_edge_go:
  assumes wf: "wf_cfg (jl_cfg st)" and r: "jit_missing_edge n inp orig a b st = Go st'"
  shows "keeps (jl_cfg st) (jl_cfg st') \<and> (\<exists>e. jl_edges st' = jl_edges st @ [e] \<and> joins (jl_cfg st') e a b)"
  using r jit_add_plt_got_edge_joins [OF wf, of n a b]
  by (auto simp: jit_missing_edge_def Let_def split: if_splits option.splits)

lemma jit_entry_go:
  assumes wf: "wf_cfg (jl_cfg st)" and ok: "inputs_ok inp" and r: "jit_entry n inp ens i st = Go st'"
  shows "keeps (jl_cfg st) (jl_cfg st') \<and>
    (if entry_skipped (ji_offsets inp) ens i then jl_edges st' = jl_edges st
     else \<exists>e. jl_edges st' = jl_edges st @ [e] \<and> matches (jl_cfg st') (ji_offsets inp) e (ens ! i))"
proof (cases "entry_skipped (ji_offsets inp) ens i")
  case True
  then show ?thesis using r keeps_refl [OF wf] by (simp add: jit_entry_def)
next
  case False
  obtain a l where a: "jit_normalize_addr (jl_cfg st) (ji_offsets inp) (fst (ens ! i)) (jl_last st) = (a, l)" by fastforce
  obtain b l' where b: "jit_normalize_addr (jl_cfg st) (ji_offsets inp) (snd (ens ! i)) l = (b, l')" by fastforce
  have known: "a \<noteq> JIT_ADDR_UNKNOWN" "b \<noteq> JIT_ADDR_UNKNOWN" using r False by (auto simp: jit_entry_def a b Let_def split: if_splits)
  then obtain r1 G1 where 1: "jit_find_edge inp i a b (jl_cfg st) = Some (r1, G1)"
    using r False by (auto simp: jit_entry_def a b Let_def split: if_splits option.splits)
  note k1 = jit_find_edge_joins [OF wf ok 1]
  have m: "matches G (ji_offsets inp) e (ens ! i)" if "joins G e a b" for G e
    using that normalize_reads_as [OF a known(1)] normalize_reads_as [OF b known(2)] unfolding matches_def by blast
  show ?thesis
  proof (cases r1)
    case (Some e)
    then show ?thesis using r False known k1 m by (auto simp: jit_entry_def a b 1 Let_def)
  next
    case None
    let ?st = "st\<lparr>jl_last := l', jl_cfg := G1\<rparr>"
    have "jit_missing_edge n inp (ens ! i) a b ?st = Go st'" using r False known None by (simp add: jit_entry_def a b 1 Let_def)
    from jit_missing_edge_go [OF _ this] show ?thesis using k1 keeps_wf keeps_trans m False by auto
  qed
qed

lemma jit_entries_go:
  assumes ok: "inputs_ok inp"
  shows "wf_cfg (jl_cfg st) \<Longrightarrow> jit_entries n inp ens is st = Go st' \<Longrightarrow>
    keeps (jl_cfg st) (jl_cfg st') \<and>
    (\<exists>es. jl_edges st' = jl_edges st @ es \<and>
       list_all2 (matches (jl_cfg st') (ji_offsets inp)) es (map ((!) ens) (filter (\<lambda>i. \<not> entry_skipped (ji_offsets inp) ens i) is)))"
proof (induction "is" arbitrary: st)
  case Nil
  then show ?case by (simp add: keeps_refl)
next
  case (Cons i "is")
  obtain s where s: "jit_entry n inp ens i st = Go s" "jit_entries n inp ens is s = Go st'"
    using Cons.prems(2) by (auto split: turn.splits)
  note k = jit_entry_go [OF Cons.prems(1) ok s(1)]
  have wfs: "wf_cfg (jl_cfg s)" using k keeps_wf by blast
  obtain es where k': "keeps (jl_cfg s) (jl_cfg st')" and es: "jl_edges st' = jl_edges s @ es"
      "list_all2 (matches (jl_cfg st') (ji_offsets inp)) es (map ((!) ens) (filter (\<lambda>i. \<not> entry_skipped (ji_offsets inp) ens i) is))"
    using Cons.IH [OF wfs s(2)] by blast
  have "matches (jl_cfg st') (ji_offsets inp) e (ens ! i)" if "matches (jl_cfg s) (ji_offsets inp) e (ens ! i)" for e
    using matches_extends [OF that wfs] k' by (simp add: keeps_def)
  then show ?case using k keeps_trans [OF _ k'] es by (auto split: if_splits)
qed

lemma jit_entry_leave: "jit_entry n inp ens i st = Leave v st' \<Longrightarrow> v = 0 \<or> v = 2"
  by (auto simp: jit_entry_def jit_missing_edge_def Let_def split: if_splits option.splits prod.splits)

lemma jit_entries_leave: "jit_entries n inp ens is st = Leave v st' \<Longrightarrow> v = 0 \<or> v = 2"
  by (induction "is" arbitrary: st) (auto split: turn.splits dest: jit_entry_leave)

lemma jit_validate_sound:
  assumes wf: "wf_cfg G" and ok: "inputs_ok inp" and r: "jit_validate_lbr n inp last_call G lbr = Some (1, G', last')"
  defines "ens \<equiv> lbr_entries (patch_simples inp (snd (remove_lib_enter_edges (o_armor_lib_enter (ji_offsets inp)) lbr)))"
  shows "wf_cfg G' \<and> extends G G' \<and>
    (\<exists>es. list_all2 (matches G' (ji_offsets inp)) es
           (map ((!) ens) (filter (\<lambda>i. \<not> entry_skipped (ji_offsets inp) ens i) [0..<LBR_SIZE])) \<and>
       (es \<noteq> [] \<longrightarrow> reaches G' (e_target (edges G' ! hd es)) (tl es)))"
proof -
  let ?st = "\<lparr>jl_cfg = G, jl_last = last_call, jl_edges = []\<rparr>"
  obtain st where go: "jit_entries n inp ens [0..<LBR_SIZE] ?st = Go st" and G': "jl_cfg st = G'" and
      found: "jit_path_exists (Suc (LBR_SIZE * length (edges (jl_cfg st)))) (jl_cfg st) (jl_edges st)
        (if jl_edges st = [] then 0 else hd (jl_edges st)) jit_start = Found"
    using r jit_entries_leave [of n inp ens "[0..<LBR_SIZE]" ?st 1] unfolding jit_validate_lbr_def Let_def ens_def [symmetric]
    by (auto split: turn.splits jit_result.splits)
  have "wf_cfg (jl_cfg ?st)" using wf by simp
  from jit_entries_go [OF ok this go] have k: "keeps G G'" and
    m: "list_all2 (matches G' (ji_offsets inp)) (jl_edges st) (map ((!) ens) (filter (\<lambda>i. \<not> entry_skipped (ji_offsets inp) ens i) [0..<LBR_SIZE]))"
    by (auto simp: G')
  have "reaches G' (e_target (edges G' ! hd (jl_edges st))) (tl (jl_edges st))" if "jl_edges st \<noteq> []"
    using jit_path_sound [OF found] that by (simp add: G')
  then show ?thesis using k m by (auto simp: keeps_def)
qed

text \<open>
  C4: What it means that an LBR is valid.  The graph the validator ends with is
  well formed and only grew.  Every entry that was not skipped is an edge of it, up
  to the meaning of the special addresses, and the edges lie, in order, on a path
  whose other branches the LBR does not record.
\<close>
theorem jit_validate_lbr_accepts:
  assumes wf: "wf_cfg G" and ok: "inputs_ok inp" and r: "jit_validate_lbr n inp last_call G lbr = Some (1, G', last')"
  defines "ens \<equiv> lbr_entries (patch_simples inp (snd (remove_lib_enter_edges (o_armor_lib_enter (ji_offsets inp)) lbr)))"
  shows "wf_cfg G' \<and> extends G G' \<and>
    (\<exists>es. list_all2 (matches G' (ji_offsets inp)) es
           (map ((!) ens) (filter (\<lambda>i. \<not> entry_skipped (ji_offsets inp) ens i) [0..<LBR_SIZE])) \<and>
       (es \<noteq> [] \<longrightarrow> reaches G' (e_target (edges G' ! hd es)) (tl es)))"
  using jit_validate_sound [OF wf ok r] unfolding ens_def .

definition demo_inputs :: jit_inputs where
  "demo_inputs = \<lparr>ji_offsets = \<lparr>o_name = [], o_start = [], o_end = [], o_libs = 0, o_indirect_call_source = 0x91, o_load_from = 0x92,
      o_armor_lib_enter = 0x93, o_armor_lib_return = 0x94, o_pthread_create = 0x95, o_pthread_create_return = 0x96\<rparr>,
    ji_plt_got = [], ji_exitpoints = [], ji_script = (\<lambda>_. Some []), ji_mods = [], ji_fbt = [], ji_parsed = (\<lambda>_ _. ([], []))\<rparr>"

text \<open>An LBR with one branch that is an edge of the graph and one into the wrapper.\<close>

definition demo_lbr :: lbr_t where
  "demo_lbr = zero_lbr\<lparr>tos := 0, from_regs := (replicate LBR_ENTRIES 0)[0 := 0x20, 15 := 0x10],
     to_regs := (replicate LBR_ENTRIES 0)[0 := 0x93, 15 := 0x20]\<rparr>"

lemma demo_inputs_ok: "inputs_ok demo_inputs"
  by (simp add: inputs_ok_def demo_inputs_def parsed_ok_def parsed_blocks_def)

lemma patch_no_simples: "ji_exitpoints inp = [] \<Longrightarrow> patch_simples inp l = l"
  by (simp add: patch_simples_def bsearch_def bsearch_between.simps)

lemma demo_lbr_entries:
  "lbr_entries (patch_simples demo_inputs (snd (remove_lib_enter_edges (o_armor_lib_enter (ji_offsets demo_inputs)) demo_lbr))) =
   replicate 15 (0, 0) @ [(0x10, 0x20)]"
proof -
  have wf: "wf_lbr demo_lbr" by (simp add: demo_lbr_def wf_lbr_def zero_lbr_def)
  have s: "slot 0 i = (i + 1) mod 16" for i by (simp add: slot_eq LBR_ENTRIES_def)
  have r: "replicate 14 (0, 0) = [(0, 0), (0, 0), (0, 0), (0, 0), (0, 0), (0, 0), (0, 0), (0, 0), (0, 0), (0, 0), (0, 0), (0, 0),
      (0, 0), (0 :: u64, 0 :: u64)]" by (simp add: eval_nat_numeral)
  have e: "lbr_entries demo_lbr = replicate 14 (0, 0) @ [(0x10, 0x20), (0x20, 0x93)]"
    by (simp add: lbr_entries_def demo_lbr_def zero_lbr_def s LBR_ENTRIES_def upt_rec r)
  have "patch_simples demo_inputs l = l" for l by (rule patch_no_simples) (simp add: demo_inputs_def)
  then show ?thesis
    using remove_keeps_others [OF wf, of "o_armor_lib_enter (ji_offsets demo_inputs)"]
    by (simp add: e demo_inputs_def LBR_ENTRIES_def Let_def filter_replicate) (simp add: eval_nat_numeral)
qed

lemma jit_entries_skip:
  "\<forall>i \<in> set is. entry_skipped (ji_offsets inp) ens i \<Longrightarrow> jit_entries n inp ens (is @ js) st = jit_entries n inp ens js st"
  by (induction "is") (simp_all add: jit_entry_def)

lemmas demo_cfg_defs = demo_cfg_def load_cfg_from_file_def create_and_add_edge_def mk_cfg_def find_bb_by_last_insn_address_def
  find_bb_def new_bb_def store_bb_def mk_bb_def link_edge_unfold add_outgoing_edge_def add_incoming_edge_def upd_bb_def
  mk_edge_def set_insert_def find_edge_def find_function_def addr_in_cfg_def

lemma demo_validates: "jit_validate_lbr n demo_inputs 0 demo_cfg demo_lbr = Some (1, demo_cfg, 0)"
proof -
  let ?ens = "replicate 15 (0, 0) @ [(0x10 :: u64, 0x20 :: u64)]"
  let ?st = "\<lparr>jl_cfg = demo_cfg, jl_last = 0, jl_edges = []\<rparr>"
  have up: "[0..<LBR_SIZE] = [0..<15] @ [15]" by (simp add: LBR_SIZE_def upt_rec)
  have sk: "\<forall>i \<in> set [0..<15]. entry_skipped (ji_offsets demo_inputs) ?ens i" by (simp add: entry_skipped_def nth_append)
  have known: "addr_in_cfg demo_cfg 0x10" "addr_in_cfg demo_cfg 0x20" "find_edge demo_cfg 0x10 0x20 = Some 0" by (simp_all add: demo_cfg_defs)
  then have e: "jit_entry n demo_inputs ?ens 15 ?st = Go (?st\<lparr>jl_edges := [0]\<rparr>)"
    by (simp add: jit_entry_def entry_skipped_def nth_append jit_normalize_addr_def jit_find_edge_def find_edge_reparsing_def
        JIT_ADDR_UNKNOWN_def demo_inputs_def)
  have "jit_entries n demo_inputs ?ens [0..<LBR_SIZE] ?st = Go (?st\<lparr>jl_edges := [0]\<rparr>)"
    unfolding up using jit_entries_skip [OF sk, of n "[15]" ?st] e by simp
  then show ?thesis by (simp add: jit_validate_lbr_def demo_lbr_entries Let_def)
qed

theorem jit_validate_lbr_accepts_witness:
  "wf_cfg demo_cfg \<and> inputs_ok demo_inputs \<and> jit_validate_lbr 9 demo_inputs 0 demo_cfg demo_lbr = Some (1, demo_cfg, 0) \<and>
   extends demo_cfg demo_cfg"
  using jit_validate_lbr_accepts [OF wf_demo_cfg demo_inputs_ok demo_validates] wf_demo_cfg demo_inputs_ok demo_validates by blast

end
