(* ===== verification/Cfg_Simplify.thy ===== *)
theory Cfg_Simplify
  imports Jit_Search
begin

text \<open>
  Collapsing the functions of the graph before the daemon searches in it
  (\<open>create_fastpath\<close>, \<open>collapse_function\<close> and \<open>simplify_cfg\<close> in
  \<open>src/dyninst-static/lbr_analysis.C\<close>).  For every block of a function a
  breadth-first search finds the blocks from which the function can be left, gives
  the block a fastpath to each of them, and hides the internal edges on the way.

  \<open>None\<close> is a failed \<open>assert\<close> of \<open>create_and_add_edge\<close>, or a search that does not
  end; the theorems show that neither happens.  The counters of the printed
  statistics are left out.
\<close>

section \<open>Operations\<close>

definition set_hidden :: "nat \<Rightarrow> bool \<Rightarrow> cfg \<Rightarrow> cfg" where
  "set_hidden e h = upd_edge e (\<lambda>x. x\<lparr>e_hidden := h\<rparr>)"

definition create_fastpath :: "nat \<Rightarrow> nat \<Rightarrow> cfg \<Rightarrow> cfg option" where
  "create_fastpath bb cc G =
    map_option (\<lambda>(f, G). upd_edge f (set_type arms_fastpath) G) (create_and_add_edge_bb bb cc G)"

text \<open>\<open>exits\<close> is the list \<open>exits[bb]\<close>, which is empty when the search from \<open>bb\<close> starts.\<close>

definition add_exit :: "nat \<Rightarrow> nat \<Rightarrow> nat list \<times> cfg \<Rightarrow> (nat list \<times> cfg) option" where
  "add_exit bb cc w =
    (let (exits, G) = w
     in if cc \<in> set exits then Some (exits, G)
        else let exits = exits @ [cc]
             in if bb \<noteq> cc then map_option (\<lambda>G. (exits, G)) (create_fastpath bb cc G) else Some (exits, G))"

text \<open>
  The loop over the outgoing edges of \<open>cc\<close>.  A fastpath is only ever added to \<open>bb\<close>
  while another block is searched, so the edges of \<open>cc\<close> do not change on the way.
\<close>

fun collapse_edges :: "nat \<Rightarrow> nat \<Rightarrow> nat list \<Rightarrow> nat list \<times> nat list \<times> nat list \<times> cfg \<Rightarrow> (nat list \<times> nat list \<times> nat list \<times> cfg) option" where
  "collapse_edges bb cc [] st = Some st"
| "collapse_edges bb cc (e # es) (Q, V, exits, G) =
    (if edge_is_fastpath (edges G ! e) then collapse_edges bb cc es (Q, V, exits, G)
     else if edge_is_function_exit (edges G ! e) then
       (case add_exit bb cc (exits, G) of
          None \<Rightarrow> None
        | Some (exits, G) \<Rightarrow> collapse_edges bb cc es (Q, V, exits, G))
     else
       let G = set_hidden e True G; dd = e_target (edges G ! e)
       in if dd \<notin> set V then collapse_edges bb cc es (Q @ [dd], dd # V, exits, G)
          else collapse_edges bb cc es (Q, V, exits, G))"

partial_function (option) collapse_search :: "nat \<Rightarrow> nat list \<times> nat list \<times> nat list \<times> cfg \<Rightarrow> cfg option" where
  "collapse_search bb st =
    (case st of
       ([], V, exits, G) \<Rightarrow> Some G
     | (cc # Q, V, exits, G) \<Rightarrow>
         Option.bind (if outgoing_edges (bbs G ! cc) = [] then add_exit bb cc (exits, G) else Some (exits, G))
           (\<lambda>(exits, G). Option.bind (collapse_edges bb cc (outgoing_edges (bbs G ! cc)) (Q, V, exits, G))
              (\<lambda>st. collapse_search bb st)))"

text \<open>\<open>blocks.back()\<close> comes first.\<close>

fun collapse_blocks :: "nat list \<Rightarrow> cfg \<Rightarrow> cfg option" where
  "collapse_blocks [] G = Some G"
| "collapse_blocks (bb # blocks) G = Option.bind (collapse_search bb ([bb], [bb], [], G)) (collapse_blocks blocks)"

definition collapse_function :: "nat \<Rightarrow> cfg \<Rightarrow> cfg option" where
  "collapse_function f G =
    (if is_plt (fns G ! f) \<or> is_lib_dummy (fns G ! f) then Some G
     else collapse_blocks (rev (basic_blocks (fns G ! f))) G)"

fun collapse_functions :: "(u64 \<times> nat) list \<Rightarrow> cfg \<Rightarrow> cfg option" where
  "collapse_functions [] G = Some G"
| "collapse_functions ((a, f) # fs) G = Option.bind (collapse_function f G) (collapse_functions fs)"

definition simplify_cfg :: "cfg \<Rightarrow> cfg option" where
  "simplify_cfg G = collapse_functions (addr2fn G) G"

section \<open>Internal edges, exits and fastpaths\<close>

definition internal_edge :: "cfg \<Rightarrow> nat \<Rightarrow> bool" where
  "internal_edge G e \<longleftrightarrow> \<not> edge_is_fastpath (edges G ! e) \<and> \<not> edge_is_function_exit (edges G ! e)"

definition internal :: "cfg \<Rightarrow> nat \<Rightarrow> nat \<Rightarrow> bool" where
  "internal G b c \<longleftrightarrow> (\<exists>e \<in> set (outgoing_edges (bbs G ! b)). internal_edge G e \<and> e_target (edges G ! e) = c)"

definition exit_block :: "cfg \<Rightarrow> nat \<Rightarrow> bool" where
  "exit_block G b \<longleftrightarrow> outgoing_edges (bbs G ! b) = [] \<or>
    (\<exists>e \<in> set (outgoing_edges (bbs G ! b)). \<not> edge_is_fastpath (edges G ! e) \<and> edge_is_function_exit (edges G ! e))"

definition fastpath :: "cfg \<Rightarrow> nat \<Rightarrow> nat \<Rightarrow> bool" where
  "fastpath G b c \<longleftrightarrow> (\<exists>e \<in> set (outgoing_edges (bbs G ! b)). edge_is_fastpath (edges G ! e) \<and> e_target (edges G ! e) = c)"

text \<open>The blocks of the functions that are collapsed.\<close>

definition collapsed :: "cfg \<Rightarrow> nat set" where
  "collapsed G = {b. \<exists>(a, f) \<in> set (addr2fn G). \<not> is_plt (fns G ! f) \<and> \<not> is_lib_dummy (fns G ! f) \<and> b \<in> set (basic_blocks (fns G ! f))}"

definition searched :: "cfg \<Rightarrow> nat set" where
  "searched G = {c. \<exists>b \<in> collapsed G. (internal G)\<^sup>*\<^sup>* b c}"

text \<open>No search and no collapse has touched the graph yet.\<close>

definition fresh :: "cfg \<Rightarrow> bool" where
  "fresh G \<longleftrightarrow> (\<forall>e < length (edges G). \<not> edge_is_fastpath (edges G ! e) \<and> \<not> edge_is_hidden (edges G ! e))"

text \<open>
  The blocks of \<open>S\<close> have different addresses, and what the map finds at the address
  of one of them is that block: the \<open>assert\<close>s of \<open>create_and_add_edge\<close> hold.
\<close>

definition addressed :: "nat set \<Rightarrow> cfg \<Rightarrow> bool" where
  "addressed S G \<longleftrightarrow> inj_on (\<lambda>b. start_address (bbs G ! b)) S \<and>
    (\<forall>b \<in> S. find_bb G (start_address (bbs G ! b)) \<in> {None, Some b})"

section \<open>What a partly collapsed graph looks like\<close>

text \<open>
  \<open>G\<close> is \<open>G0\<close> with some internal edges hidden and some fastpaths added at the end
  of the heap of edges, each of them from a collapsed block to an exit it reaches.
\<close>

definition good_fastpath :: "cfg \<Rightarrow> arms_edge \<Rightarrow> bool" where
  "good_fastpath G0 e \<longleftrightarrow> edge_is_fastpath e \<and> \<not> edge_is_hidden e \<and> e_source e \<in> collapsed G0 \<and> e_source e \<noteq> e_target e \<and>
    (internal G0)\<^sup>*\<^sup>* (e_source e) (e_target e) \<and> exit_block G0 (e_target e)"

definition collapsing :: "cfg \<Rightarrow> cfg \<Rightarrow> bool" where
  "collapsing G0 G \<longleftrightarrow> wf_cfg G0 \<and> fresh G0 \<and> wf_cfg G \<and> addressed (searched G0) G \<and>
    length (bbs G) = length (bbs G0) \<and> fns G = fns G0 \<and> addr2fn G = addr2fn G0 \<and> length (edges G0) \<le> length (edges G) \<and>
    (\<forall>e < length (edges G0). \<exists>h. edges G ! e = (edges G0 ! e)\<lparr>e_hidden := h\<rparr>) \<and>
    (\<forall>b < length (bbs G0). {e \<in> set (outgoing_edges (bbs G ! b)). e < length (edges G0)} = set (outgoing_edges (bbs G0 ! b))) \<and>
    (\<forall>e < length (edges G). length (edges G0) \<le> e \<longrightarrow> good_fastpath G0 (edges G ! e)) \<and>
    (\<forall>e < length (edges G0). edge_is_hidden (edges G ! e) \<longrightarrow> internal_edge G0 e \<and> e_source (edges G0 ! e) \<in> searched G0) \<and>
    (\<forall>b < length (bbs G0). last_insn_address (bbs G ! b) = last_insn_address (bbs G0 ! b)) \<and>
    (\<forall>a. find_bb G0 a \<noteq> None \<longrightarrow> find_bb G a \<noteq> None)"

lemma collapsing_D:
  assumes "collapsing G0 G"
  shows "wf_cfg G0" "fresh G0" "wf_cfg G" "addressed (searched G0) G" "length (bbs G) = length (bbs G0)" "fns G = fns G0"
    "addr2fn G = addr2fn G0" "length (edges G0) \<le> length (edges G)"
    "b < length (bbs G0) \<Longrightarrow> {e \<in> set (outgoing_edges (bbs G ! b)). e < length (edges G0)} = set (outgoing_edges (bbs G0 ! b))"
    "e < length (edges G) \<Longrightarrow> length (edges G0) \<le> e \<Longrightarrow> good_fastpath G0 (edges G ! e)"
    "e < length (edges G0) \<Longrightarrow> edge_is_hidden (edges G ! e) \<Longrightarrow> internal_edge G0 e \<and> e_source (edges G0 ! e) \<in> searched G0"
    "b < length (bbs G0) \<Longrightarrow> last_insn_address (bbs G ! b) = last_insn_address (bbs G0 ! b)"
    "find_bb G0 a \<noteq> None \<Longrightarrow> find_bb G a \<noteq> None"
  using assms unfolding collapsing_def by blast+

lemma collapsing_edge:
  assumes "collapsing G0 G" "e < length (edges G0)"
  shows "e_type (edges G ! e) = e_type (edges G0 ! e)" "e_target (edges G ! e) = e_target (edges G0 ! e)"
    "e_source (edges G ! e) = e_source (edges G0 ! e)"
proof -
  obtain h where "edges G ! e = (edges G0 ! e)\<lparr>e_hidden := h\<rparr>" using assms unfolding collapsing_def by blast
  then show "e_type (edges G ! e) = e_type (edges G0 ! e)" "e_target (edges G ! e) = e_target (edges G0 ! e)"
    "e_source (edges G ! e) = e_source (edges G0 ! e)" by simp_all
qed

lemmas edge_kind_defs = edge_is_fastpath_def is_fastpath_def edge_is_function_exit_def edge_is_indirect_def is_indirect_def
  edge_is_return_def is_return_def edge_is_call_def edge_is_direct_call_def is_direct_call_def edge_type_is_direct_call_def
  edge_type_is_indirect_def

lemma kind_same: "e_type x = e_type y \<Longrightarrow> edge_is_fastpath x = edge_is_fastpath y \<and> edge_is_function_exit x = edge_is_function_exit y \<and>
    edge_is_indirect x = edge_is_indirect y \<and> edge_is_direct_call x = edge_is_direct_call y"
  by (simp add: edge_kind_defs)

lemma exit_is_recorded: "edge_is_function_exit (edges G ! e) \<longleftrightarrow> vis G e"
  by (auto simp: edge_kind_defs)

lemma collapsing_kind:
  assumes "collapsing G0 G" "e < length (edges G0)"
  shows "\<not> edge_is_fastpath (edges G ! e)" "edge_is_function_exit (edges G ! e) = edge_is_function_exit (edges G0 ! e)"
    "internal_edge G0 e = (\<not> edge_is_function_exit (edges G0 ! e))"
  using kind_same [OF collapsing_edge(1) [OF assms]] collapsing_D(2) [OF assms(1)] assms(2)
  by (auto simp: fresh_def internal_edge_def)

lemma out_less: "wf_cfg G \<Longrightarrow> b < length (bbs G) \<Longrightarrow> e \<in> set (outgoing_edges (bbs G ! b)) \<Longrightarrow> e < length (edges G) \<and> e_source (edges G ! e) = b \<and>
    e_target (edges G ! e) < length (bbs G)"
  using wf_bb [of G b] wf_edge [of G e] by (auto simp: bb_ok_def edge_ok_def)

lemma internal_less: "wf_cfg G \<Longrightarrow> b < length (bbs G) \<Longrightarrow> internal G b c \<Longrightarrow> c < length (bbs G)"
  using out_less by (auto simp: internal_def)

lemma internals_less: "(internal G)\<^sup>*\<^sup>* b c \<Longrightarrow> wf_cfg G \<Longrightarrow> b < length (bbs G) \<Longrightarrow> c < length (bbs G)"
  by (induction rule: rtranclp_induct) (auto intro: internal_less)

lemma collapsed_less: "wf_cfg G \<Longrightarrow> b \<in> collapsed G \<Longrightarrow> b < length (bbs G)"
proof -
  assume wf: "wf_cfg G" and "b \<in> collapsed G"
  then obtain a f where f: "(a, f) \<in> set (addr2fn G)" and b: "b \<in> set (basic_blocks (fns G ! f))" by (auto simp: collapsed_def)
  show ?thesis using wf_fn [OF wf addr2fn_ok [OF wf f]] b by (simp add: fn_ok_def below_def)
qed

lemma searched_less: "wf_cfg G \<Longrightarrow> b \<in> searched G \<Longrightarrow> b < length (bbs G)"
  unfolding searched_def using internals_less [of G] collapsed_less [of G] by blast

lemma searchedI: "b \<in> collapsed G \<Longrightarrow> (internal G)\<^sup>*\<^sup>* b c \<Longrightarrow> c \<in> searched G"
  by (auto simp: searched_def)

text \<open>The first test of the search: a block without outgoing edges.\<close>

lemma collapsing_out_Nil:
  assumes c: "collapsing G0 G" and b: "b < length (bbs G0)"
  shows "outgoing_edges (bbs G ! b) = [] \<longleftrightarrow> outgoing_edges (bbs G0 ! b) = []"
proof
  assume "outgoing_edges (bbs G ! b) = []"
  then show "outgoing_edges (bbs G0 ! b) = []" using collapsing_D(9) [OF c b] by auto
next
  assume none: "outgoing_edges (bbs G0 ! b) = []"
  have "False" if e: "e \<in> set (outgoing_edges (bbs G ! b))" for e
  proof -
    have l: "e < length (edges G)" "e_source (edges G ! e) = b" using out_less [OF collapsing_D(3) [OF c], of b e] e b collapsing_D(5) [OF c] by auto
    moreover have "\<not> e < length (edges G0)" using collapsing_D(9) [OF c b] none e by auto
    ultimately have "(internal G0)\<^sup>*\<^sup>* b (e_target (edges G ! e))" "b \<noteq> e_target (edges G ! e)"
      using collapsing_D(10) [OF c, of e] by (auto simp: good_fastpath_def)
    then obtain x where "internal G0 b x" by (meson converse_rtranclpE)
    then show False using none by (simp add: internal_def)
  qed
  then show "outgoing_edges (bbs G ! b) = []" by (cases "outgoing_edges (bbs G ! b)") auto
qed

section \<open>The two things a search does to the graph\<close>

text \<open>Nothing that was found or hidden is lost.\<close>

definition gains :: "cfg \<Rightarrow> cfg \<Rightarrow> cfg \<Rightarrow> bool" where
  "gains G0 G G' \<longleftrightarrow> length (edges G) \<le> length (edges G') \<and> (\<forall>b < length (bbs G0). \<forall>c. fastpath G b c \<longrightarrow> fastpath G' b c) \<and>
    (\<forall>e < length (edges G0). edge_is_hidden (edges G ! e) \<longrightarrow> edge_is_hidden (edges G' ! e))"

lemma gains_refl [simp]: "gains G0 G G"
  by (simp add: gains_def)

lemma gains_trans: "gains G0 G G' \<Longrightarrow> gains G0 G' G'' \<Longrightarrow> gains G0 G G''"
  by (auto simp: gains_def)

lemma wf_upd_edge:
  assumes "wf_cfg G" "e < length (edges G)" "e_source (f (edges G ! e)) = e_source (edges G ! e)" "e_target (f (edges G ! e)) = e_target (edges G ! e)"
  shows "wf_cfg (upd_edge e f G)"
proof -
  have "e_source ((edges G)[e := f (edges G ! e)] ! i) = e_source (edges G ! i)"
    "e_target ((edges G)[e := f (edges G ! e)] ! i) = e_target (edges G ! i)" for i
    using assms(2-) by (cases "i = e"; simp)+
  then show ?thesis using assms(1) by (simp add: wf_cfg_def upd_edge_def edge_ok_def bb_ok_def)
qed

lemma addressed_cong: "bbs G' = bbs G \<Longrightarrow> start2bb G' = start2bb G \<Longrightarrow> addressed S G' = addressed S G"
  by (simp add: addressed_def find_bb_def)

lemma collapsing_hide:
  assumes c: "collapsing G0 G" and e: "e < length (edges G0)" and i: "internal_edge G0 e" "e_source (edges G0 ! e) \<in> searched G0"
  shows "collapsing G0 (set_hidden e True G) \<and> gains G0 G (set_hidden e True G) \<and> edge_is_hidden (edges (set_hidden e True G) ! e)"
proof -
  let ?G = "set_hidden e True G"
  note D = collapsing_D [OF c]
  have e': "e < length (edges G)" using D(8) e by simp
  have eq: "edges ?G ! k = (if k = e then (edges G ! e)\<lparr>e_hidden := True\<rparr> else edges G ! k)" "bbs ?G = bbs G" "length (edges ?G) = length (edges G)"
    "fns ?G = fns G" "addr2fn ?G = addr2fn G" "find_bb ?G = find_bb G" for k
    using e' by (auto simp: set_hidden_def upd_edge_def nth_list_update find_bb_def)
  have "wf_cfg ?G" unfolding set_hidden_def by (rule wf_upd_edge [OF D(3) e']) simp_all
  moreover have "addressed (searched G0) ?G"
    using D(4) addressed_cong [of ?G G] by (simp add: set_hidden_def upd_edge_def)
  moreover have "\<exists>h. edges ?G ! k = (edges G0 ! k)\<lparr>e_hidden := h\<rparr>" if k: "k < length (edges G0)" for k
  proof -
    obtain h where "edges G ! k = (edges G0 ! k)\<lparr>e_hidden := h\<rparr>" using c k unfolding collapsing_def by blast
    then show ?thesis by (auto simp: eq)
  qed
  moreover have "edge_is_hidden (edges ?G ! k) \<Longrightarrow> internal_edge G0 k \<and> e_source (edges G0 ! k) \<in> searched G0" if "k < length (edges G0)" for k
    using D(11) [OF that] i by (cases "k = e") (simp_all add: eq)
  ultimately have "collapsing G0 ?G" using D e unfolding collapsing_def eq(2-) by (simp add: eq(1))
  moreover have "gains G0 G ?G" by (auto simp: gains_def fastpath_def eq edge_is_hidden_def edge_is_fastpath_def is_fastpath_def)
  moreover have "edge_is_hidden (edges ?G ! e)" by (simp add: eq(1) edge_is_hidden_def)
  ultimately show ?thesis by blast
qed

text \<open>The asserts of \<open>create_and_add_edge\<close> hold, and apart from the new edge only the maps change.\<close>

lemma addressed_edge:
  assumes a: "addressed S G" and s: "s \<in> S" "t \<in> S"
  obtains G2 where "create_and_add_edge_bb s t G = Some (link_edge (mk_edge s t) G2)" "addressed S G2"
    "bbs G2 = bbs G" "edges G2 = edges G" "fns G2 = fns G" "addr2fn G2 = addr2fn G" "\<And>a. find_bb G a \<noteq> None \<Longrightarrow> find_bb G2 a \<noteq> None"
proof -
  have store: "addressed S (store_bb b H)" if "addressed S H" "b \<in> S" for b H
    using that by (auto simp: addressed_def find_bb_store store_bb_def find_bb_def map_of_map_set dest: inj_onD)
  define G1 where "G1 = (if find_bb G (start_address (bbs G ! s)) = None then store_bb s G else G)"
  define G2 where "G2 = (if find_bb G1 (start_address (bbs G1 ! t)) = None then store_bb t G1 else G1)"
  have a1: "addressed S G1" using store [OF a s(1)] a by (simp add: G1_def)
  have a2: "addressed S G2" using store [OF a1 s(2)] a1 by (simp add: G2_def)
  have eq: "bbs G1 = bbs G" "edges G1 = edges G" "fns G1 = fns G" "addr2fn G1 = addr2fn G"
    "bbs G2 = bbs G1" "edges G2 = edges G1" "fns G2 = fns G1" "addr2fn G2 = addr2fn G1"
    by (simp_all add: G1_def G2_def store_bb_def)
  have f1: "find_bb G1 (start_address (bbs G1 ! s)) = Some s"
    using a s by (auto simp: G1_def addressed_def store_bb_def find_bb_def map_of_map_set)
  have f2: "find_bb G2 (start_address (bbs G2 ! t)) = Some t"
    using a1 s by (auto simp: G2_def addressed_def store_bb_def find_bb_def map_of_map_set)
  have "create_and_add_edge_bb s t G = Some (link_edge (mk_edge s t) G2)"
    using f1 f2 unfolding create_and_add_edge_bb_def Let_def G1_def [symmetric] G2_def [symmetric] by simp
  moreover have "find_bb G2 a \<noteq> None" if "find_bb G a \<noteq> None" for a using that by (auto simp: G2_def G1_def find_bb_def store_bb_def map_of_map_set)
  ultimately show ?thesis using that [OF _ a2] eq by simp
qed

lemma link_out:
  assumes "edge_ok (length (bbs G)) e"
  shows "set (outgoing_edges (bbs (snd (link_edge e G)) ! b)) =
    (if b = e_source e then insert (length (edges G)) (set (outgoing_edges (bbs G ! b))) else set (outgoing_edges (bbs G ! b)))"
  using assms by (auto simp: link_edge_unfold add_outgoing_edge_def add_incoming_edge_def upd_bb_def nth_list_update edge_ok_def)

lemma addressed_link:
  assumes "edge_ok (length (bbs G)) e"
  shows "addressed S (snd (link_edge e G)) = addressed S G"
proof -
  have "start_address (bbs (snd (link_edge e G)) ! b) = start_address (bbs G ! b)" for b
    using assms by (auto simp: link_edge_unfold add_outgoing_edge_def add_incoming_edge_def upd_bb_def nth_list_update edge_ok_def)
  then show ?thesis by (simp add: addressed_def find_bb_def)
qed

lemma create_fastpath_result:
  assumes c: "collapsing G0 G" and b: "bb \<in> searched G0" "cc \<in> searched G0"
  obtains G' x where "create_fastpath bb cc G = Some G'" "wf_cfg G'" "addressed (searched G0) G'" "length (bbs G') = length (bbs G)"
    "fns G' = fns G" "addr2fn G' = addr2fn G" "edges G' = edges G @ [x]" "e_type x = arms_fastpath" "e_source x = bb" "e_target x = cc"
    "\<not> e_hidden x" "\<And>k. last_insn_address (bbs G' ! k) = last_insn_address (bbs G ! k)" "\<And>a. find_bb G a \<noteq> None \<Longrightarrow> find_bb G' a \<noteq> None"
    "\<And>k. set (outgoing_edges (bbs G' ! k)) = (if k = bb then insert (length (edges G)) (set (outgoing_edges (bbs G ! k))) else set (outgoing_edges (bbs G ! k)))"
proof -
  note D = collapsing_D [OF c]
  have ok: "edge_ok (length (bbs G)) (mk_edge bb cc)" using b searched_less [OF D(1)] D(5) by (simp add: edge_ok_def)
  from addressed_edge [OF D(4) b] obtain G2 where
    G2: "create_and_add_edge_bb bb cc G = Some (link_edge (mk_edge bb cc) G2)" "addressed (searched G0) G2" "bbs G2 = bbs G"
      "edges G2 = edges G" "fns G2 = fns G" "addr2fn G2 = addr2fn G" "\<And>a. find_bb G a \<noteq> None \<Longrightarrow> find_bb G2 a \<noteq> None" by blast
  let ?L = "snd (link_edge (mk_edge bb cc) G2)"
  let ?x = "set_type arms_fastpath (mk_edge bb cc)"
  let ?G' = "upd_edge (length (edges G)) (set_type arms_fastpath) ?L"
  have wf2: "wf_cfg ?L"
    using ok G2(1)
    by (metis edge_ok_def keeps_create_and_add_edge_bb [OF D(3)] keeps_def mk_edge_simps(1,2) surjective_pairing)
  have r: "create_fastpath bb cc G = Some ?G'" by (simp add: create_fastpath_def G2 split: prod.splits) (metis fst_conv link_edge_simps(7) snd_conv G2(4))
  have "wf_cfg ?G'" by (rule wf_upd_edge [OF wf2]) (simp_all add: G2 set_type_def Let_def)
  moreover have "addressed (searched G0) ?G'"
    using addressed_link [of G2 "mk_edge bb cc" "searched G0"] ok G2(2,3) addressed_cong [of ?G' ?L] by (simp add: upd_edge_def)
  moreover have "edges ?G' = edges G @ [?x]" by (simp add: upd_edge_def G2 list_update_append)
  moreover have "set (outgoing_edges (bbs ?G' ! k)) =
      (if k = bb then insert (length (edges G)) (set (outgoing_edges (bbs G ! k))) else set (outgoing_edges (bbs G ! k)))" for k
    using link_out [of G2 "mk_edge bb cc" k] ok by (simp add: upd_edge_def G2)
  moreover have "last_insn_address (bbs ?G' ! k) = last_insn_address (bbs G ! k)" for k
    using ok by (auto simp: upd_edge_def link_edge_unfold add_outgoing_edge_def add_incoming_edge_def upd_bb_def nth_list_update edge_ok_def G2)
  moreover have "find_bb ?G' a \<noteq> None" if "find_bb G a \<noteq> None" for a using G2(7) [OF that] by (simp add: find_bb_def upd_edge_def)
  ultimately show ?thesis
    using that [OF r, of ?x] by (simp add: upd_edge_def G2 set_type_def Let_def)
qed

lemma collapsing_fastpath:
  assumes c: "collapsing G0 G" and b: "bb \<in> collapsed G0" and r: "(internal G0)\<^sup>*\<^sup>* bb cc" and x: "exit_block G0 cc" "bb \<noteq> cc"
  obtains G' where "create_fastpath bb cc G = Some G'" "collapsing G0 G'" "gains G0 G G'" "fastpath G' bb cc"
proof -
  note D = collapsing_D [OF c]
  have s: "bb \<in> searched G0" "cc \<in> searched G0" using b r by (auto intro: searchedI)
  obtain G' x where G': "create_fastpath bb cc G = Some G'" "wf_cfg G'" "addressed (searched G0) G'" "length (bbs G') = length (bbs G)"
    "fns G' = fns G" "addr2fn G' = addr2fn G" "edges G' = edges G @ [x]" "e_type x = arms_fastpath" "e_source x = bb" "e_target x = cc"
    "\<not> e_hidden x" "\<And>k. last_insn_address (bbs G' ! k) = last_insn_address (bbs G ! k)" "\<And>a. find_bb G a \<noteq> None \<Longrightarrow> find_bb G' a \<noteq> None"
    and out: "\<And>k. set (outgoing_edges (bbs G' ! k)) = (if k = bb then insert (length (edges G)) (set (outgoing_edges (bbs G ! k))) else set (outgoing_edges (bbs G ! k)))"
    using create_fastpath_result [OF c s] by metis
  have old: "edges G' ! e = edges G ! e" if "e < length (edges G)" for e using that by (simp add: G' nth_append)
  have less: "e < length (edges G)" if "e \<in> set (outgoing_edges (bbs G ! k))" "k < length (bbs G0)" for e k
    using out_less [OF D(3) _ that(1)] that(2) D(5) by simp
  have "good_fastpath G0 x" using b r x G' by (simp add: good_fastpath_def edge_is_fastpath_def is_fastpath_def edge_is_hidden_def)
  then have "collapsing G0 G'"
    using c D(8) G' unfolding collapsing_def out by (auto simp: nth_append less_Suc_eq)
  moreover have "gains G0 G G'"
    using less old D(8) G'(7) by (auto simp: gains_def fastpath_def out)
  moreover have "fastpath G' bb cc"
    unfolding fastpath_def out using G' by (auto simp: edge_is_fastpath_def is_fastpath_def)
  ultimately show ?thesis using that G' by blast
qed

section \<open>The search from one block\<close>

text \<open>
  The state of the search: every block seen is reachable, the exits found are exits
  with a fastpath.  \<open>expanded\<close> is a block whose edges have all been looked at.
\<close>

type_synonym search = "nat list \<times> nat list \<times> nat list \<times> cfg"

definition searching :: "cfg \<Rightarrow> nat \<Rightarrow> search \<Rightarrow> bool" where
  "searching G0 bb st \<longleftrightarrow> (case st of (Q, V, exits, G) \<Rightarrow>
     collapsing G0 G \<and> bb \<in> collapsed G0 \<and> set Q \<subseteq> set V \<and> (\<forall>c \<in> set V. (internal G0)\<^sup>*\<^sup>* bb c) \<and>
     (\<forall>c \<in> set exits. c \<noteq> bb \<longrightarrow> fastpath G bb c))"

definition expanded :: "cfg \<Rightarrow> nat \<Rightarrow> search \<Rightarrow> bool" where
  "expanded G0 c st \<longleftrightarrow> (case st of (Q, V, exits, G) \<Rightarrow>
     (\<forall>e \<in> set (outgoing_edges (bbs G0 ! c)). internal_edge G0 e \<longrightarrow> e_target (edges G0 ! e) \<in> set V \<and> edge_is_hidden (edges G ! e)) \<and>
     (exit_block G0 c \<longrightarrow> c \<in> set exits))"

text \<open>One state is later than another; new blocks are queued when they are first seen.\<close>

definition later :: "cfg \<Rightarrow> search \<Rightarrow> search \<Rightarrow> bool" where
  "later G0 st st' \<longleftrightarrow> (case st of (Q, V, exits, G) \<Rightarrow> case st' of (Q', V', exits', G') \<Rightarrow>
     gains G0 G G' \<and> set V \<subseteq> set V' \<and> set exits \<subseteq> set exits' \<and> set Q' = set Q \<union> (set V' - set V) \<and>
     length Q' + card (set V) = length Q + card (set V'))"

lemma later_refl [simp]: "later G0 st st"
  by (cases st) (auto simp: later_def)

lemma later_trans: "later G0 st st' \<Longrightarrow> later G0 st' st'' \<Longrightarrow> later G0 st st''"
  by (cases st; cases st'; cases st'') (auto simp: later_def dest: gains_trans)

lemma expanded_later:
  assumes "expanded G0 c st" "later G0 st st'" "wf_cfg G0" "c < length (bbs G0)"
  shows "expanded G0 c st'"
proof -
  have "\<forall>e \<in> set (outgoing_edges (bbs G0 ! c)). e < length (edges G0)" using out_less assms(3,4) by blast
  then show ?thesis using assms(1,2) by (cases st; cases st') (auto simp: expanded_def later_def gains_def)
qed

lemma add_exit_step:
  assumes s: "searching G0 bb (Q, V, exits, G)" and cc: "cc \<in> set V" and x: "exit_block G0 cc"
  obtains exits' G' where "add_exit bb cc (exits, G) = Some (exits', G')" "searching G0 bb (Q, V, exits', G')"
    "later G0 (Q, V, exits, G) (Q, V, exits', G')" "cc \<in> set exits'"
proof (cases "cc \<in> set exits \<or> bb = cc")
  case True
  show ?thesis
    by (rule that [of "if cc \<in> set exits then exits else exits @ [cc]" G]) (use s True in \<open>auto simp: add_exit_def searching_def later_def\<close>)
next
  case False
  have c: "collapsing G0 G" "bb \<in> collapsed G0" "(internal G0)\<^sup>*\<^sup>* bb cc" using s cc by (auto simp: searching_def)
  obtain G' where G': "create_fastpath bb cc G = Some G'" "collapsing G0 G'" "gains G0 G G'" "fastpath G' bb cc"
    using collapsing_fastpath [OF c x] False by blast
  have "bb < length (bbs G0)" using collapsed_less collapsing_D(1) [OF c(1)] c(2) by blast
  then show ?thesis
    using that [of "exits @ [cc]" G'] s False G' by (auto simp: add_exit_def searching_def later_def gains_def)
qed

lemma hide_step:
  assumes s: "searching G0 bb (Q, V, exits, G)" and cc: "cc \<in> set V" and out: "e \<in> set (outgoing_edges (bbs G0 ! cc))" and i: "internal_edge G0 e"
  defines "dd \<equiv> e_target (edges G0 ! e)"
  defines "st \<equiv> (if dd \<in> set V then Q else Q @ [dd], if dd \<in> set V then V else dd # V, exits, set_hidden e True G)"
  shows "searching G0 bb st" "later G0 (Q, V, exits, G) st" "edge_is_hidden (edges (set_hidden e True G) ! e)"
    "e_target (edges (set_hidden e True G) ! e) = dd"
proof -
  have c: "collapsing G0 G" "bb \<in> collapsed G0" and r: "(internal G0)\<^sup>*\<^sup>* bb cc" using s cc by (auto simp: searching_def)
  note D = collapsing_D [OF c(1)]
  have l: "bb < length (bbs G0)" by (rule collapsed_less [OF D(1) c(2)])
  note o = out_less [OF D(1) internals_less [OF r D(1) l] out]
  have "internal G0 cc dd" using out i by (auto simp: internal_def dd_def)
  with r have dd: "(internal G0)\<^sup>*\<^sup>* bb dd" by (rule rtranclp.rtrancl_into_rtrancl)
  have h: "collapsing G0 (set_hidden e True G)" "gains G0 G (set_hidden e True G)" "edge_is_hidden (edges (set_hidden e True G) ! e)"
    using collapsing_hide [OF c(1) _ i] searchedI [OF c(2) r] o by auto
  then show "searching G0 bb st" "later G0 (Q, V, exits, G) st" "edge_is_hidden (edges (set_hidden e True G) ! e)"
    using s dd l by (auto simp: searching_def later_def gains_def st_def)
  show "e_target (edges (set_hidden e True G) ! e) = dd" using collapsing_edge(2) [OF h(1)] o by (simp add: dd_def)
qed

text \<open>What the loop over the edges of \<open>cc\<close> has to do about an edge.\<close>

definition handled :: "cfg \<Rightarrow> nat \<Rightarrow> nat \<Rightarrow> search \<Rightarrow> bool" where
  "handled G0 cc e st \<longleftrightarrow> (case st of (Q, V, exits, G) \<Rightarrow> e < length (edges G0) \<longrightarrow>
     (if internal_edge G0 e then e_target (edges G0 ! e) \<in> set V \<and> edge_is_hidden (edges G ! e) else cc \<in> set exits))"

lemma handled_later: "handled G0 cc e st \<Longrightarrow> later G0 st st' \<Longrightarrow> handled G0 cc e st'"
  by (cases st; cases st') (auto simp: handled_def later_def gains_def split: if_splits)

definition edges_of :: "cfg \<Rightarrow> nat \<Rightarrow> nat list \<Rightarrow> search \<Rightarrow> bool" where
  "edges_of G0 cc es st \<longleftrightarrow> (case st of (Q, V, exits, G) \<Rightarrow>
     cc \<in> set V \<and> (\<forall>e \<in> set es. e < length (edges G) \<and> (e < length (edges G0) \<longrightarrow> e \<in> set (outgoing_edges (bbs G0 ! cc)))))"

lemma edges_of_later: "edges_of G0 cc es st \<Longrightarrow> later G0 st st' \<Longrightarrow> edges_of G0 cc es st'"
  by (cases st; cases st') (auto simp: edges_of_def later_def gains_def)

lemma collapse_edge_step:
  assumes s: "searching G0 bb st" and v: "edges_of G0 cc (e # es) st"
  obtains st' where "collapse_edges bb cc (e # es) st = collapse_edges bb cc es st'" "searching G0 bb st'" "later G0 st st'" "handled G0 cc e st'"
proof -
  obtain Q V exits G where st: "st = (Q, V, exits, G)" by (cases st)
  have c: "collapsing G0 G" using s by (simp add: searching_def st)
  show ?thesis
  proof (cases "e < length (edges G0)")
    case False
    then have "edge_is_fastpath (edges G ! e)" using collapsing_D(10) [OF c, of e] v by (auto simp: good_fastpath_def edges_of_def st)
    then show ?thesis using that [of st] s False by (simp add: st handled_def)
  next
    case e: True
    note k = collapsing_kind [OF c e]
    have out: "e \<in> set (outgoing_edges (bbs G0 ! cc))" and cc: "cc \<in> set V" using v e by (simp_all add: edges_of_def st)
    show ?thesis
    proof (cases "internal_edge G0 e")
      case True
      note h = hide_step [OF s [unfolded st] cc out True]
      show ?thesis
        by (rule that [OF _ h(1,2) [folded st]]) (use h(3,4) k True in \<open>simp_all add: st handled_def Let_def\<close>)
    next
      case False
      then have "exit_block G0 cc" using out k collapsing_D(2) [OF c] e by (auto simp: exit_block_def fresh_def)
      from add_exit_step [OF s [unfolded st] cc this] obtain exits' G' where
        a: "add_exit bb cc (exits, G) = Some (exits', G')" "searching G0 bb (Q, V, exits', G')"
          "later G0 (Q, V, exits, G) (Q, V, exits', G')" "cc \<in> set exits'" .
      show ?thesis by (rule that [of "(Q, V, exits', G')"]) (use a k False in \<open>simp_all add: st handled_def\<close>)
    qed
  qed
qed

lemma collapse_edges_step:
  "searching G0 bb st \<Longrightarrow> edges_of G0 cc es st \<Longrightarrow>
   \<exists>st'. collapse_edges bb cc es st = Some st' \<and> searching G0 bb st' \<and> later G0 st st' \<and> (\<forall>e \<in> set es. handled G0 cc e st')"
proof (induction es arbitrary: st)
  case Nil
  then show ?case by (cases st) auto
next
  case (Cons e es)
  from Cons.prems obtain st1 where
    1: "collapse_edges bb cc (e # es) st = collapse_edges bb cc es st1" "searching G0 bb st1" "later G0 st st1" "handled G0 cc e st1"
    by (rule collapse_edge_step)
  have "edges_of G0 cc es st1" using edges_of_later [OF Cons.prems(2) 1(3)] by (cases st1) (simp add: edges_of_def)
  from Cons.IH [OF 1(2) this] obtain st2 where
    2: "collapse_edges bb cc es st1 = Some st2" "searching G0 bb st2" "later G0 st1 st2" "\<forall>e \<in> set es. handled G0 cc e st2" by blast
  then show ?case using 1 later_trans [OF 1(3) 2(3)] handled_later [OF 1(4) 2(3)] by simp
qed

text \<open>One turn of the outer loop expands the block it takes from the queue.\<close>

lemma expanded_queue: "expanded G0 c (Q, V, exits, G) = expanded G0 c (Q', V, exits, G)"
  by (simp add: expanded_def)

lemma search_first_test:
  assumes s: "searching G0 bb (cc # Q, V, exits, G)"
  obtains exits1 G1 where "(if outgoing_edges (bbs G ! cc) = [] then add_exit bb cc (exits, G) else Some (exits, G)) = Some (exits1, G1)"
    "searching G0 bb (Q, V, exits1, G1)" "later G0 (Q, V, exits, G) (Q, V, exits1, G1)"
    "outgoing_edges (bbs G0 ! cc) = [] \<Longrightarrow> cc \<in> set exits1"
proof -
  have c: "collapsing G0 G" "bb \<in> collapsed G0" "(internal G0)\<^sup>*\<^sup>* bb cc" using s by (auto simp: searching_def)
  note D = collapsing_D [OF c(1)]
  have n: "outgoing_edges (bbs G ! cc) = [] \<longleftrightarrow> outgoing_edges (bbs G0 ! cc) = []"
    by (rule collapsing_out_Nil [OF c(1) internals_less [OF c(3) D(1) collapsed_less [OF D(1) c(2)]]])
  have s': "searching G0 bb (Q, V, exits, G)" and cc: "cc \<in> set V" using s by (auto simp: searching_def)
  show ?thesis
  proof (cases "outgoing_edges (bbs G ! cc) = []")
    case True
    from add_exit_step [OF s' cc] True n obtain exits1 G1 where
      "add_exit bb cc (exits, G) = Some (exits1, G1)" "searching G0 bb (Q, V, exits1, G1)"
      "later G0 (Q, V, exits, G) (Q, V, exits1, G1)" "cc \<in> set exits1"
      unfolding exit_block_def by metis
    then show ?thesis using that True by simp
  next
    case False
    then show ?thesis using that [of exits G] s' n by simp
  qed
qed

lemma search_turn:
  assumes s: "searching G0 bb (cc # Q, V, exits, G)" and inv: "\<forall>c \<in> set V. c \<in> set (cc # Q) \<or> expanded G0 c (cc # Q, V, exits, G)"
  obtains Q' V' exits' G' where "collapse_search bb (cc # Q, V, exits, G) = collapse_search bb (Q', V', exits', G')"
    "searching G0 bb (Q', V', exits', G')" "later G0 (Q, V, exits, G) (Q', V', exits', G')"
    "\<forall>c \<in> set V'. c \<in> set Q' \<or> expanded G0 c (Q', V', exits', G')"
proof -
  from search_first_test [OF s] obtain exits1 G1 where
    1: "(if outgoing_edges (bbs G ! cc) = [] then add_exit bb cc (exits, G) else Some (exits, G)) = Some (exits1, G1)"
      "searching G0 bb (Q, V, exits1, G1)" "later G0 (Q, V, exits, G) (Q, V, exits1, G1)"
      "outgoing_edges (bbs G0 ! cc) = [] \<Longrightarrow> cc \<in> set exits1" by blast
  have c: "collapsing G0 G1" "bb \<in> collapsed G0" and r: "\<And>c. c \<in> set V \<Longrightarrow> (internal G0)\<^sup>*\<^sup>* bb c" and cc: "cc \<in> set V"
    using 1(2) s by (auto simp: searching_def)
  note D = collapsing_D [OF c(1)]
  have less: "c < length (bbs G0)" if "c \<in> set V" for c by (rule internals_less [OF r [OF that] D(1) collapsed_less [OF D(1) c(2)]])
  have "edges_of G0 cc (outgoing_edges (bbs G1 ! cc)) (Q, V, exits1, G1)"
    using cc out_less [OF D(3), of cc] less [OF cc] D(5) D(9) [OF less [OF cc]] by (auto simp: edges_of_def)
  from collapse_edges_step [OF 1(2) this] obtain Q' V' exits' G' where
    2: "collapse_edges bb cc (outgoing_edges (bbs G1 ! cc)) (Q, V, exits1, G1) = Some (Q', V', exits', G')"
      "searching G0 bb (Q', V', exits', G')" "later G0 (Q, V, exits1, G1) (Q', V', exits', G')"
      "\<forall>e \<in> set (outgoing_edges (bbs G1 ! cc)). handled G0 cc e (Q', V', exits', G')" by (metis prod.collapse)
  have "\<forall>e \<in> set (outgoing_edges (bbs G0 ! cc)). e < length (edges G0) \<and> handled G0 cc e (Q', V', exits', G')"
    using 2(4) D(9) [OF less [OF cc]] by auto
  then have "expanded G0 cc (Q', V', exits', G')"
    using 1(4) 2(3) by (auto simp: expanded_def handled_def exit_block_def internal_edge_def later_def split: if_splits)
  moreover have "expanded G0 c (Q', V', exits', G')" if "expanded G0 c (cc # Q, V, exits, G)" "c \<in> set V" for c
    using expanded_later [OF _ later_trans [OF 1(3) 2(3)] D(1) less [OF that(2)]] that(1) expanded_queue by blast
  ultimately have "\<forall>c \<in> set V'. c \<in> set Q' \<or> expanded G0 c (Q', V', exits', G')"
    using inv 2(3) by (auto simp: later_def)
  moreover have "collapse_search bb (cc # Q, V, exits, G) = collapse_search bb (Q', V', exits', G')"
    by (subst collapse_search.simps) (simp add: 1(1) 2(1))
  ultimately show ?thesis using that 2(2) later_trans [OF 1(3) 2(3)] by blast
qed

lemma collapse_search_ends:
  assumes "searching G0 bb st" "case st of (Q, V, exits, G) \<Rightarrow> \<forall>c \<in> set V. c \<in> set Q \<or> expanded G0 c st"
  shows "\<exists>V exits G'. collapse_search bb st = Some G' \<and> searching G0 bb ([], V, exits, G') \<and> set (fst (snd st)) \<subseteq> set V \<and>
    (\<forall>c \<in> set V. expanded G0 c ([], V, exits, G')) \<and> gains G0 (snd (snd (snd st))) G'"
  using assms
proof (induction "length (fst st) + (length (bbs G0) - card (set (fst (snd st))))" arbitrary: st rule: less_induct)
  case less
  obtain Q V exits G where st: "st = (Q, V, exits, G)" by (cases st)
  show ?case
  proof (cases Q)
    case Nil
    then show ?thesis using less.prems by (subst collapse_search.simps) (auto simp: st)
  next
    case (Cons cc R)
    obtain Q' V' exits' G' where t: "collapse_search bb st = collapse_search bb (Q', V', exits', G')"
      "searching G0 bb (Q', V', exits', G')" "later G0 (R, V, exits, G) (Q', V', exits', G')"
      "\<forall>c \<in> set V'. c \<in> set Q' \<or> expanded G0 c (Q', V', exits', G')"
      using search_turn [OF less.prems(1) [unfolded st Cons]] less.prems(2) unfolding st Cons prod.case by metis
    have c: "collapsing G0 G'" "bb \<in> collapsed G0" and r: "\<And>c. c \<in> set V' \<Longrightarrow> (internal G0)\<^sup>*\<^sup>* bb c"
      using t(2) by (auto simp: searching_def)
    note wf = collapsing_D(1) [OF c(1)]
    have "set V' \<subseteq> {..<length (bbs G0)}" using internals_less [OF r wf collapsed_less [OF wf c(2)]] by auto
    then have "card (set V') \<le> length (bbs G0)" using card_mono [of "{..<length (bbs G0)}"] by simp
    moreover have "length Q' + card (set V) = length R + card (set V')" "card (set V) \<le> card (set V')"
      using t(3) by (simp_all add: later_def card_mono)
    ultimately have m: "length (fst (Q', V', exits', G')) + (length (bbs G0) - card (set (fst (snd (Q', V', exits', G')))))
        < length (fst st) + (length (bbs G0) - card (set (fst (snd st))))"
      by (simp add: st Cons)
    have q: "case (Q', V', exits', G') of (Q, V, exits, G) \<Rightarrow> \<forall>c \<in> set V. c \<in> set Q \<or> expanded G0 c (Q', V', exits', G')"
      using t(4) by (simp only: prod.case)
    obtain W exits'' G'' where w: "collapse_search bb (Q', V', exits', G') = Some G''" "searching G0 bb ([], W, exits'', G'')" "set V' \<subseteq> set W"
        "\<forall>c \<in> set W. expanded G0 c ([], W, exits'', G'')" "gains G0 G' G''"
      using less.hyps [OF m t(2) q] unfolding fst_conv snd_conv by (elim exE conjE)
    have l: "set V \<subseteq> set V'" "gains G0 G G'" using t(3) by (simp_all add: later_def)
    show ?thesis
      by (rule exI [of _ W], rule exI [of _ exits''], rule exI [of _ G''])
        (use t(1) w l subset_trans [OF l(1) w(3)] gains_trans [OF l(2) w(5)] in \<open>simp add: st\<close>)
  qed
qed

section \<open>The whole graph\<close>

text \<open>The search from \<open>bb\<close> finds every exit it reaches and hides every internal edge on the way.\<close>

definition finished :: "cfg \<Rightarrow> nat \<Rightarrow> cfg \<Rightarrow> bool" where
  "finished G0 b G \<longleftrightarrow> (\<forall>c. (internal G0)\<^sup>*\<^sup>* b c \<longrightarrow>
     (exit_block G0 c \<and> b \<noteq> c \<longrightarrow> fastpath G b c) \<and>
     (\<forall>e \<in> set (outgoing_edges (bbs G0 ! c)). internal_edge G0 e \<longrightarrow> edge_is_hidden (edges G ! e)))"

lemma finished_gains:
  assumes "finished G0 b G" "gains G0 G G'" "wf_cfg G0" "b < length (bbs G0)"
  shows "finished G0 b G'"
proof -
  have "e < length (edges G0)" if "(internal G0)\<^sup>*\<^sup>* b c" "e \<in> set (outgoing_edges (bbs G0 ! c))" for c e
    using out_less [OF assms(3) internals_less [OF that(1) assms(3,4)] that(2)] by simp
  then show ?thesis using assms(1,2,4) by (auto simp: finished_def gains_def)
qed

lemma collapse_search_finishes:
  assumes c: "collapsing G0 G" and b: "bb \<in> collapsed G0"
  shows "\<exists>G'. collapse_search bb ([bb], [bb], [], G) = Some G' \<and> collapsing G0 G' \<and> gains G0 G G' \<and> finished G0 bb G'"
proof -
  have s: "searching G0 bb ([bb], [bb], [], G)" using c b by (simp add: searching_def)
  from collapse_search_ends [OF s] obtain V exits G' where
    e: "collapse_search bb ([bb], [bb], [], G) = Some G'" "searching G0 bb ([], V, exits, G')" "bb \<in> set V"
      "\<forall>c \<in> set V. expanded G0 c ([], V, exits, G')" "gains G0 G G'" by auto
  have "c \<in> set V" if "(internal G0)\<^sup>*\<^sup>* bb c" for c
    using that by (induction rule: rtranclp_induct) (use e(3,4) in \<open>auto simp: expanded_def internal_def\<close>)
  then have "finished G0 bb G'" using e(2,4) unfolding finished_def expanded_def searching_def by auto
  then show ?thesis using e by (auto simp: searching_def)
qed

lemma collapse_blocks_finishes:
  assumes "collapsing G0 G" "set bs \<subseteq> collapsed G0"
  shows "\<exists>G'. collapse_blocks bs G = Some G' \<and> collapsing G0 G' \<and> gains G0 G G' \<and> (\<forall>b \<in> set bs. finished G0 b G')"
  using assms
proof (induction bs arbitrary: G)
  case (Cons b bs)
  from collapse_search_finishes [OF Cons.prems(1), of b] Cons.prems(2) obtain G1 where
    1: "collapse_search b ([b], [b], [], G) = Some G1" "collapsing G0 G1" "gains G0 G G1" "finished G0 b G1" by auto
  from Cons.IH [OF 1(2)] Cons.prems(2) obtain G2 where
    2: "collapse_blocks bs G1 = Some G2" "collapsing G0 G2" "gains G0 G1 G2" "\<forall>b \<in> set bs. finished G0 b G2" by auto
  have wf: "wf_cfg G0" using collapsing_D(1) [OF 1(2)] .
  have "finished G0 b G2" by (rule finished_gains [OF 1(4) 2(3) wf collapsed_less [OF wf]]) (use Cons.prems(2) in simp)
  then show ?case using 1 2 gains_trans [OF 1(3) 2(3)] by simp
qed simp

lemma collapse_functions_finishes:
  assumes "collapsing G0 G" "set fs \<subseteq> set (addr2fn G0)"
  shows "\<exists>G'. collapse_functions fs G = Some G' \<and> collapsing G0 G' \<and> gains G0 G G' \<and>
    (\<forall>(a, f) \<in> set fs. \<not> is_plt (fns G0 ! f) \<and> \<not> is_lib_dummy (fns G0 ! f) \<longrightarrow> (\<forall>b \<in> set (basic_blocks (fns G0 ! f)). finished G0 b G'))"
  using assms
proof (induction fs arbitrary: G)
  case (Cons p fs)
  obtain a f where p: "p = (a, f)" by (cases p)
  let ?skip = "is_plt (fns G0 ! f) \<or> is_lib_dummy (fns G0 ! f)"
  have fn: "fns G = fns G0" using collapsing_D(6) [OF Cons.prems(1)] .
  have sub: "\<not> ?skip \<Longrightarrow> set (basic_blocks (fns G0 ! f)) \<subseteq> collapsed G0" using Cons.prems(2) by (auto simp: p collapsed_def)
  obtain G1 where 1: "collapse_function f G = Some G1" "collapsing G0 G1" "gains G0 G G1"
    "\<not> ?skip \<Longrightarrow> \<forall>b \<in> set (basic_blocks (fns G0 ! f)). finished G0 b G1"
    using collapse_blocks_finishes [OF Cons.prems(1), of "rev (basic_blocks (fns G0 ! f))"] sub Cons.prems(1)
    by (cases ?skip) (auto simp: collapse_function_def fn)
  from Cons.IH [OF 1(2)] Cons.prems(2) obtain G2 where
    2: "collapse_functions fs G1 = Some G2" "collapsing G0 G2" "gains G0 G1 G2"
      "\<forall>(a, f) \<in> set fs. \<not> is_plt (fns G0 ! f) \<and> \<not> is_lib_dummy (fns G0 ! f) \<longrightarrow> (\<forall>b \<in> set (basic_blocks (fns G0 ! f)). finished G0 b G2)"
    by auto
  have wf: "wf_cfg G0" using collapsing_D(1) [OF 1(2)] .
  have "\<not> ?skip \<Longrightarrow> \<forall>b \<in> set (basic_blocks (fns G0 ! f)). finished G0 b G2"
    using finished_gains [OF _ 2(3) wf collapsed_less [OF wf]] 1(4) sub by blast
  then show ?case using 1 2 gains_trans [OF 1(3) 2(3)] by (simp add: p)
qed simp

lemma hidden_self: "\<exists>h. x = (x::arms_edge)\<lparr>e_hidden := h\<rparr>"
  by (rule exI [of _ "e_hidden x"]) simp

lemma collapsing_start: "wf_cfg G \<Longrightarrow> fresh G \<Longrightarrow> addressed (searched G) G \<Longrightarrow> collapsing G G"
  using out_less [of G] by (auto simp: collapsing_def fresh_def edge_is_hidden_def hidden_self)

lemma simplify_cfg_finishes:
  assumes "wf_cfg G" "fresh G" "addressed (searched G) G"
  obtains G' where "simplify_cfg G = Some G'" "collapsing G G'" "\<forall>b \<in> collapsed G. finished G b G'"
proof -
  from collapse_functions_finishes [OF collapsing_start [OF assms], of "addr2fn G"] obtain G' where
    G': "collapse_functions (addr2fn G) G = Some G'" "collapsing G G'"
      "\<forall>(a, f) \<in> set (addr2fn G). \<not> is_plt (fns G ! f) \<and> \<not> is_lib_dummy (fns G ! f) \<longrightarrow> (\<forall>b \<in> set (basic_blocks (fns G ! f)). finished G b G')"
    by auto
  have "\<forall>b \<in> collapsed G. finished G b G'" using G'(3) by (auto simp: collapsed_def)
  then show ?thesis using that G' by (simp add: simplify_cfg_def)
qed

lemma collapsing_fastpath_iff:
  assumes c: "collapsing G0 G" and b: "b \<in> collapsed G0" and f: "finished G0 b G"
  shows "fastpath G b c \<longleftrightarrow> b \<noteq> c \<and> (internal G0)\<^sup>*\<^sup>* b c \<and> exit_block G0 c"
proof
  note D = collapsing_D [OF c]
  assume "fastpath G b c"
  then obtain e where e: "e \<in> set (outgoing_edges (bbs G ! b))" "edge_is_fastpath (edges G ! e)" "e_target (edges G ! e) = c"
    by (auto simp: fastpath_def)
  have l: "e < length (edges G)" "e_source (edges G ! e) = b" using out_less [OF D(3) _ e(1)] collapsed_less [OF D(1) b] D(5) by auto
  have "\<not> e < length (edges G0)" using collapsing_kind(1) [OF c] e(2) by blast
  then show "b \<noteq> c \<and> (internal G0)\<^sup>*\<^sup>* b c \<and> exit_block G0 c" using D(10) [OF l(1)] l e by (auto simp: good_fastpath_def)
next
  assume "b \<noteq> c \<and> (internal G0)\<^sup>*\<^sup>* b c \<and> exit_block G0 c"
  then show "fastpath G b c" using f by (auto simp: finished_def)
qed

lemma collapsing_hidden_iff:
  assumes c: "collapsing G0 G" and f: "\<forall>b \<in> collapsed G0. finished G0 b G" and b: "b < length (bbs G0)"
    and e: "e \<in> set (outgoing_edges (bbs G0 ! b))"
  shows "edge_is_hidden (edges G ! e) \<longleftrightarrow> internal_edge G0 e \<and> b \<in> searched G0"
proof -
  note o = out_less [OF collapsing_D(1) [OF c] b e]
  show ?thesis
    using collapsing_D(11) [OF c, of e] o f e by (auto simp: searched_def finished_def)
qed

text \<open>
  C16: Collapsing ends without a failed assertion, keeps the graph well formed, and
  does what it promises: a block of a collapsed function has a fastpath to exactly
  the exit blocks it reaches along internal edges, and the edges that are hidden are
  exactly the internal edges on those ways.
\<close>
theorem simplify_cfg_exact:
  assumes "wf_cfg G" "fresh G" "addressed (searched G) G"
  shows "\<exists>G'. simplify_cfg G = Some G' \<and> wf_cfg G' \<and>
    (\<forall>b \<in> collapsed G. \<forall>c. fastpath G' b c \<longleftrightarrow> b \<noteq> c \<and> (internal G)\<^sup>*\<^sup>* b c \<and> exit_block G c) \<and>
    (\<forall>b < length (bbs G). \<forall>e \<in> set (outgoing_edges (bbs G ! b)).
       edge_is_hidden (edges G' ! e) \<longleftrightarrow> internal_edge G e \<and> b \<in> searched G)"
proof -
  from simplify_cfg_finishes [OF assms] obtain G' where
    G': "simplify_cfg G = Some G'" "collapsing G G'" "\<forall>b \<in> collapsed G. finished G b G'" .
  then show ?thesis
    using collapsing_D(3) [OF G'(2)] collapsing_fastpath_iff [OF G'(2)] collapsing_hidden_iff [OF G'(2,3)] by blast
qed

section \<open>The same traces\<close>

text \<open>
  A block that is entered from a collapsed function along an internal edge, and has
  internal edges itself, belongs to a collapsed function.
\<close>

definition sealed :: "cfg \<Rightarrow> bool" where
  "sealed G \<longleftrightarrow> (\<forall>b c d. b \<in> collapsed G \<longrightarrow> internal G b c \<longrightarrow> internal G c d \<longrightarrow> c \<in> collapsed G)"

lemma sealed_searched: "(internal G)\<^sup>*\<^sup>* b c \<Longrightarrow> b \<in> collapsed G \<Longrightarrow> sealed G \<Longrightarrow> internal G c d \<Longrightarrow> c \<in> collapsed G"
  by (induction arbitrary: d rule: rtranclp_induct) (auto simp: sealed_def)

lemma fresh_silent:
  assumes "wf_cfg G" "fresh G" "b < length (bbs G)"
  shows "silent G b c \<longleftrightarrow> internal G b c"
proof -
  have "\<not> edge_is_fastpath (edges G ! e) \<and> \<not> edge_is_hidden (edges G ! e)" if "e \<in> set (outgoing_edges (bbs G ! b))" for e
    using out_less [OF assms(1,3) that] assms(2) by (simp add: fresh_def)
  then show ?thesis by (auto simp: silent_def internal_def internal_edge_def exit_is_recorded)
qed

lemma fresh_silents:
  assumes "wf_cfg G" "fresh G" "b < length (bbs G)"
  shows "(silent G)\<^sup>*\<^sup>* b c \<longleftrightarrow> (internal G)\<^sup>*\<^sup>* b c"
proof
  show "(silent G)\<^sup>*\<^sup>* b c" if "(internal G)\<^sup>*\<^sup>* b c"
    using that
  proof (induction rule: rtranclp_induct)
    case (step c d)
    then show ?case using fresh_silent [OF assms(1,2) internals_less [OF step(1) assms(1,3)]] by (meson rtranclp.rtrancl_into_rtrancl)
  qed simp
  show "(internal G)\<^sup>*\<^sup>* b c" if "(silent G)\<^sup>*\<^sup>* b c"
    using that
  proof (induction rule: rtranclp_induct)
    case (step c d)
    then show ?case using fresh_silent [OF assms(1,2) internals_less [OF step(3) assms(1,3)]] by (meson rtranclp.rtrancl_into_rtrancl)
  qed simp
qed

lemma collapsing_silent:
  assumes c: "collapsing G0 G" and b: "b < length (bbs G0)" and s: "silent G b d"
  shows "(internal G0)\<^sup>*\<^sup>* b d"
proof -
  note D = collapsing_D [OF c]
  obtain f where f: "f \<in> set (outgoing_edges (bbs G ! b))" "\<not> vis G f" "e_target (edges G ! f) = d" using s by (auto simp: silent_def)
  have o: "f < length (edges G)" "e_source (edges G ! f) = b" using out_less [OF D(3) _ f(1)] b D(5) by auto
  show ?thesis
  proof (cases "f < length (edges G0)")
    case True
    then have "internal_edge G0 f" "f \<in> set (outgoing_edges (bbs G0 ! b))"
      using f(1,2) collapsing_kind [OF c True] exit_is_recorded [of G f] D(9) [OF b] by auto
    then have "internal G0 b d" using f(3) collapsing_edge(2) [OF c True] by (auto simp: internal_def)
    then show ?thesis by blast
  next
    case False
    then show ?thesis using D(10) [OF o(1)] o(2) f(3) by (simp add: good_fastpath_def)
  qed
qed

lemma collapsing_silents:
  assumes "collapsing G0 G" "b < length (bbs G0)" "(silent G)\<^sup>*\<^sup>* b d"
  shows "(internal G0)\<^sup>*\<^sup>* b d"
  using assms(3)
proof (induction rule: rtranclp_induct)
  case (step c d)
  have "c < length (bbs G0)" by (rule internals_less [OF step(3) collapsing_D(1) [OF assms(1)] assms(2)])
  from collapsing_silent [OF assms(1) this step(2)] step(3) show ?case by (rule rtranclp_trans [rotated])
qed simp

text \<open>The converse, for the ways that end at an exit.\<close>

lemma collapsing_reaches_exit:
  assumes c: "collapsing G0 G" and f: "\<forall>b \<in> collapsed G0. finished G0 b G" and seal: "sealed G0" and x: "exit_block G0 d"
  shows "(internal G0)\<^sup>*\<^sup>* b d \<Longrightarrow> b < length (bbs G0) \<Longrightarrow> (silent G)\<^sup>*\<^sup>* b d"
proof (induction rule: converse_rtranclp_induct)
  case (step b c1)
  note D = collapsing_D [OF c]
  show ?case
  proof (cases "b \<in> collapsed G0 \<and> b \<noteq> d")
    case True
    have "(internal G0)\<^sup>*\<^sup>* b d" using step(1,2) by (rule converse_rtranclp_into_rtranclp)
    then have "fastpath G b d" using f True x by (simp add: finished_def)
    then obtain e where e: "e \<in> set (outgoing_edges (bbs G ! b))" "edge_is_fastpath (edges G ! e)" "e_target (edges G ! e) = d"
      by (auto simp: fastpath_def)
    have "e < length (edges G)" "\<not> e < length (edges G0)"
      using out_less [OF D(3) _ e(1)] step(4) D(5) collapsing_kind(1) [OF c] e(2) by auto
    then have "\<not> edge_is_hidden (edges G ! e)" using D(10) by (simp add: good_fastpath_def)
    then have "silent G b d" using e exit_is_recorded [of G e] by (auto simp: silent_def edge_kind_defs)
    then show ?thesis by blast
  next
    case False
    obtain e where e: "e \<in> set (outgoing_edges (bbs G0 ! b))" "internal_edge G0 e" "e_target (edges G0 ! e) = c1"
      using step(1) by (auto simp: internal_def)
    have l: "e < length (edges G0)" using out_less [OF D(1) step(4) e(1)] by simp
    show ?thesis
    proof (cases "b = d")
      case ne: False
      have "b \<notin> searched G0" using sealed_searched [OF _ _ seal step(1)] False ne by (auto simp: searched_def)
      then have "\<not> edge_is_hidden (edges G ! e)" using collapsing_hidden_iff [OF c f step(4) e(1)] by simp
      then have "silent G b c1"
        using e collapsing_kind [OF c l] collapsing_edge(2) [OF c l] exit_is_recorded [of G e] D(9) [OF step(4)] by (auto simp: silent_def)
      then show ?thesis using step(3) internal_less [OF D(1) step(4,1)] by (meson converse_rtranclp_into_rtranclp)
    qed simp
  qed
qed simp

lemma collapsing_recorded:
  assumes c: "collapsing G0 G" and b: "b < length (bbs G0)" and f: "f < length (edges G0)"
  shows "f \<in> set (outgoing_edges (bbs G ! b)) \<and> \<not> edge_is_hidden (edges G ! f) \<and> vis G f \<longleftrightarrow>
    f \<in> set (outgoing_edges (bbs G0 ! b)) \<and> \<not> edge_is_hidden (edges G0 ! f) \<and> vis G0 f"
proof -
  note D = collapsing_D [OF c]
  have "vis G f \<longleftrightarrow> vis G0 f" using collapsing_kind(2) [OF c f] by (simp add: exit_is_recorded)
  moreover have "f \<in> set (outgoing_edges (bbs G ! b)) \<longleftrightarrow> f \<in> set (outgoing_edges (bbs G0 ! b))" using D(9) [OF b] f by auto
  moreover have "\<not> edge_is_hidden (edges G ! f)" if "vis G0 f"
    using D(11) [OF f] that collapsing_kind(3) [OF c f] by (auto simp: exit_is_recorded)
  moreover have "\<not> edge_is_hidden (edges G0 ! f)" using D(2) f by (simp add: fresh_def)
  ultimately show ?thesis by blast
qed

lemma collapsing_traces:
  assumes c: "collapsing G0 G" and f: "\<forall>b \<in> collapsed G0. finished G0 b G" and seal: "sealed G0"
  shows "b < length (bbs G0) \<Longrightarrow> \<forall>g \<in> set fs. g < length (edges G0) \<Longrightarrow> reaches G b fs \<longleftrightarrow> reaches G0 b fs"
proof (induction fs arbitrary: b)
  case (Cons g fs)
  note D = collapsing_D [OF c]
  have g: "g < length (edges G0)" using Cons.prems by simp
  have t: "e_target (edges G0 ! g) < length (bbs G0)" using wf_edge [OF D(1) g] by (simp add: edge_ok_def)
  have "(\<exists>d. (silent G)\<^sup>*\<^sup>* b d \<and> g \<in> set (outgoing_edges (bbs G ! d)) \<and> \<not> edge_is_hidden (edges G ! g) \<and> vis G g) \<longleftrightarrow>
      (\<exists>d. (silent G0)\<^sup>*\<^sup>* b d \<and> g \<in> set (outgoing_edges (bbs G0 ! d)) \<and> \<not> edge_is_hidden (edges G0 ! g) \<and> vis G0 g)" (is "?L \<longleftrightarrow> ?R")
  proof
    assume ?L
    then show ?R
      using collapsing_silents [OF c Cons.prems(1)] collapsing_recorded [OF c _ g] fresh_silents [OF D(1,2) Cons.prems(1)]
        internals_less [OF _ D(1) Cons.prems(1)] by meson
  next
    assume ?R
    then obtain d where d: "(internal G0)\<^sup>*\<^sup>* b d" "g \<in> set (outgoing_edges (bbs G0 ! d))" "\<not> edge_is_hidden (edges G0 ! g)" "vis G0 g"
      using fresh_silents [OF D(1,2) Cons.prems(1)] by blast
    then have "exit_block G0 d" using D(2) g by (auto simp: exit_block_def fresh_def exit_is_recorded)
    then show ?L
      using collapsing_reaches_exit [OF c f seal _ d(1) Cons.prems(1)] collapsing_recorded [OF c internals_less [OF d(1) D(1) Cons.prems(1)] g] d
      by blast
  qed
  then show ?case using Cons.IH [OF t] Cons.prems(2) collapsing_edge(2) [OF c g] by simp
qed simp

text \<open>
  C5: Collapsing does not change what the validator can see.  For every block and
  every sequence of recorded branches of the original graph, the simplified graph
  has a path that takes the branches in order exactly when the original graph has one.
\<close>
theorem simplify_preserves_traces:
  assumes "wf_cfg G" "fresh G" "addressed (searched G) G" "sealed G" "b < length (bbs G)" "\<forall>f \<in> set fs. f < length (edges G)"
  shows "\<exists>G'. simplify_cfg G = Some G' \<and> (reaches G' b fs \<longleftrightarrow> reaches G b fs)"
proof -
  from simplify_cfg_finishes [OF assms(1-3)] obtain G' where
    G': "simplify_cfg G = Some G'" "collapsing G G'" "\<forall>b \<in> collapsed G. finished G b G'" .
  then show ?thesis using collapsing_traces [OF G'(2,3) assms(4-6)] by blast
qed

text \<open>A call still has a block to return to.\<close>

lemma fallthrough_from_None: "fallthrough_from G a is = None \<longleftrightarrow> (\<forall>i \<in> set is. find_bb G (a + of_nat i) = None)"
  by (induction "is") (auto split: option.splits)

lemma collapsing_calls_return:
  assumes c: "collapsing G0 G" and r: "calls_return G0"
  shows "calls_return G"
proof -
  note D = collapsing_D [OF c]
  have "get_fallthrough_bb G (e_source (edges G ! e)) \<noteq> None" if e: "e < length (edges G)" and call: "edge_is_call (edges G ! e)" for e
  proof -
    have l: "e < length (edges G0)" using D(10) [OF e] call by (cases "e < length (edges G0)") (auto simp: good_fastpath_def edge_kind_defs)
    note k = collapsing_edge [OF c l]
    have "e_source (edges G0 ! e) < length (bbs G0)" using wf_edge [OF D(1) l] by (simp add: edge_ok_def)
    moreover have "get_fallthrough_bb G0 (e_source (edges G0 ! e)) \<noteq> None" using r l call k(1) by (auto simp: calls_return_def edge_is_call_def)
    ultimately show ?thesis unfolding get_fallthrough_bb_def fallthrough_from_None k(3) using D(12,13) by metis
  qed
  then show ?thesis by (simp add: calls_return_def)
qed


section \<open>An example\<close>

text \<open>
  A function with a loop over blocks 0 and 1, an indirect call to block 3 at the end
  of block 2, and block 4 after it, which jumps back to the start.
\<close>

definition loop_demo :: cfg where
  "loop_demo = (mk_cfg ''loop'')\<lparr>
     edges := [mk_typed_edge True 0 1 arms_fallthrough, mk_typed_edge True 1 0 arms_cond_taken, mk_typed_edge True 1 2 arms_cond_not_taken,
       mk_typed_edge True 2 3 arms_indirect_call, mk_typed_edge True 4 0 arms_indirect_jmp],
     bbs := [demo_block 0x10 0x12 [1, 4] [0], demo_block 0x17 0x18 [0] [1, 2], demo_block 0x20 0x22 [2] [3],
       demo_block 0x30 0x31 [3] [], demo_block 0x27 0x28 [] [4]],
     fns := [(mk_function 0x10 ''f'')\<lparr>basic_blocks := [0, 1, 2, 3, 4]\<rparr>], addr2fn := [(0x10, 0)],
     start2bb := [(0x10, 0), (0x17, 1), (0x20, 2), (0x27, 4), (0x30, 3)]\<rparr>"

lemma loop_demo_simps:
  "length (edges loop_demo) = 5" "length (bbs loop_demo) = 5"
  "edges loop_demo = [mk_typed_edge True 0 1 arms_fallthrough, mk_typed_edge True 1 0 arms_cond_taken, mk_typed_edge True 1 2 arms_cond_not_taken,
       mk_typed_edge True 2 3 arms_indirect_call, mk_typed_edge True 4 0 arms_indirect_jmp]"
  "map outgoing_edges (bbs loop_demo) = [[0], [1, 2], [3], [], [4]]"
  by (simp_all add: loop_demo_def demo_block_def)

lemma loop_demo_wf: "wf_cfg loop_demo" "fresh loop_demo"
  by (simp_all add: wf_cfg_def loop_demo_def demo_block_def mk_cfg_def mk_bb_def mk_function_def mk_typed_edge_def set_type_def Let_def
      All_less_Suc2 edge_ok_def bb_ok_def map_ok_def fn_ok_def below_def fresh_def edge_is_fastpath_def is_fastpath_def edge_is_hidden_def)

lemma loop_demo_collapsed: "collapsed loop_demo = {0, 1, 2, 3, 4}"
  by (auto simp: collapsed_def loop_demo_def mk_function_def)

lemma loop_demo_sealed: "sealed loop_demo"
proof -
  have "c \<in> collapsed loop_demo" if "b \<in> collapsed loop_demo" "internal loop_demo b c" for b c
    using internal_less [OF loop_demo_wf(1) collapsed_less [OF loop_demo_wf(1) that(1)] that(2)]
    by (auto simp: loop_demo_simps(2) loop_demo_collapsed)
  then show ?thesis by (auto simp: sealed_def)
qed

lemma loop_demo_addressed: "addressed (searched loop_demo) loop_demo"
proof -
  have "addressed {0, 1, 2, 3, 4} loop_demo"
    by (simp add: addressed_def loop_demo_def demo_block_def mk_bb_def find_bb_def)
  moreover have "searched loop_demo \<subseteq> {0, 1, 2, 3, 4}"
  proof
    fix b assume "b \<in> searched loop_demo"
    then have "b < 5" using searched_less [OF loop_demo_wf(1)] by (simp add: loop_demo_simps(2))
    then show "b \<in> {0, 1, 2, 3, 4}" by auto
  qed
  ultimately show ?thesis unfolding addressed_def by (meson inj_on_subset subsetD)
qed

lemma loop_demo_calls: "calls_return loop_demo"
proof -
  have "get_fallthrough_bb loop_demo 2 \<noteq> None"
    by (simp add: loop_demo_def demo_block_def mk_bb_def get_fallthrough_bb_def find_bb_def upt_rec)
  then have "\<forall>x \<in> set (edges loop_demo). edge_is_call x \<longrightarrow> get_fallthrough_bb loop_demo (e_source x) \<noteq> None"
    by (simp add: loop_demo_simps(3) edge_is_call_def)
  then show ?thesis by (simp add: calls_return_def)
qed

lemma loop_demo_way: "(internal loop_demo)\<^sup>*\<^sup>* 0 2" "exit_block loop_demo 2"
proof -
  have o: "outgoing_edges (bbs loop_demo ! 0) = [0]" "outgoing_edges (bbs loop_demo ! 1) = [1, 2]" "outgoing_edges (bbs loop_demo ! 2) = [3]"
    by (simp_all add: loop_demo_def demo_block_def)
  have "internal loop_demo 0 1" "internal loop_demo 1 2"
    unfolding internal_def o by (simp_all add: internal_edge_def loop_demo_simps(3) edge_kind_defs)
  then show "(internal loop_demo)\<^sup>*\<^sup>* 0 2" by (meson rtranclp.rtrancl_into_rtrancl rtranclp.rtrancl_refl)
  show "exit_block loop_demo 2" unfolding exit_block_def o by (simp add: loop_demo_simps(3) edge_kind_defs)
qed

theorem simplify_cfg_exact_witness:
  "wf_cfg loop_demo \<and> fresh loop_demo \<and> addressed (searched loop_demo) loop_demo \<and>
   (\<exists>G'. simplify_cfg loop_demo = Some G' \<and> wf_cfg G' \<and> fastpath G' 0 2 \<and> \<not> fastpath G' 0 0)"
  using simplify_cfg_exact [OF loop_demo_wf loop_demo_addressed] loop_demo_wf loop_demo_addressed loop_demo_way
  by (fastforce simp: loop_demo_collapsed)

lemma loop_demo_reaches: "reaches loop_demo 0 [3]"
proof -
  have "(silent loop_demo)\<^sup>*\<^sup>* 0 2" using fresh_silents [OF loop_demo_wf, of 0 2] loop_demo_way(1) by (simp add: loop_demo_simps(2))
  moreover have "outgoing_edges (bbs loop_demo ! 2) = [3]" by (simp add: loop_demo_def demo_block_def)
  ultimately show ?thesis by (auto simp: loop_demo_simps(3) edge_kind_defs edge_is_hidden_def)
qed

theorem simplify_preserves_traces_witness:
  "sealed loop_demo \<and> (\<exists>G'. simplify_cfg loop_demo = Some G' \<and> reaches G' 0 [3])"
  using simplify_preserves_traces [OF loop_demo_wf loop_demo_addressed loop_demo_sealed, of 0 "[3]"] loop_demo_sealed loop_demo_reaches
  by (simp add: loop_demo_simps(1,2) del: reaches.simps)


end
