(* ===== verification/Cfg_Dummies.thy ===== *)
theory Cfg_Dummies
  imports Jit_Validate Cfg_Simplify
begin

text \<open>
  The edges that stand for what is not in the binary (\<open>add_dummy_shlib_blocks\<close> and
  the functions it calls in \<open>src/dyninst-static/lbr_analysis.C\<close>): a call from the
  callback stub to every function whose address is taken, and the call of
  \<open>main\<close> by the loader, at the address that the file \<open>bin.info\<close> has for it.

  The contents of that file are a parameter, \<open>None\<close> when it cannot be opened.
  \<open>None\<close> as a result is the null pointer, or a failed \<open>assert\<close> of
  \<open>create_and_add_edge\<close>.
\<close>

section \<open>The file with the address of main\<close>

text \<open>\<open>fgets\<close> into a buffer of \<open>n + 1\<close> characters: the line and what is left.\<close>

fun fgets :: "nat \<Rightarrow> string \<Rightarrow> string \<times> string" where
  "fgets 0 s = ([], s)"
| "fgets (Suc n) [] = ([], [])"
| "fgets (Suc n) (c # s) = (if c = CHR 0x0A then ([c], s) else let (l, r) = fgets n s in (c # l, r))"

lemma fgets_shorter: "length (snd (fgets n s)) \<le> length s"
  by (induction n s rule: fgets.induct) (auto split: prod.splits)

lemma fgets_progress: "s \<noteq> [] \<Longrightarrow> length (snd (fgets (Suc n) s)) < length s"
  using fgets_shorter by (cases s) (auto split: prod.splits simp: less_Suc_eq_le, metis snd_conv)

function fgets_lines :: "string \<Rightarrow> string list" where
  "fgets_lines s = (if s = [] then [] else fst (fgets 1023 s) # fgets_lines (snd (fgets 1023 s)))"
  by pat_completeness auto
termination
  using fgets_progress [of _ 1022] by (relation "measure length") (auto simp: eval_nat_numeral)

declare fgets_lines.simps [simp del]

definition parse_bininfo_line :: "string \<Rightarrow> (string \<rightharpoonup> string) \<Rightarrow> (string \<rightharpoonup> string)" where
  "parse_bininfo_line l m =
    (let buf = takeWhile (\<lambda>c. c \<noteq> CHR 0x00) l
     in if (buf \<noteq> [] \<and> hd buf = CHR ''#'') \<or> length buf < 2 then m
        else if CHR ''='' \<notin> set buf then m
        else let key = takeWhile (\<lambda>c. c \<noteq> CHR ''='') buf;
                 val = tl (dropWhile (\<lambda>c. c \<noteq> CHR ''='') buf);
                 val = takeWhile (\<lambda>c. c \<noteq> CHR 0x0D \<and> c \<noteq> CHR 0x0A) val
             in m(key \<mapsto> val))"

definition parse_bininfo_file :: "string option \<Rightarrow> (string \<rightharpoonup> string) option" where
  "parse_bininfo_file f = map_option (\<lambda>s. fold parse_bininfo_line (fgets_lines s) Map.empty) f"

text \<open>\<open>strtoul\<close> with base 0; too large a number gives \<open>ULONG_MAX\<close>.\<close>

fun digits_value :: "int \<Rightarrow> int \<Rightarrow> string \<Rightarrow> int" where
  "digits_value base acc [] = acc"
| "digits_value base acc (c # cs) =
    (case hex_digit c of
       None \<Rightarrow> acc
     | Some d \<Rightarrow> if d < base then digits_value base (base * acc + d) cs else acc)"

definition strtoul0 :: "string \<Rightarrow> u64" where
  "strtoul0 s =
    (let s = dropWhile is_space s;
         neg = (s \<noteq> [] \<and> hd s = CHR ''-'');
         s = (if s \<noteq> [] \<and> (hd s = CHR ''-'' \<or> hd s = CHR ''+'') then tl s else s);
         v = (if skip_0x s \<noteq> s then digits_value 16 0 (skip_0x s)
              else if s \<noteq> [] \<and> hd s = CHR ''0'' then digits_value 8 0 s
              else digits_value 10 0 s)
     in if v \<ge> 2 ^ 64 then - 1 else if neg then - of_int v else of_int v)"

section \<open>The dummy edges\<close>

definition link_dummy_block_to_at_func :: "nat \<Rightarrow> cfg \<Rightarrow> cfg" where
  "link_dummy_block_to_at_func f G =
    (if \<not> addr_taken (fns G ! f) then G
     else let (bb, G) = create_dummy_basic_block_at ADDRESS_TAKEN ADDRESS_TAKEN None G
          in snd (add_typed_edge (last_insn_address (bbs G ! bb)) (base_addr (fns G ! f)) arms_indirect_call False G))"

definition insert_dummy_loader_block :: "u64 \<Rightarrow> cfg \<Rightarrow> cfg option" where
  "insert_dummy_loader_block mainaddr G =
    (let (bb, G) = create_dummy_basic_block_at 0 0 None G
     in case find_bb G mainaddr of
          None \<Rightarrow> None
        | Some cc \<Rightarrow> map_option (\<lambda>(e, G). upd_edge e (\<lambda>x. (set_type arms_indirect_call x)\<lparr>e_intra := False\<rparr>) G)
            (create_and_add_edge_bb bb cc G))"

definition mark_main_function :: "u64 \<Rightarrow> cfg \<Rightarrow> cfg option" where
  "mark_main_function mainaddr G =
    (case find_function G mainaddr of None \<Rightarrow> None | Some f \<Rightarrow> Some (set_is_main f G))"

definition add_dummy_shlib_blocks :: "string option \<Rightarrow> cfg \<Rightarrow> cfg option" where
  "add_dummy_shlib_blocks bininfo G =
    (if is_library G then Some G
     else
       let G = fold (\<lambda>(a, f). link_dummy_block_to_at_func f) (addr2fn G) G
       in case parse_bininfo_file bininfo of
            None \<Rightarrow> None
          | Some infomap \<Rightarrow>
              (case infomap ''addr.func.main'' of
                 None \<Rightarrow> Some G
               | Some v \<Rightarrow>
                   let addr = strtoul0 v
                   in case insert_dummy_loader_block addr G of
                        None \<Rightarrow> None
                      | Some G \<Rightarrow> mark_main_function addr G))"

section \<open>Reading the file back\<close>

definition bininfo_line :: "string \<times> string \<Rightarrow> string" where
  "bininfo_line kv = fst kv @ CHR ''='' # snd kv @ [CHR 0x0A]"

text \<open>An entry that fits the buffer and has no character with a meaning of its own.\<close>

definition plain_entry :: "string \<times> string \<Rightarrow> bool" where
  "plain_entry kv \<longleftrightarrow> {CHR 0x00, CHR 0x0A, CHR 0x0D} \<inter> (set (fst kv) \<union> set (snd kv)) = {} \<and> CHR ''='' \<notin> set (fst kv) \<and>
    (fst kv \<noteq> [] \<longrightarrow> hd (fst kv) \<noteq> CHR ''#'') \<and> length (fst kv) + length (snd kv) < 1022"

lemma fgets_line: "CHR 0x0A \<notin> set l \<Longrightarrow> length l < n \<Longrightarrow> fgets n (l @ CHR 0x0A # r) = (l @ [CHR 0x0A], r)"
proof (induction l arbitrary: n)
  case Nil
  then show ?case by (cases n) simp_all
next
  case (Cons c l)
  then show ?case by (cases n) auto
qed

lemma fgets_lines_concat:
  "\<forall>kv \<in> set kvs. plain_entry kv \<Longrightarrow> fgets_lines (concat (map bininfo_line kvs)) = map bininfo_line kvs"
proof (induction kvs)
  case (Cons kv kvs)
  have "fgets 1023 ((fst kv @ CHR ''='' # snd kv) @ CHR 0x0A # concat (map bininfo_line kvs)) =
      ((fst kv @ CHR ''='' # snd kv) @ [CHR 0x0A], concat (map bininfo_line kvs))"
    by (rule fgets_line) (use Cons.prems in \<open>auto simp: plain_entry_def\<close>)
  then have "fgets 1023 (concat (map bininfo_line (kv # kvs))) = (bininfo_line kv, concat (map bininfo_line kvs))"
    by (simp add: bininfo_line_def)
  moreover have "concat (map bininfo_line (kv # kvs)) \<noteq> []" by (simp add: bininfo_line_def)
  ultimately show ?case using Cons by (subst fgets_lines.simps) simp
qed (simp add: fgets_lines.simps)

lemma parse_plain_line:
  assumes "plain_entry kv"
  shows "parse_bininfo_line (bininfo_line kv) m = m(fst kv \<mapsto> snd kv)"
proof -
  let ?l = "bininfo_line kv"
  have "takeWhile (\<lambda>c. c \<noteq> CHR 0x00) ?l = ?l"
    using assms by (auto simp: takeWhile_eq_all_conv bininfo_line_def plain_entry_def)
  moreover have "hd ?l \<noteq> CHR ''#''" using assms by (cases "fst kv") (auto simp: bininfo_line_def plain_entry_def)
  moreover have "takeWhile (\<lambda>c. c \<noteq> CHR ''='') ?l = fst kv" "dropWhile (\<lambda>c. c \<noteq> CHR ''='') ?l = CHR ''='' # snd kv @ [CHR 0x0A]"
    using assms by (auto simp: bininfo_line_def plain_entry_def takeWhile_append dropWhile_append)
  moreover have "takeWhile (\<lambda>c. c \<noteq> CHR 0x0D \<and> c \<noteq> CHR 0x0A) (snd kv @ [CHR 0x0A]) = snd kv"
    using assms by (auto simp: plain_entry_def takeWhile_append)
  ultimately show ?thesis by (simp add: parse_bininfo_line_def Let_def) (simp add: bininfo_line_def)
qed

lemma parse_lines:
  "\<forall>kv \<in> set kvs. plain_entry kv \<Longrightarrow> fold parse_bininfo_line (map bininfo_line kvs) m = m ++ map_of (rev kvs)"
proof (induction kvs arbitrary: m)
  case (Cons kv kvs)
  then show ?case by (simp add: parse_plain_line)
qed simp

text \<open>The address as \<open>find_main.sh\<close> writes it: \<open>0x\<close> and sixteen digits.\<close>

definition hex_char :: "nat \<Rightarrow> char" where
  "hex_char d = ''0123456789abcdef'' ! d"

fun to_hex :: "nat \<Rightarrow> nat \<Rightarrow> string" where
  "to_hex 0 n = []"
| "to_hex (Suc k) n = to_hex k (n div 16) @ [hex_char (n mod 16)]"

lemma hex_digit_char: "d < 16 \<Longrightarrow> hex_digit (hex_char d) = Some (int d)"
proof -
  have "\<forall>d \<in> set [0..<16]. hex_digit (hex_char d) = Some (int d)" by code_simp
  then show "d < 16 \<Longrightarrow> hex_digit (hex_char d) = Some (int d)" by simp
qed

lemma digits_value_hex:
  "digits_value 16 acc (to_hex k n @ cs) = digits_value 16 (acc * 16 ^ k + int (n mod 16 ^ k)) cs"
proof (induction k arbitrary: n cs)
  case (Suc k)
  have "int n mod (16 * 16 ^ k) = 16 * (int n div 16 mod 16 ^ k) + int n mod 16"
    using zmod_zmult2_eq [of "16 ^ k" "int n" 16] by simp
  then show ?case using Suc by (simp add: hex_digit_char zmod_int zdiv_int algebra_simps)
qed simp

lemma plain_hex: "c \<in> set (to_hex k n) \<Longrightarrow> c \<notin> {CHR 0x00, CHR 0x0A, CHR 0x0D}"
proof (induction k arbitrary: n)
  case (Suc k)
  have "\<forall>d \<in> set [0..<16]. hex_char d \<notin> {CHR 0x00, CHR 0x0A, CHR 0x0D}" by code_simp
  then have "hex_char (n mod 16) \<notin> {CHR 0x00, CHR 0x0A, CHR 0x0D}" by simp
  then show ?case using Suc by (metis Un_iff empty_iff empty_set list.simps(15) set_append singleton_iff to_hex.simps(2))
qed simp

lemma to_hex_Cons: "\<exists>d r. d < 16 \<and> to_hex (Suc k) n = hex_char d # r"
proof (induction k arbitrary: n)
  case (Suc k)
  then show ?case by (metis append_Cons to_hex.simps(2))
qed (auto intro!: exI [of _ "n mod 16" for n])

lemma strtoul0_hex: "strtoul0 (''0x'' @ to_hex 16 (unat a)) = a"
proof -
  have a: "unat a < 2 ^ 64" using unsigned_less [of a] by simp
  obtain d r where r: "to_hex 16 (unat a) = hex_char d # r" "d < 16" using to_hex_Cons [of 15 "unat a"] by auto
  have s: "skip_0x (''0x'' @ to_hex 16 (unat a)) = to_hex 16 (unat a)" by (simp add: skip_0x_def r hex_digit_char)
  have v: "digits_value 16 0 (to_hex 16 (unat a)) = int (unat a)"
    using digits_value_hex [of 0 16 "unat a" "[]"] a by (simp add: mod_less)
  have "int (unat a) < 2 ^ 64" by (metis a of_nat_less_iff of_nat_numeral of_nat_power)
  moreover have "to_hex 16 (unat a) \<noteq> ''0x'' @ to_hex 16 (unat a)" by (metis append_self_conv2 list.distinct(1))
  ultimately show ?thesis using s v by (simp add: strtoul0_def is_space_def)
qed

section \<open>What the dummy edges are for\<close>

text \<open>
  \<open>linked G a b ty\<close>: the block that the validator finds for the source address \<open>a\<close>
  has an edge of type \<open>ty\<close> to a block at \<open>b\<close>.
\<close>

definition linked :: "cfg \<Rightarrow> u64 \<Rightarrow> u64 \<Rightarrow> arms_edge_type_t \<Rightarrow> bool" where
  "linked G a b ty \<longleftrightarrow> (\<exists>s. find_bb_by_last_insn_address G a = Some s \<and> s < length (bbs G) \<and>
    (\<exists>e \<in> set (outgoing_edges (bbs G ! s)). e < length (edges G) \<and> e_type (edges G ! e) = ty \<and>
       e_target (edges G ! e) < length (bbs G) \<and> start_address (bbs G ! e_target (edges G ! e)) = b))"

lemma linked_find_edge: "linked G a b ty \<Longrightarrow> find_edge G a b \<noteq> None"
proof -
  have "find_edge G a b = None \<Longrightarrow> \<not> linked G a b ty" by (auto simp: linked_def find_edge_def find_None_iff)
  then show "linked G a b ty \<Longrightarrow> find_edge G a b \<noteq> None" by blast
qed

text \<open>An operation that keeps the lookup keeps the link.\<close>

lemma linked_extends:
  assumes "linked G a b ty" "extends G G'" "find_bb_by_last_insn_address G' a = find_bb_by_last_insn_address G a"
  shows "linked G' a b ty"
proof -
  from assms(1) obtain s e where s: "find_bb_by_last_insn_address G a = Some s" "s < length (bbs G)" "e \<in> set (outgoing_edges (bbs G ! s))"
    "e < length (edges G)" "e_type (edges G ! e) = ty" "e_target (edges G ! e) < length (bbs G)"
    "start_address (bbs G ! e_target (edges G ! e)) = b" unfolding linked_def by blast
  then show ?thesis using assms(2,3) unfolding linked_def extends_def by (intro exI [of _ s] conjI bexI [of _ e]) auto
qed

lemma find_last_store: "find_bb_by_last_insn_address (store_bb b G) a = (if a = last_insn_address (bbs G ! b) then Some b else find_bb_by_last_insn_address G a)"
  by (simp add: find_bb_by_last_insn_address_def store_bb_def map_of_map_set)

lemma find_or_new_last:
  "find_or_new found b G = (s, G') \<Longrightarrow> a \<noteq> b \<Longrightarrow> find_bb_by_last_insn_address G' a = find_bb_by_last_insn_address G a"
  by (auto simp: find_or_new_def new_bb_def mk_bb_def find_last_store find_bb_by_last_insn_address_def store_bb_def map_of_map_set split: option.splits)

lemma find_or_new_bb: "find_or_new found b G = (s, G') \<Longrightarrow> c \<noteq> b \<or> found \<noteq> None \<Longrightarrow> find_bb G' c = find_bb G c"
  by (auto simp: find_or_new_def new_bb_def mk_bb_def find_bb_def store_bb_def map_of_map_set split: option.splits)

lemma create_and_add_edge_last:
  assumes new: "create_and_add_edge a b G = (e, G')"
  shows "c \<noteq> b \<Longrightarrow> find_bb_by_last_insn_address G c \<noteq> None \<Longrightarrow> find_bb_by_last_insn_address G' c = find_bb_by_last_insn_address G c"
    "a \<noteq> b \<Longrightarrow> find_bb_by_last_insn_address G' a = Some (e_source (edges G' ! e))"
proof -
  obtain s G1 where 1: "find_or_new (find_bb_by_last_insn_address G a) a G = (s, G1)" by fastforce
  obtain t G2 where 2: "find_or_new (find_bb G1 b) b G1 = (t, G2)" by fastforce
  have r: "e = length (edges G2)" "G' = snd (link_edge (mk_edge s t) G2)"
    using new by (auto simp: create_and_add_edge_unfold 1 2 link_edge_unfold)
  have l: "find_bb_by_last_insn_address G' c = find_bb_by_last_insn_address G2 c" for c by (simp add: r find_bb_by_last_insn_address_def)
  have s: "find_bb_by_last_insn_address G1 a = Some s"
    using 1 by (auto simp: find_or_new_def new_bb_def mk_bb_def store_bb_def find_bb_by_last_insn_address_def map_of_map_set split: option.splits)
  show "a \<noteq> b \<Longrightarrow> find_bb_by_last_insn_address G' a = Some (e_source (edges G' ! e))"
    using l find_or_new_last [OF 2] s by (simp add: r)
  show "find_bb_by_last_insn_address G' c = find_bb_by_last_insn_address G c" if "c \<noteq> b" "find_bb_by_last_insn_address G c \<noteq> None"
  proof (cases "c = a")
    case True
    then show ?thesis using l find_or_new_last [OF 2] s 1 that by (auto simp: find_or_new_def split: option.splits)
  next
    case False
    then show ?thesis using l find_or_new_last [OF 2 that(1)] find_or_new_last [OF 1] by simp
  qed
qed

lemma add_typed_edge_linked:
  assumes wf: "wf_cfg G" and new: "add_typed_edge a b ty intra G = (e, G')" and ne: "a \<noteq> b"
  shows "linked G' a b ty"
proof -
  obtain G1 where 1: "create_and_add_edge a b G = (e, G1)" and G': "G' = upd_edge e (\<lambda>x. (set_type ty x)\<lparr>e_intra := intra\<rparr>) G1"
    using new by (auto simp: add_typed_edge_def split: prod.splits)
  obtain s G2 where 2: "find_or_new (find_bb_by_last_insn_address G a) a G = (s, G2)" by fastforce
  obtain t G3 where 3: "find_or_new (find_bb G2 b) b G2 = (t, G3)" by fastforce
  have r: "e = length (edges G3)" "G1 = snd (link_edge (mk_edge s t) G3)"
    using 1 by (auto simp: create_and_add_edge_unfold 2 3 link_edge_unfold)
  have wf2: "wf_cfg G2" "s < length (bbs G2)" using keeps_find_or_new [OF wf _ 2] find_last_ok [OF wf] by (auto simp: keeps_def)
  have wf3: "keeps G2 G3" "t < length (bbs G3)" using keeps_find_or_new [OF wf2(1) _ 3] find_bb_ok [OF wf2(1)] by auto
  have ok: "edge_ok (length (bbs G3)) (mk_edge s t)" using wf2 wf3 extends_bb_less by (auto simp: edge_ok_def keeps_def)
  have j: "joins G' e a b" using add_typed_edge_joins [OF wf new] by simp
  have "find_bb_by_last_insn_address G' a = Some s"
    using create_and_add_edge_last(2) [OF 1 ne] by (simp add: G' r find_bb_by_last_insn_address_def upd_edge_def)
  moreover have "e \<in> set (outgoing_edges (bbs G' ! s))" using link_edge_linked(1) [OF ok] by (simp add: G' r upd_edge_def)
  moreover have "e_type (edges G' ! e) = ty" "s < length (bbs G')" "e_target (edges G' ! e) < length (bbs G')"
    using ok by (simp_all add: G' r upd_edge_def set_type_def Let_def edge_ok_def)
  ultimately show ?thesis using j unfolding linked_def joins_def by blast
qed

lemma add_typed_edge_frame:
  assumes "add_typed_edge a b ty intra G = (e, G')"
  shows "fns G' = fns G" "addr2fn G' = addr2fn G" "c \<noteq> a \<Longrightarrow> c \<noteq> b \<or> find_bb G c \<noteq> None \<Longrightarrow> find_bb G' c = find_bb G c"
    "c \<noteq> b \<Longrightarrow> find_bb_by_last_insn_address G c \<noteq> None \<Longrightarrow> find_bb_by_last_insn_address G' c = find_bb_by_last_insn_address G c"
proof -
  obtain G1 where 1: "create_and_add_edge a b G = (e, G1)" and G': "G' = upd_edge e (\<lambda>x. (set_type ty x)\<lparr>e_intra := intra\<rparr>) G1"
    using assms by (auto simp: add_typed_edge_def split: prod.splits)
  show "fns G' = fns G" "addr2fn G' = addr2fn G"
    using 1 by (auto simp: G' upd_edge_def create_and_add_edge_unfold link_edge_unfold find_or_new_def new_bb_def store_bb_def
        add_incoming_edge_def add_outgoing_edge_def upd_bb_def split: option.splits prod.splits)
  show "find_bb G' c = find_bb G c" if "c \<noteq> a" "c \<noteq> b \<or> find_bb G c \<noteq> None"
  proof -
    obtain s G2 where 2: "find_or_new (find_bb_by_last_insn_address G a) a G = (s, G2)" by fastforce
    obtain t G3 where 3: "find_or_new (find_bb G2 b) b G2 = (t, G3)" by fastforce
    have "G1 = snd (link_edge (mk_edge s t) G3)" using 1 by (simp add: create_and_add_edge_unfold 2 3)
    then have "find_bb G' c = find_bb G3 c" by (simp add: G' upd_edge_def find_bb_def)
    moreover have 4: "find_bb G2 c = find_bb G c" using find_or_new_bb [OF 2] that(1) by blast
    moreover have "find_bb G3 c = find_bb G2 c" using find_or_new_bb [OF 3] that(2) 4 by metis
    ultimately show ?thesis by simp
  qed
  show "find_bb_by_last_insn_address G' c = find_bb_by_last_insn_address G c" if "c \<noteq> b" "find_bb_by_last_insn_address G c \<noteq> None"
    using create_and_add_edge_last(1) [OF 1 that] by (simp add: G' upd_edge_def find_bb_by_last_insn_address_def)
qed

lemma dummy_bb_at_frame:
  assumes "create_dummy_basic_block_at a lim fn G = (b, G')"
  shows "fns G' = fns G" "addr2fn G' = addr2fn G" "find_bb_by_last_insn_address G' = find_bb_by_last_insn_address G" "find_bb G' = find_bb G"
    "last_insn_address (bbs G' ! b) = a" "start_address (bbs G' ! b) = a" "edges G' = edges G"
  using assms by (auto simp: create_dummy_basic_block_at_def Let_def new_bb_def set_is_dummy_def upd_bb_def mk_bb_def
      find_bb_by_last_insn_address_def find_bb_def fun_eq_iff)

lemma link_dummy_step:
  assumes wf: "wf_cfg G" and f: "base_addr (fns G ! f) \<noteq> ADDRESS_TAKEN"
  defines "G' \<equiv> link_dummy_block_to_at_func f G"
  shows "keeps G G'" "fns G' = fns G" "addr2fn G' = addr2fn G" "linked G ADDRESS_TAKEN b ty \<Longrightarrow> linked G' ADDRESS_TAKEN b ty"
    "addr_taken (fns G ! f) \<Longrightarrow> linked G' ADDRESS_TAKEN (base_addr (fns G ! f)) arms_indirect_call"
    "c \<noteq> ADDRESS_TAKEN \<Longrightarrow> c \<noteq> base_addr (fns G ! f) \<or> find_bb G c \<noteq> None \<Longrightarrow> find_bb G' c = find_bb G c"
proof -
  have "keeps G G' \<and> (c \<noteq> ADDRESS_TAKEN \<longrightarrow> c \<noteq> base_addr (fns G ! f) \<or> find_bb G c \<noteq> None \<longrightarrow> find_bb G' c = find_bb G c) \<and> fns G' = fns G \<and> addr2fn G' = addr2fn G \<and> (linked G ADDRESS_TAKEN b ty \<longrightarrow> linked G' ADDRESS_TAKEN b ty) \<and>
    (addr_taken (fns G ! f) \<longrightarrow> linked G' ADDRESS_TAKEN (base_addr (fns G ! f)) arms_indirect_call)"
  proof (cases "addr_taken (fns G ! f)")
    case False
    then show ?thesis by (simp add: G'_def link_dummy_block_to_at_func_def keeps_refl [OF wf])
  next
    case True
    obtain bb G1 where 1: "create_dummy_basic_block_at ADDRESS_TAKEN ADDRESS_TAKEN None G = (bb, G1)" by fastforce
    note fr = dummy_bb_at_frame [OF 1]
    have k1: "keeps G G1" using keeps_dummy_bb_at [OF wf _ 1] by simp
    obtain e G2 where 2: "add_typed_edge ADDRESS_TAKEN (base_addr (fns G ! f)) arms_indirect_call False G1 = (e, G2)" by fastforce
    have G': "G' = G2" using True by (simp add: G'_def link_dummy_block_to_at_func_def 1 fr 2)
    have k2: "keeps G1 G2" using add_typed_edge_joins [OF keeps_wf [OF k1] 2] by simp
    have k: "keeps G G2" by (rule keeps_trans [OF k1 k2])
    have "linked G2 ADDRESS_TAKEN b ty" if l: "linked G ADDRESS_TAKEN b ty"
    proof (rule linked_extends [OF l])
      show "extends G G2" using k by (simp add: keeps_def)
      show "find_bb_by_last_insn_address G2 ADDRESS_TAKEN = find_bb_by_last_insn_address G ADDRESS_TAKEN"
        using add_typed_edge_frame(4) [OF 2, of ADDRESS_TAKEN] f l by (auto simp: fr linked_def)
    qed
    then show ?thesis
      using k add_typed_edge_frame(1-3) [OF 2] add_typed_edge_linked [OF keeps_wf [OF k1] 2] f by (simp add: G' fr)
  qed
  then show "keeps G G'" "fns G' = fns G" "addr2fn G' = addr2fn G" "linked G ADDRESS_TAKEN b ty \<Longrightarrow> linked G' ADDRESS_TAKEN b ty"
    "addr_taken (fns G ! f) \<Longrightarrow> linked G' ADDRESS_TAKEN (base_addr (fns G ! f)) arms_indirect_call"
    "c \<noteq> ADDRESS_TAKEN \<Longrightarrow> c \<noteq> base_addr (fns G ! f) \<or> find_bb G c \<noteq> None \<Longrightarrow> find_bb G' c = find_bb G c" by blast+
qed

lemma link_dummies:
  assumes "wf_cfg G" "\<forall>(a, f) \<in> set fs. base_addr (fns G ! f) \<noteq> ADDRESS_TAKEN"
  defines "G' \<equiv> fold (\<lambda>(a, f). link_dummy_block_to_at_func f) fs G"
  shows "keeps G G' \<and> fns G' = fns G \<and> addr2fn G' = addr2fn G \<and> (\<forall>b ty. linked G ADDRESS_TAKEN b ty \<longrightarrow> linked G' ADDRESS_TAKEN b ty) \<and>
    (\<forall>(a, f) \<in> set fs. addr_taken (fns G ! f) \<longrightarrow> linked G' ADDRESS_TAKEN (base_addr (fns G ! f)) arms_indirect_call) \<and>
    (\<forall>c. c \<noteq> ADDRESS_TAKEN \<longrightarrow> (\<forall>(a, f) \<in> set fs. c \<noteq> base_addr (fns G ! f)) \<or> find_bb G c \<noteq> None \<longrightarrow> find_bb G' c = find_bb G c)"
  using assms(1,2) unfolding G'_def
proof (induction fs arbitrary: G)
  case Nil
  then show ?case by (simp add: keeps_refl)
next
  case (Cons p fs)
  obtain a f where p: "p = (a, f)" by (cases p)
  let ?G1 = "link_dummy_block_to_at_func f G"
  let ?G2 = "fold (\<lambda>(a, f). link_dummy_block_to_at_func f) fs ?G1"
  have f: "base_addr (fns G ! f) \<noteq> ADDRESS_TAKEN" using Cons.prems(2) by (simp add: p)
  note st = link_dummy_step [OF Cons.prems(1) f]
  have "\<forall>(a, f') \<in> set fs. base_addr (fns ?G1 ! f') \<noteq> ADDRESS_TAKEN" using Cons.prems(2) by (simp add: st)
  note ih = Cons.IH [OF keeps_wf [OF st(1)] this, unfolded st(2,3)]
  note ih1 = ih [THEN conjunct1] and ih2 = ih [THEN conjunct2, THEN conjunct1] and ih3 = ih [THEN conjunct2, THEN conjunct2, THEN conjunct1]
    and ih4 = ih [THEN conjunct2, THEN conjunct2, THEN conjunct2, THEN conjunct1]
    and ih5 = ih [THEN conjunct2, THEN conjunct2, THEN conjunct2, THEN conjunct2, THEN conjunct1]
    and ih6 = ih [THEN conjunct2, THEN conjunct2, THEN conjunct2, THEN conjunct2, THEN conjunct2, rule_format]
  have "find_bb ?G2 c = find_bb G c" if c: "c \<noteq> ADDRESS_TAKEN" "(\<forall>(a, f) \<in> set (p # fs). c \<noteq> base_addr (fns G ! f)) \<or> find_bb G c \<noteq> None" for c
  proof -
    have 1: "find_bb ?G1 c = find_bb G c" using st(6) [OF c(1)] c(2) by (auto simp: p)
    then have "(\<forall>(a, f) \<in> set fs. c \<noteq> base_addr (fns G ! f)) \<or> find_bb ?G1 c \<noteq> None" using c(2) by auto
    from ih6 [OF c(1) this] 1 show ?thesis by simp
  qed
  moreover have "keeps G ?G2" by (rule keeps_trans [OF st(1) ih1])
  moreover have "linked ?G2 ADDRESS_TAKEN b ty" if "linked G ADDRESS_TAKEN b ty" for b ty using ih4 st(4) [OF that] by blast
  moreover have "addr_taken (fns G ! f) \<longrightarrow> linked ?G2 ADDRESS_TAKEN (base_addr (fns G ! f)) arms_indirect_call" using ih4 st(5) by blast
  ultimately show ?case using ih2 ih3 ih5 by (simp add: p)
qed

lemma insert_dummy_loader_linked:
  assumes wf: "wf_cfg G" and m: "find_bb G m = Some c" and z: "find_bb G 0 = None"
  shows "\<exists>G'. insert_dummy_loader_block m G = Some G' \<and> keeps G G' \<and> fns G' = fns G \<and> addr2fn G' = addr2fn G \<and> linked G' 0 m arms_indirect_call \<and>
    (\<forall>a b ty. a \<noteq> 0 \<longrightarrow> linked G a b ty \<longrightarrow> linked G' a b ty)"
proof -
  obtain bb G1 where 1: "create_dummy_basic_block_at 0 0 None G = (bb, G1)" by fastforce
  note fr = dummy_bb_at_frame [OF 1]
  have k1: "keeps G G1" and bb: "bb < length (bbs G1)" using keeps_dummy_bb_at [OF wf _ 1] by simp_all
  have c: "c < length (bbs G1)" "start_address (bbs G1 ! c) = m" using find_bb_ok [OF keeps_wf [OF k1], of m c] m by (simp_all add: fr)
  have m0: "m \<noteq> 0" using m z by auto
  let ?G2 = "store_bb bb G1"
  let ?G3 = "snd (link_edge (mk_edge bb c) ?G2)"
  let ?t = "\<lambda>x. (set_type arms_indirect_call x)\<lparr>e_intra := False\<rparr>"
  have same: "bbs ?G2 = bbs G1" "edges ?G2 = edges G1" "fns ?G2 = fns G1" "addr2fn ?G2 = addr2fn G1" by (simp_all add: store_bb_def)
  have new: "create_and_add_edge_bb bb c G1 = Some (length (edges G1), ?G3)"
    using z m m0 c fr(4,6) by (simp add: create_and_add_edge_bb_def Let_def find_bb_store same link_edge_unfold)
  have k3: "keeps G1 ?G3" "edges ?G3 = edges G1 @ [mk_edge bb c]"
    using keeps_create_and_add_edge_bb [OF keeps_wf [OF k1] bb c(1) new] by simp_all
  let ?G4 = "upd_edge (length (edges G1)) ?t ?G3"
  have "wf_cfg ?G4" by (rule wf_upd_edge [OF keeps_wf [OF k3(1)]]) (simp_all add: k3(2) same set_type_def Let_def)
  moreover have "extends G1 ?G4" using k3 by (simp add: keeps_def extends_def upd_edge_def nth_append)
  ultimately have k4: "keeps G1 ?G4" by (simp add: keeps_def)
  have ok: "edge_ok (length (bbs ?G2)) (mk_edge bb c)" using bb c by (simp add: edge_ok_def same)
  have last4: "find_bb_by_last_insn_address ?G4 a = (if a = 0 then Some bb else find_bb_by_last_insn_address G a)" for a
    using find_last_store [of bb G1 a] by (simp add: upd_edge_def find_bb_by_last_insn_address_def fr(5) fr(3) [unfolded find_bb_by_last_insn_address_def, THEN fun_cong])
  have b4: "start_address (bbs ?G4 ! c) = m" using k4 c by (simp add: keeps_def extends_def)
  have e4: "edges ?G4 ! length (edges G1) = ?t (mk_edge bb c)" by (simp add: upd_edge_def k3(2) same)
  have "linked ?G4 0 m arms_indirect_call"
    unfolding linked_def last4
    using link_edge_linked(1) [OF ok] bb c b4 e4 k3(2) by (auto simp: upd_edge_def same set_type_def Let_def intro!: bexI [of _ "length (edges G1)"])
  moreover have "insert_dummy_loader_block m G = Some ?G4" by (simp add: insert_dummy_loader_block_def 1 fr m new)
  moreover have "keeps G ?G4" by (rule keeps_trans [OF k1 k4])
  moreover have "linked ?G4 a b ty" if "a \<noteq> 0" "linked G a b ty" for a b ty
    by (rule linked_extends [OF that(2)]) (use \<open>keeps G ?G4\<close> last4 that(1) in \<open>simp_all add: keeps_def\<close>)
  ultimately show ?thesis by (simp add: upd_edge_def same fr)
qed

lemma mark_main_linked:
  assumes wf: "wf_cfg G" and f: "find_function G m = Some f"
  shows "\<exists>G'. mark_main_function m G = Some G' \<and> keeps G G' \<and> is_main (fns G' ! f) \<and> (\<forall>a b ty. linked G a b ty \<longrightarrow> linked G' a b ty)"
proof -
  have l: "f < length (fns G)" using find_function_ok [OF wf f] by simp
  have "keeps G (set_is_main f G)" by (rule keeps_fn_flags(4) [OF wf l])
  moreover have "is_main (fns (set_is_main f G) ! f)" using l by (simp add: set_is_main_def upd_fn_def)
  moreover have "linked (set_is_main f G) a b ty" if "linked G a b ty" for a b ty
    using that by (simp add: linked_def set_is_main_def upd_fn_def find_bb_by_last_insn_address_def)
  ultimately show ?thesis by (simp add: mark_main_function_def f)
qed

text \<open>
  C38: The dummy edges are where the validator looks for them.  With the address of
  \<open>main\<close> in \<open>bin.info\<close>, written as \<open>find_main.sh\<close> writes it and among any other entries, the
  graph gets an indirect call from the callback address to every function whose
  address is taken and one from the loader address to \<open>main\<close>, \<open>main\<close> is marked, and
  nothing of the graph is lost.
\<close>
theorem add_dummy_shlib_blocks_links:
  assumes wf: "wf_cfg G" and lib: "\<not> is_library G" and addrs: "\<forall>(a, f) \<in> set (addr2fn G). a \<noteq> 0 \<and> a \<noteq> ADDRESS_TAKEN"
    and main: "find_bb G m = Some c" "find_function G m = Some fm" and zero: "find_bb G 0 = None"
    and info: "\<forall>kv \<in> set kvs. plain_entry kv" "map_of (rev kvs) ''addr.func.main'' = Some (''0x'' @ to_hex 16 (unat m))"
  shows "\<exists>G'. add_dummy_shlib_blocks (Some (concat (map bininfo_line kvs))) G = Some G' \<and> wf_cfg G' \<and> extends G G' \<and>
    (\<forall>(a, f) \<in> set (addr2fn G). addr_taken (fns G ! f) \<longrightarrow> linked G' ADDRESS_TAKEN a arms_indirect_call) \<and>
    linked G' 0 m arms_indirect_call \<and> is_main (fns G' ! fm)"
proof -
  have base: "base_addr (fns G ! f) = a" if "(a, f) \<in> set (addr2fn G)" for a f
    using wf that by (auto simp: wf_cfg_def map_ok_def)
  have ad: "a \<noteq> 0" "a \<noteq> ADDRESS_TAKEN" if "(a, f) \<in> set (addr2fn G)" for a f using addrs that by auto
  have pre: "\<forall>(a, f) \<in> set (addr2fn G). base_addr (fns G ! f) \<noteq> ADDRESS_TAKEN" using ad(2) base by auto
  obtain G1 where G1: "fold (\<lambda>(a, f). link_dummy_block_to_at_func f) (addr2fn G) G = G1" by simp
  note l = link_dummies [OF wf pre, unfolded G1]
  note k1 = l [THEN conjunct1] and f1 = l [THEN conjunct2, THEN conjunct2, THEN conjunct1]
    and at1 = l [THEN conjunct2, THEN conjunct2, THEN conjunct2, THEN conjunct2, THEN conjunct1]
    and bb1 = l [THEN conjunct2, THEN conjunct2, THEN conjunct2, THEN conjunct2, THEN conjunct2, rule_format]
  have mem: "(m, fm) \<in> set (addr2fn G)" using main(2) by (simp add: find_function_def map_of_SomeD)
  have m1: "find_bb G1 m = Some c" using bb1 [OF ad(2) [OF mem]] main(1) by simp
  have z1: "find_bb G1 0 = None" using bb1 [of 0] zero ad(1) base by (auto simp: ADDRESS_TAKEN_def)
  obtain G2 where 2: "insert_dummy_loader_block m G1 = Some G2" "keeps G1 G2" "addr2fn G2 = addr2fn G1"
    "linked G2 0 m arms_indirect_call" "\<forall>a b ty. a \<noteq> 0 \<longrightarrow> linked G1 a b ty \<longrightarrow> linked G2 a b ty"
    using insert_dummy_loader_linked [OF keeps_wf [OF k1] m1 z1] by blast
  have "find_function G2 m = Some fm" using main(2) by (simp add: find_function_def 2(3) f1)
  from mark_main_linked [OF keeps_wf [OF 2(2)] this] obtain G3 where
    3: "mark_main_function m G2 = Some G3" "keeps G2 G3" "is_main (fns G3 ! fm)" "\<forall>a b ty. linked G2 a b ty \<longrightarrow> linked G3 a b ty" by blast
  have "parse_bininfo_file (Some (concat (map bininfo_line kvs))) = Some (map_of (rev kvs))"
    by (simp add: parse_bininfo_file_def fgets_lines_concat [OF info(1)] parse_lines [OF info(1)])
  then have "add_dummy_shlib_blocks (Some (concat (map bininfo_line kvs))) G = Some G3"
    unfolding add_dummy_shlib_blocks_def G1 Let_def using lib info(2) strtoul0_hex [of m] 2(1) 3(1) by simp
  moreover have "keeps G G3" by (rule keeps_trans [OF keeps_trans [OF k1 2(2)] 3(2)])
  moreover have "linked G3 ADDRESS_TAKEN a arms_indirect_call" if "(a, f) \<in> set (addr2fn G)" "addr_taken (fns G ! f)" for a f
  proof -
    have "linked G1 ADDRESS_TAKEN a arms_indirect_call" using at1 that base [OF that(1)] by auto
    moreover have "ADDRESS_TAKEN \<noteq> 0" by (simp add: ADDRESS_TAKEN_def)
    ultimately show ?thesis using 2(5) 3(4) by blast
  qed
  ultimately show ?thesis using 2(4) 3(3,4) by (auto simp: keeps_def)
qed

definition main_demo :: cfg where
  "main_demo = (mk_cfg ''demo'')\<lparr>bbs := [demo_block 0x10 0x12 [] [], demo_block 0x20 0x22 [] []],
     fns := [(mk_function 0x10 ''f'')\<lparr>addr_taken := True\<rparr>, mk_function 0x20 ''main''], addr2fn := [(0x10, 0), (0x20, 1)],
     start2bb := [(0x10, 0), (0x20, 1)]\<rparr>"

theorem add_dummy_shlib_blocks_links_witness:
  "wf_cfg main_demo \<and> (\<exists>G'. add_dummy_shlib_blocks (Some (concat (map bininfo_line [(''addr.func.main'', ''0x'' @ to_hex 16 (unat (0x20 :: u64)))]))) main_demo = Some G' \<and>
     wf_cfg G' \<and> linked G' ADDRESS_TAKEN 0x10 arms_indirect_call \<and> linked G' 0 0x20 arms_indirect_call \<and> is_main (fns G' ! 1))"
proof -
  let ?kvs = "[(''addr.func.main'', ''0x'' @ to_hex 16 (unat (0x20 :: u64)))]"
  have wf: "wf_cfg main_demo"
    by (simp add: wf_cfg_def main_demo_def demo_block_def mk_cfg_def mk_bb_def mk_function_def All_less_Suc2 bb_ok_def map_ok_def fn_ok_def)
  have plain: "\<forall>kv \<in> set ?kvs. plain_entry kv"
    unfolding plain_entry_def by code_simp
  have "\<not> is_library main_demo" "\<forall>(a, f) \<in> set (addr2fn main_demo). a \<noteq> 0 \<and> a \<noteq> ADDRESS_TAKEN" "find_bb main_demo 0x20 = Some 1"
    "find_function main_demo 0x20 = Some 1" "find_bb main_demo 0 = None"
    by (simp_all add: main_demo_def mk_cfg_def ADDRESS_TAKEN_def find_bb_def find_function_def)
  from add_dummy_shlib_blocks_links [OF wf this plain] obtain G' where
    "add_dummy_shlib_blocks (Some (concat (map bininfo_line ?kvs))) main_demo = Some G'" "wf_cfg G'"
    "\<forall>(a, f) \<in> set (addr2fn main_demo). addr_taken (fns main_demo ! f) \<longrightarrow> linked G' ADDRESS_TAKEN a arms_indirect_call"
    "linked G' 0 0x20 arms_indirect_call" "is_main (fns G' ! 1)" by auto
  then show ?thesis using wf by (auto simp: main_demo_def)
qed

end
