(* ===== verification/Jit_Daemon.thy ===== *)
theory Jit_Daemon
  imports Cfg_Dummies Armor_Ioctl
begin

text \<open>
  The analyzer daemon (\<open>preprocess_cfg\<close> and \<open>run_lbr_state_analysis_daemon\<close> in
  \<open>src/dyninst-static/lbr_analysis_pass.C\<close>): it prepares the graph, fetches the
  tables of the target through the device of the kernel module, and then answers
  one request after the other.

  Its system calls are \<open>armor_ioctl\<close>.  What it takes from outside is the record
  \<open>daemon_env\<close>: the environment of its calls, which \<open>malloc\<close>s succeed and what the
  memory they return holds, what lies in kernel memory at an address, and what
  Dyninst answers.  The \<open>malloc\<close>ed tables are lists of words.
\<close>

section \<open>Preparing the graph\<close>

text \<open>
  The naive address-taken analysis: \<open>operands\<close> are the immediate operands of all
  instructions of the binary, as Dyninst decodes them.
\<close>

datatype immediate = S32 "32 word" | U32 "32 word" | S64 u64 | U64 u64 | Other

definition immediate_address :: "immediate \<Rightarrow> u64 option" where
  "immediate_address i =
    (case i of S32 w \<Rightarrow> Some (scast w) | U32 w \<Rightarrow> Some (ucast w) | S64 w \<Rightarrow> Some w | U64 w \<Rightarrow> Some w | Other \<Rightarrow> None)"

definition analyze_operand :: "immediate \<Rightarrow> cfg \<Rightarrow> cfg" where
  "analyze_operand i G =
    (case immediate_address i of
       None \<Rightarrow> G
     | Some addr \<Rightarrow> (case find_function G addr of None \<Rightarrow> G | Some f \<Rightarrow> set_addr_taken f G))"

definition dyninst_analyze_address_taken :: "immediate list \<Rightarrow> cfg \<Rightarrow> cfg" where
  "dyninst_analyze_address_taken operands G = fold analyze_operand operands G"

text \<open>The address-taken policy that runs last does not change the graph.\<close>

definition preprocess_cfg :: "bool \<Rightarrow> immediate list \<Rightarrow> string option \<Rightarrow> cfg \<Rightarrow> cfg option" where
  "preprocess_cfg naive operands bininfo G =
    (let G = (if naive then dyninst_analyze_address_taken operands G else G);
         G = mark_at_functions G
     in case add_dummy_shlib_blocks bininfo G of
          None \<Rightarrow> None
        | Some G \<Rightarrow> simplify_cfg G)"

section \<open>Talking to the kernel module\<close>

text \<open>The variables and blocks that system calls write to, and what is outside the daemon.\<close>

datatype area = Offsets | PltGotCopy | Plts | PltsAgain | Gots | GotsAgain | Simples | Exitpoints | Lbr

record daemon_env =
  de_jit :: jit_env
  de_user :: user_env
  de_addr :: "area \<Rightarrow> u64"
  de_malloc :: "area \<Rightarrow> u64 \<Rightarrow> u64 list option"
  de_memory :: "u64 \<Rightarrow> u64 \<Rightarrow> u64 list"
  de_script :: "u64 \<Rightarrow> string option"
  de_mods :: "(u64 \<times> u64) list"
  de_fbt :: "u64 list"
  de_parsed :: "nat \<Rightarrow> u64 \<Rightarrow> parsed_func list \<times> parsed_func list"
  de_fuel :: nat

text \<open>
  A step goes on, leaves through \<open>cleanup\<close>, sleeps in a system call, or breaks: an
  access beyond a block, a \<open>free\<close> of an address that \<open>malloc\<close> did not return, a
  fault in the kernel, or a failed assertion.
\<close>

datatype 'a daemon_step = Continue 'a kernel | Cleanup kernel | Blocked | Broken

fun bind_step :: "'a daemon_step \<Rightarrow> ('a \<Rightarrow> kernel \<Rightarrow> 'b daemon_step) \<Rightarrow> 'b daemon_step" where
  "bind_step (Continue x k) f = f x k"
| "bind_step (Cleanup k) f = Cleanup k"
| "bind_step Blocked f = Blocked"
| "bind_step Broken f = Broken"

definition ioctl :: "daemon_env \<Rightarrow> u32 \<Rightarrow> u64 \<Rightarrow> kernel \<Rightarrow> (u64 \<times> user_value) list daemon_step" where
  "ioctl D cmd arg k =
    (case armor_ioctl (de_jit D) (de_user D) cmd arg k of
       Returns (k, r, out) \<Rightarrow> if r = 0 then Continue out k else Cleanup k
     | Sleeps \<Rightarrow> Blocked
     | Faults \<Rightarrow> Broken)"

text \<open>An array is written to the front of a block, which has to be large enough.\<close>

definition fill :: "u64 list \<Rightarrow> u64 list \<Rightarrow> u64 list option" where
  "fill block ws = (if length ws \<le> length block then Some (ws @ drop (length ws) block) else None)"

definition pull :: "daemon_env \<Rightarrow> u32 \<Rightarrow> area \<Rightarrow> u64 list \<Rightarrow> kernel \<Rightarrow> u64 list daemon_step" where
  "pull D cmd ar block k =
    bind_step (ioctl D cmd (de_addr D ar) k) (\<lambda>out k.
      case (case out of
              [(_, UWords ws)] \<Rightarrow> fill block ws
            | [(_, UMemory p n)] \<Rightarrow> fill block (de_memory D p n)
            | _ \<Rightarrow> None) of
        None \<Rightarrow> Broken
      | Some ws \<Rightarrow> Continue ws k)"

record jit_daemon =
  jd_cfg :: cfg
  jd_last_lib_call :: u64
  jd_offsets :: offsets_t
  jd_items :: nat
  jd_plts :: "u64 list"
  jd_gots :: "u64 list"
  jd_plts_again :: "u64 list"
  jd_gots_again :: "u64 list"
  jd_exitpoints :: "u64 list"

text \<open>
  The four tables.  \<open>PULL_PLT_COPY\<close> has left the kernel's own pointers in
  \<open>plt_got_copy\<close>; when there is no memory for the first two tables, \<open>cleanup\<close> frees
  the pointer \<open>gots\<close> that came from the kernel.
\<close>

definition malloc_tables :: "daemon_env \<Rightarrow> u64 \<Rightarrow> kernel \<Rightarrow> (u64 list \<times> u64 list \<times> u64 list \<times> u64 list) daemon_step" where
  "malloc_tables D sz k =
    (case (de_malloc D Plts sz, de_malloc D PltsAgain sz) of
       (Some plts, Some plts2) \<Rightarrow>
         (case (de_malloc D Gots sz, de_malloc D GotsAgain sz) of
            (Some gots, Some gots2) \<Rightarrow> Continue (plts, plts2, gots, gots2) k
          | _ \<Rightarrow> Cleanup k)
     | _ \<Rightarrow> Broken)"

text \<open>Both tables are printed, item by item.\<close>

definition fetch_tables :: "daemon_env \<Rightarrow> kernel \<Rightarrow> (nat \<times> u64 list \<times> u64 list \<times> u64 list \<times> u64 list) daemon_step" where
  "fetch_tables D k =
    bind_step (ioctl D ARMOR_IOC_PULL_PLT_COPY (de_addr D PltGotCopy) k) (\<lambda>out k. case out of
      [(_, UPltGot sz n)] \<Rightarrow>
        bind_step (malloc_tables D sz k) (\<lambda>(plts, plts2, gots, gots2) k.
        bind_step (pull D ARMOR_IOC_PULL_PLTS Plts plts k) (\<lambda>plts k.
        bind_step (pull D ARMOR_IOC_PULL_GOTS Gots gots k) (\<lambda>gots k.
          if length plts < unat n \<or> length gots < unat n then Broken
          else Continue (unat n, plts, gots, plts2, gots2) k)))
    | _ \<Rightarrow> Broken)"

definition fetch_exitpoints :: "daemon_env \<Rightarrow> kernel \<Rightarrow> u64 list daemon_step" where
  "fetch_exitpoints D k =
    bind_step (ioctl D ARMOR_IOC_PULL_EXITS (de_addr D Simples) k) (\<lambda>out k. case out of
      [(_, USimples sz n)] \<Rightarrow>
        (case de_malloc D Exitpoints sz of
           None \<Rightarrow> Cleanup k
         | Some exits \<Rightarrow>
             bind_step (pull D ARMOR_IOC_PULL_EXITS_DATA Exitpoints exits k) (\<lambda>exits k.
               if length exits < unat n then Broken else Continue (take (unat n) exits) k))
    | _ \<Rightarrow> Broken)"

definition daemon_setup :: "daemon_env \<Rightarrow> cfg \<Rightarrow> kernel \<Rightarrow> jit_daemon daemon_step" where
  "daemon_setup D G k =
    bind_step (ioctl D ARMOR_IOC_GET_OFFSETS (de_addr D Offsets) k) (\<lambda>out k. case out of
      [(_, UOffsets off)] \<Rightarrow>
        bind_step (fetch_tables D k) (\<lambda>(n, plts, gots, plts2, gots2) k.
        bind_step (fetch_exitpoints D k) (\<lambda>exits k.
          Continue \<lparr>jd_cfg = G, jd_last_lib_call = 0, jd_offsets = off, jd_items = n, jd_plts = plts, jd_gots = gots,
            jd_plts_again = plts2, jd_gots_again = gots2, jd_exitpoints = exits\<rparr> k))
    | _ \<Rightarrow> Broken)"

definition daemon_inputs :: "daemon_env \<Rightarrow> jit_daemon \<Rightarrow> jit_inputs" where
  "daemon_inputs D d =
    \<lparr>ji_offsets = jd_offsets d, ji_plt_got = take (jd_items d) (zip (jd_plts d) (jd_gots d)), ji_exitpoints = jd_exitpoints d,
     ji_script = de_script D, ji_mods = de_mods D, ji_fbt = de_fbt D, ji_parsed = de_parsed D\<rparr>"

text \<open>One turn of the loop.\<close>

definition daemon_turn :: "daemon_env \<Rightarrow> jit_daemon \<Rightarrow> kernel \<Rightarrow> jit_daemon daemon_step" where
  "daemon_turn D d k =
    bind_step (ioctl D ARMOR_IOC_GET_JIT_WORK (de_addr D Lbr) k) (\<lambda>out k. case out of
      [(_, ULbr lbr)] \<Rightarrow>
        bind_step (pull D ARMOR_IOC_PULL_PLTS PltsAgain (jd_plts_again d) k) (\<lambda>plts2 k.
        bind_step (pull D ARMOR_IOC_PULL_GOTS GotsAgain (jd_gots_again d) k) (\<lambda>gots2 k.
          if plts2 \<noteq> jd_plts d then Cleanup k
          else if gots2 \<noteq> jd_gots d then Cleanup k
          else case jit_validate_lbr (de_fuel D) (daemon_inputs D d) (jd_last_lib_call d) (jd_cfg d) lbr of
              None \<Rightarrow> Broken
            | Some (is_valid, G, l) \<Rightarrow>
                bind_step (ioctl D ARMOR_IOC_PUT_JIT_WORK (word_of_nat is_valid) k) (\<lambda>_ k.
                  Continue (d\<lparr>jd_cfg := G, jd_last_lib_call := l, jd_plts_again := plts2, jd_gots_again := gots2\<rparr>) k)))
    | _ \<Rightarrow> Broken)"

text \<open>
  The loop, for as many requests as there are elements in the list: each with what
  the rest of the system does to the kernel while the daemon waits, and with the
  environment of the turn.  A signal ends the process, so the loop has no other end
  than a failing turn.
\<close>

fun daemon_loop :: "((kernel \<Rightarrow> kernel) \<times> daemon_env) list \<Rightarrow> jit_daemon \<Rightarrow> kernel \<Rightarrow> jit_daemon daemon_step" where
  "daemon_loop [] d k = Continue d k"
| "daemon_loop ((w, D) # ts) d k = bind_step (daemon_turn D d (w k)) (daemon_loop ts)"

text \<open>\<open>cleanup\<close> closes the device.\<close>

definition run_lbr_state_analysis_daemon :: "daemon_env \<Rightarrow> bool \<Rightarrow> immediate list \<Rightarrow> string option \<Rightarrow>
    ((kernel \<Rightarrow> kernel) \<times> daemon_env) list \<Rightarrow> cfg \<Rightarrow> kernel \<Rightarrow> jit_daemon daemon_step" where
  "run_lbr_state_analysis_daemon D naive operands bininfo ts G k =
    (case preprocess_cfg naive operands bininfo G of
       None \<Rightarrow> Cleanup k
     | Some G \<Rightarrow>
         let (k, fd) = armor_open (de_user D) k
         in if fd < 0 then Cleanup k
            else case bind_step (daemon_setup D G k) (daemon_loop ts) of
                   Cleanup k \<Rightarrow> Cleanup (fst (armor_close k))
                 | st \<Rightarrow> st)"

section \<open>The system calls of a turn\<close>

lemma bind_step_Continue:
  "bind_step m f = Continue y k' \<longleftrightarrow> (\<exists>x k. m = Continue x k \<and> f x k = Continue y k')"
  by (cases m) auto

lemma ioctl_pulls:
  "armor_ioctl J U ARMOR_IOC_PULL_PLTS a k = copy_buf U a (pg_size (plt_got_copy k)) (pg_plts (plt_got_copy k)) k"
  "armor_ioctl J U ARMOR_IOC_PULL_GOTS a k = copy_buf U a (pg_size (plt_got_copy k)) (pg_gots (plt_got_copy k)) k"
  "armor_ioctl J U ARMOR_IOC_GET_JIT_WORK a k = ioctl_get_jit_work U a k"
  "armor_ioctl J U ARMOR_IOC_PUT_JIT_WORK a k = returns 0 (put_jit_work a k)"
  by (simp_all add: armor_ioctl_def ioc_consts IO_def ARMOR_IOC_MAGIC_def)

lemma pull_Continue:
  assumes "pull D cmd ar block k = Continue ws k'" "cmd = ARMOR_IOC_PULL_PLTS \<or> cmd = ARMOR_IOC_PULL_GOTS"
  shows "k' = k \<and> length ws = length block"
  using assms by (auto simp: pull_def bind_step_Continue ioctl_def ioctl_pulls copy_buf_def copy_out_def fill_def Let_def
      split: if_splits option.splits buf.splits)

lemma get_work_Continue:
  assumes "ioctl D ARMOR_IOC_GET_JIT_WORK a k = Continue out k'"
  shows "\<exists>lbr. out = [(a, ULbr lbr)] \<and> get_jit_work k = Some (k', lbr)"
  using assms by (auto simp: ioctl_def ioctl_pulls ioctl_get_jit_work_def down_interruptible_def copy_out_def get_jit_work_def Let_def
      uint_0_iff EINTR_def split: if_splits option.splits)

lemma put_work [simp]: "ioctl D ARMOR_IOC_PUT_JIT_WORK a k = Continue [] (put_jit_work a k)"
  by (simp add: ioctl_def ioctl_pulls)

text \<open>A turn that ends is a request, its analysis and the answer.\<close>

lemma daemon_turn_Continue:
  assumes "daemon_turn D d k = Continue d' k'"
  shows "\<exists>k1 lbr v. get_jit_work k = Some (k1, lbr) \<and> k' = put_jit_work (word_of_nat v) k1 \<and>
    jit_validate_lbr (de_fuel D) (daemon_inputs D d) (jd_last_lib_call d) (jd_cfg d) lbr = Some (v, jd_cfg d', jd_last_lib_call d') \<and>
    d' = d\<lparr>jd_cfg := jd_cfg d', jd_last_lib_call := jd_last_lib_call d', jd_plts_again := jd_plts d, jd_gots_again := jd_gots d\<rparr>"
proof -
  obtain out k1 where out: "ioctl D ARMOR_IOC_GET_JIT_WORK (de_addr D Lbr) k = Continue out k1"
    using assms by (auto simp: daemon_turn_def bind_step_Continue)
  from get_work_Continue [OF this] obtain lbr where lbr: "out = [(de_addr D Lbr, ULbr lbr)]" "get_jit_work k = Some (k1, lbr)" by blast
  obtain plts k2 where p: "pull D ARMOR_IOC_PULL_PLTS PltsAgain (jd_plts_again d) k1 = Continue plts k2"
    using assms by (auto simp: daemon_turn_def out lbr bind_step_Continue)
  then have [simp]: "k2 = k1" using pull_Continue by blast
  obtain gots k3 where g: "pull D ARMOR_IOC_PULL_GOTS GotsAgain (jd_gots_again d) k1 = Continue gots k3"
    using assms by (auto simp: daemon_turn_def out lbr p bind_step_Continue)
  then have [simp]: "k3 = k1" using pull_Continue by blast
  show ?thesis
    using assms lbr(2) by (auto simp: daemon_turn_def out lbr(1) p g split: if_splits option.splits)
qed

text \<open>A validation that is answered with a verdict of the analyzer.\<close>

lemma answered_validation:
  assumes req: "validate_request J k = (k1, Some h)" and sems: "jit_work_cond k = 0" "jit_result_cond k = 0"
    and g: "get_jit_work k1 = Some (k2, l)" and a: "daemon J k1 = put_jit_work (word_of_nat v) k2" and v: "v \<in> {0, 1, 2 :: nat}"
  shows "st_jit_hits (stats (validate_lbr J k)) = st_jit_hits (stats k) + (if v = 1 then 1 else 0) \<and>
    st_jit_misses (stats (validate_lbr J k)) = st_jit_misses (stats k) + (if v = 0 then 1 else 0) \<and>
    jit_cache (validate_lbr J k) = jit_cache_store (hash_lbr J (get_lbr (my_msrs k) (stack_lbr J))) (jit_cache k) \<and>
    \<not> disable_jit (validate_lbr J k) \<and> jit_work_cond (validate_lbr J k) = 0 \<and> jit_result_cond (validate_lbr J k) = 0"
proof -
  note S = validate_request_Some [OF req] and F = validate_request_frame [OF req]
  have k2: "k2 = k1\<lparr>jit_work_cond := 0\<rparr>" using get_jit_work_Some(8) [OF g] S(5) sems(1) by simp
  have c: "st_jit_hits (stats k1) = st_jit_hits (stats k)" "st_jit_misses (stats k1) = st_jit_misses (stats k)"
    using req by (auto simp: validate_request_def Let_def split: if_splits)
  have r: "validate_lbr J k = validate_finish J h (k2\<lparr>jit_result := word_of_nat v, jit_result_cond := 0\<rparr>, False)"
    using a F(12) sems(2) k2 by (simp add: validate_lbr_def req put_jit_work_def down_result_def)
  have w: "(word_of_nat v :: u64) \<in> {0, 1, 2}" "(word_of_nat v :: u64) = 1 \<longleftrightarrow> v = 1" "(word_of_nat v :: u64) = 0 \<longleftrightarrow> v = 0" using v by auto
  show ?thesis unfolding r using S F c w k2 sems by (simp add: validate_finish_reply)
qed

section \<open>The daemon over many requests\<close>

text \<open>Whatever the verdict, the graph is well formed and only grew.\<close>

lemma jit_missing_edge_leave:
  assumes wf: "wf_cfg (jl_cfg st)" and r: "jit_missing_edge n inp orig a b st = turn.Leave v st'"
  shows "keeps (jl_cfg st) (jl_cfg st')"
  using r jit_add_plt_got_edge_joins [OF wf, of n a b] keeps_refl [OF wf]
  by (auto simp: jit_missing_edge_def Let_def split: if_splits option.splits)

lemma jit_entry_leave_keeps:
  assumes wf: "wf_cfg (jl_cfg st)" and ok: "inputs_ok inp" and r: "jit_entry n inp ens i st = turn.Leave v st'"
  shows "keeps (jl_cfg st) (jl_cfg st')"
proof -
  obtain a l where a: "jit_normalize_addr (jl_cfg st) (ji_offsets inp) (fst (ens ! i)) (jl_last st) = (a, l)" by fastforce
  obtain b l' where b: "jit_normalize_addr (jl_cfg st) (ji_offsets inp) (snd (ens ! i)) l = (b, l')" by fastforce
  show ?thesis
  proof (cases "a = JIT_ADDR_UNKNOWN \<or> b = JIT_ADDR_UNKNOWN")
    case True
    then show ?thesis using r keeps_refl [OF wf] by (auto simp: jit_entry_def a b Let_def split: if_splits)
  next
    case False
    then obtain G where G: "jit_find_edge inp i a b (jl_cfg st) = Some (None, G)"
        "jit_missing_edge n inp (ens ! i) a b (st\<lparr>jl_last := l', jl_cfg := G\<rparr>) = turn.Leave v st'"
      using r by (auto simp: jit_entry_def a b Let_def split: if_splits option.splits)
    then have k: "keeps (jl_cfg st) G" using jit_find_edge_joins [OF wf ok] by blast
    from jit_missing_edge_leave [OF _ G(2)] keeps_wf [OF k] keeps_trans [OF k] show ?thesis by simp
  qed
qed

lemma jit_entries_leave_keeps:
  assumes "inputs_ok inp"
  shows "wf_cfg (jl_cfg st) \<Longrightarrow> jit_entries n inp ens is st = turn.Leave v st' \<Longrightarrow> keeps (jl_cfg st) (jl_cfg st')"
proof (induction "is" arbitrary: st)
  case (Cons i "is")
  show ?case
  proof (cases "jit_entry n inp ens i st")
    case (Go s)
    then have k: "keeps (jl_cfg st) (jl_cfg s)" using jit_entry_go [OF Cons.prems(1) assms] by blast
    then show ?thesis using Cons.IH [of s] keeps_wf [OF k] keeps_trans [OF k] Cons.prems(2) Go by simp
  next
    case (Leave u s)
    then show ?thesis using Cons.prems jit_entry_leave_keeps [OF _ assms] by simp
  qed (use Cons.prems in simp)
qed simp

lemma jit_validate_keeps:
  assumes wf: "wf_cfg G" and ok: "inputs_ok inp" and r: "jit_validate_lbr n inp l G lbr = Some (v, G', l')"
  shows "keeps G G' \<and> v \<in> {0, 1, 2}"
proof -
  define ens where "ens = lbr_entries (patch_simples inp (snd (remove_lib_enter_edges (o_armor_lib_enter (ji_offsets inp)) lbr)))"
  define st where "st = \<lparr>jl_cfg = G, jl_last = l, jl_edges = []\<rparr>"
  have wf': "wf_cfg (jl_cfg st)" using wf by (simp add: st_def)
  consider (go) s where "jit_entries n inp ens [0..<LBR_SIZE] st = Go s" "jl_cfg s = G'" "v \<in> {0, 1}"
    | (leave) s where "jit_entries n inp ens [0..<LBR_SIZE] st = turn.Leave v s" "jl_cfg s = G'"
    using r unfolding jit_validate_lbr_def Let_def ens_def [symmetric] st_def [symmetric]
    by (auto split: turn.splits jit_result.splits)
  then show ?thesis
  proof cases
    case go
    then show ?thesis using jit_entries_go [OF ok wf' go(1)] by (auto simp: st_def)
  next
    case leave
    then show ?thesis using jit_entries_leave_keeps [OF ok wf' leave(1)] jit_entries_leave [OF leave(1)] by (auto simp: st_def)
  qed
qed

lemma daemon_turn_keeps:
  assumes "wf_cfg (jd_cfg d)" "inputs_ok (daemon_inputs D d)" "daemon_turn D d k = Continue d' k'"
  shows "keeps (jd_cfg d) (jd_cfg d') \<and> (\<forall>E. daemon_inputs E d' = daemon_inputs E d) \<and>
    jd_plts d' = jd_plts d \<and> jd_gots d' = jd_gots d \<and> jd_plts_again d' = jd_plts d \<and> jd_gots_again d' = jd_gots d"
proof -
  obtain lbr v where v: "jit_validate_lbr (de_fuel D) (daemon_inputs D d) (jd_last_lib_call d) (jd_cfg d) lbr =
      Some (v, jd_cfg d', jd_last_lib_call d')"
    and d': "d' = d\<lparr>jd_cfg := jd_cfg d', jd_last_lib_call := jd_last_lib_call d', jd_plts_again := jd_plts d, jd_gots_again := jd_gots d\<rparr>"
    using daemon_turn_Continue [OF assms(3)] by blast
  have s: "jd_offsets d' = jd_offsets d" "jd_items d' = jd_items d" "jd_plts d' = jd_plts d" "jd_gots d' = jd_gots d"
    "jd_exitpoints d' = jd_exitpoints d" "jd_plts_again d' = jd_plts d" "jd_gots_again d' = jd_gots d"
    by (subst d', simp)+
  then show ?thesis using jit_validate_keeps [OF assms(1,2) v] by (simp add: daemon_inputs_def)
qed

lemma daemon_loop_keeps:
  assumes "wf_cfg (jd_cfg d)" "\<forall>t \<in> set ts. inputs_ok (daemon_inputs (snd t) d)" "daemon_loop ts d k = Continue d' k'"
  shows "keeps (jd_cfg d) (jd_cfg d') \<and> (\<forall>E. daemon_inputs E d' = daemon_inputs E d) \<and>
    jd_plts d' = jd_plts d \<and> jd_gots d' = jd_gots d \<and>
    (ts \<noteq> [] \<longrightarrow> jd_plts_again d' = jd_plts d \<and> jd_gots_again d' = jd_gots d)"
  using assms
proof (induction ts d k rule: daemon_loop.induct)
  case (1 d k)
  then show ?case by (simp add: keeps_refl)
next
  case (2 w D ts d k)
  obtain d1 k1 where 1: "daemon_turn D d (w k) = Continue d1 k1" "daemon_loop ts d1 k1 = Continue d' k'"
    using "2.prems"(3) by (auto simp: bind_step_Continue)
  have "inputs_ok (daemon_inputs D d)" using "2.prems"(2) by simp
  note t = daemon_turn_keeps [OF "2.prems"(1) this 1(1)]
  then have k1: "keeps (jd_cfg d) (jd_cfg d1)" and i: "\<forall>E. daemon_inputs E d1 = daemon_inputs E d" by blast+
  have "\<forall>t \<in> set ts. inputs_ok (daemon_inputs (snd t) d1)" using "2.prems"(2) i by simp
  note IH = "2.IH" [OF keeps_wf [OF k1] this 1(2)]
  have "d' = d1" if "ts = []" using 1(2) that by simp
  then show ?case using IH t i keeps_trans [OF k1] by auto
qed

section \<open>Setting up\<close>

lemma fill_exact: "length ws = length block \<Longrightarrow> fill block ws = Some ws"
  by (simp add: fill_def)

lemma pull_buf:
  assumes "armor_ioctl (de_jit D) (de_user D) cmd (de_addr D ar) k = copy_buf (de_user D) (de_addr D ar) n (KBuf ws) k"
    "copy_to_user (de_user D) (de_addr D ar) n = 0" "length ws = length block"
  shows "pull D cmd ar block k = Continue ws k"
  using assms by (simp add: pull_def ioctl_def copy_buf_def copy_out_def fill_exact)

lemma ioctl_setups:
  "armor_ioctl J U ARMOR_IOC_PULL_PLT_COPY a k = ioctl_pull_plt_copy U a k"
  "armor_ioctl J U ARMOR_IOC_PULL_EXITS a k = ioctl_pull_exits U a k"
  "armor_ioctl J U ARMOR_IOC_PULL_EXITS_DATA a k = copy_buf U a (sm_size (simples k)) (sm_exitpoints (simples k)) k"
  "armor_ioctl J U ARMOR_IOC_GET_OFFSETS a k = armor_ioctl_get_offsets U a k"
  by (simp_all add: armor_ioctl_def ioc_consts IO_def ARMOR_IOC_MAGIC_def)

text \<open>Copies to the daemon and its allocations succeed; blocks have the size asked for.\<close>

definition setup_ok :: "daemon_env \<Rightarrow> bool" where
  "setup_ok D \<longleftrightarrow> (\<forall>a n. copy_to_user (de_user D) a n = 0) \<and>
    (\<forall>ar sz. \<exists>block. de_malloc D ar sz = Some block \<and> length block = unat sz div 8)"

text \<open>A table of \<open>n\<close> items in a buffer of \<open>sz\<close> bytes.\<close>

definition is_table :: "u64 \<Rightarrow> u64 \<Rightarrow> u64 list \<Rightarrow> bool" where
  "is_table sz n ws \<longleftrightarrow> length ws = unat n \<and> unat sz = 8 * unat n"

lemma malloc_blocks:
  assumes "setup_ok D"
  shows "\<exists>b1 b2 b3 b4. malloc_tables D sz k = Continue (b1, b2, b3, b4) k \<and> length b1 = unat sz div 8 \<and> length b2 = unat sz div 8 \<and>
    length b3 = unat sz div 8 \<and> length b4 = unat sz div 8"
proof -
  have "\<exists>block. de_malloc D ar sz = Some block \<and> length block = unat sz div 8" for ar using assms by (simp add: setup_ok_def)
  from this [of Plts] this [of PltsAgain] this [of Gots] this [of GotsAgain]
  show ?thesis by (elim exE conjE) (simp add: malloc_tables_def)
qed

lemma fetch_tables_exact:
  assumes ok: "setup_ok D" and av: "plt_available k > 0" and pg: "plt_got_copy k = \<lparr>pg_size = sz, pg_items = n, pg_plts = KBuf ps, pg_gots = KBuf gs\<rparr>"
    and t: "is_table sz n ps" "is_table sz n gs"
  shows "\<exists>ps2 gs2. fetch_tables D k = Continue (unat n, ps, gs, ps2, gs2) (k\<lparr>plt_available := plt_available k - 1\<rparr>) \<and>
    length ps2 = unat n \<and> length gs2 = unat n"
proof -
  let ?k = "k\<lparr>plt_available := plt_available k - 1\<rparr>"
  have c: "copy_to_user (de_user D) a m = 0" for a m using ok by (simp add: setup_ok_def)
  have 1: "ioctl D ARMOR_IOC_PULL_PLT_COPY (de_addr D PltGotCopy) k = Continue [(de_addr D PltGotCopy, UPltGot sz n)] ?k"
    using av pg c by (simp add: ioctl_def ioctl_setups ioctl_pull_plt_copy_def down_interruptible_def copy_out_def)
  obtain b1 b2 b3 b4 where 2: "malloc_tables D sz ?k = Continue (b1, b2, b3, b4) ?k" "length b1 = unat sz div 8" "length b2 = unat sz div 8"
    "length b3 = unat sz div 8" "length b4 = unat sz div 8" using malloc_blocks [OF ok] by blast
  have "pull D ARMOR_IOC_PULL_PLTS Plts b1 ?k = Continue ps ?k" "pull D ARMOR_IOC_PULL_GOTS Gots b3 ?k = Continue gs ?k"
    using pg c t 2 by (auto intro!: pull_buf simp: ioctl_pulls is_table_def)
  then show ?thesis using 1 2 t by (simp add: fetch_tables_def is_table_def)
qed

lemma fetch_exitpoints_exact:
  assumes ok: "setup_ok D" and av: "exitpoints_available k > 0" and sm: "simples k = \<lparr>sm_size = sz, sm_items = n, sm_exitpoints = KBuf es\<rparr>"
    and t: "is_table sz n es"
  shows "fetch_exitpoints D k = Continue es (k\<lparr>exitpoints_available := exitpoints_available k - 1\<rparr>)"
proof -
  let ?k = "k\<lparr>exitpoints_available := exitpoints_available k - 1\<rparr>"
  have c: "copy_to_user (de_user D) a m = 0" for a m using ok by (simp add: setup_ok_def)
  have 1: "ioctl D ARMOR_IOC_PULL_EXITS (de_addr D Simples) k = Continue [(de_addr D Simples, USimples sz n)] ?k"
    using av sm c by (simp add: ioctl_def ioctl_setups ioctl_pull_exits_def down_interruptible_def copy_out_def)
  obtain b where 2: "de_malloc D Exitpoints sz = Some b" "length b = unat sz div 8" using ok unfolding setup_ok_def by blast
  have "pull D ARMOR_IOC_PULL_EXITS_DATA Exitpoints b ?k = Continue es ?k"
    using sm c t 2 by (auto intro!: pull_buf simp: ioctl_setups is_table_def)
  then show ?thesis using 1 2 t by (simp add: fetch_exitpoints_def is_table_def)
qed

lemma get_offsets_frame:
  assumes "armor_ioctl_get_offsets U a k = Returns (k', r, [(b, UOffsets off)])"
  shows "k' = k\<lparr>target_started := target_started k - 1\<rparr> \<and> r = 0"
  using assms by (auto simp: armor_ioctl_get_offsets_def down_interruptible_def Let_def
      split: if_splits option.splits list.splits sum.splits)

lemma push_plts_table:
  assumes "ioctl_push_plts U a k = Returns (k', 0, out)"
  defines "pu \<equiv> fst (in_plt_got U a)"
  shows "plt_got_copy k' = \<lparr>pg_size = pu_size pu, pg_items = pu_items pu, pg_plts = KBuf (fst (in_words U (pu_plts pu) (pu_size pu))),
      pg_gots = KBuf (fst (in_words U (pu_gots pu) (pu_size pu)))\<rparr> \<and> plt_available k' = plt_available k + 1"
  using assms(1) by (auto simp: pu_def ioctl_push_plts_def Let_def split: prod.splits if_splits)

lemma push_exits_table:
  assumes "ioctl_push_exits U a k = Returns (k', 0, out)"
  defines "su \<equiv> fst (in_simples U a)"
  shows "simples k' = \<lparr>sm_size = su_size su, sm_items = su_items su, sm_exitpoints = KBuf (fst (in_words U (su_exitpoints su) (su_size su)))\<rparr> \<and>
    exitpoints_available k' = exitpoints_available k + 1 \<and> plt_got_copy k' = plt_got_copy k \<and> plt_available k' = plt_available k"
  using assms(1) by (auto simp: su_def ioctl_push_exits_def Let_def split: prod.splits if_splits)


definition demo_daemon_env :: daemon_env where
  "demo_daemon_env = \<lparr>de_jit = demo_env (\<lambda>_. 1),
     de_user = demo_user\<lparr>active_mm := (\<lambda>_. Some [\<lparr>vm_start = 0x400000, vm_end = 0x500000, vm_exec = False, vm_file = None\<rparr>])\<rparr>,
     de_addr = (\<lambda>_. 0x1000), de_malloc = (\<lambda>_ sz. Some (replicate (unat sz div 8) 0)), de_memory = (\<lambda>_ _. []),
     de_script = (\<lambda>_. Some []), de_mods = [], de_fbt = [], de_parsed = (\<lambda>_ _. ([], [])), de_fuel = 9\<rparr>"


section \<open>Changed tables\<close>

lemma pull_same:
  assumes "setup_ok D" "length ws = length block"
  shows "pg_plts (plt_got_copy k) = KBuf ws \<Longrightarrow> pull D ARMOR_IOC_PULL_PLTS ar block k = Continue ws k"
    "pg_gots (plt_got_copy k) = KBuf ws \<Longrightarrow> pull D ARMOR_IOC_PULL_GOTS ar block k = Continue ws k"
  using assms by (auto intro!: pull_buf simp: ioctl_pulls setup_ok_def)

lemma daemon_gets_work:
  assumes "setup_ok D" "jit_work_cond k > 0" "jit_work k = Some lbr"
  shows "ioctl D ARMOR_IOC_GET_JIT_WORK a k = Continue [(a, ULbr lbr)] (k\<lparr>jit_work_cond := jit_work_cond k - 1\<rparr>)"
  using assms by (simp add: setup_ok_def ioctl_def ioctl_pulls ioctl_get_jit_work_def down_interruptible_def copy_out_def)


definition demo_daemon :: jit_daemon where
  "demo_daemon = \<lparr>jd_cfg = demo_cfg, jd_last_lib_call = 0, jd_offsets = ji_offsets demo_inputs, jd_items = 0, jd_plts = [0x100], jd_gots = [0x200],
     jd_plts_again = [0], jd_gots_again = [0], jd_exitpoints = []\<rparr>"

text \<open>A kernel whose task has the branches of \<open>demo_lbr\<close> and whose module holds one PLT entry.\<close>

definition demo_target :: "u64 \<Rightarrow> kernel" where
  "demo_target p = boot_kernel\<lparr>msrs := (\<lambda>_. put_lbr demo_lbr (\<lambda>_. 0)),
     plt_got_copy := \<lparr>pg_size = 8, pg_items = 1, pg_plts = KBuf [p], pg_gots = KBuf [0x200]\<rparr>\<rparr>"

lemma validate_request_daemon [simp]: "validate_request (J\<lparr>daemon := f\<rparr>) k = validate_request J k"
  by (simp add: validate_request_def hash_lbr_def Let_def)

lemma demo_target_request:
  shows "\<exists>k1 h. validate_request J (demo_target p) = (k1, Some h) \<and> plt_got_copy k1 = plt_got_copy (demo_target p)"
  by (simp add: validate_request_def demo_target_def Let_def)

lemma demo_target_simps [simp]: "jit_result_cond (demo_target p) = 0" "jit_work_cond (demo_target p) = 0" "\<not> disable_jit (demo_target p)"
  by (simp_all add: demo_target_def)

lemma demo_daemon_env_ok [simp]: "setup_ok demo_daemon_env"
  by (simp add: setup_ok_def demo_daemon_env_def demo_user_def)


end
