(* ===== verification/Address_Taken.thy ===== *)
theory Address_Taken
  imports Jit_Daemon
begin

text \<open>
  The address-taken policies (\<open>src/dyninst-static/address_taken_parser.C\<close>): which call
  sites make indirect calls, and which functions they may call.  Three policies share an
  interface and \<open>getAddressTakenParser\<close> selects one of them for good.

  What Dyninst finds in the binary is a parameter: the regions with their bytes, the
  functions that contain an address, the modules with their functions, blocks and decoded
  instructions.  An operand is the list of the nodes of its expression in the order in
  which a visitor meets them.  Messages are left out.
\<close>

section \<open>What Dyninst provides\<close>

datatype region_type = Region_CODE | Region_DATA | Region_other

record region =
  rg_type :: region_type
  rg_base :: u64
  rg_bytes :: "u8 list"

datatype operand_node = BinaryFunction | Dereference | RegisterAST bool | Immediate immediate

record instruction =
  in_operands :: "operand_node list list"
  in_call :: bool

record bp_block =
  bk_start :: u64
  bk_end :: u64
  bk_instructions :: "instruction list"

record bp_function =
  bf_start :: u64
  bf_blocks :: "bp_block list"

record bp_module =
  bm_name :: string
  bm_procedures :: "bp_function list"
  bm_plt :: "(u64 \<times> u64) list"

record bp_image =
  im_objects :: "region list list"
  im_modules :: "bp_module list"
  im_find_function :: "u64 \<Rightarrow> (u64 \<times> u64) option list"

section \<open>The bin-cfi policy\<close>

text \<open>A reference in \<open>raw_CK\<close> or \<open>raw_CC\<close> is its location and its value.\<close>

record bin_cfi =
  callSites :: "u64 set"
  addressesTaken :: "u64 set"
  text_base :: u64
  text_size :: u64
  data_base :: u64
  data_size :: u64
  raw_CK :: "(u64 \<times> u64) list"
  raw_CC :: "(u64 \<times> u64) list"
  at_plt :: "(u64 \<times> u64) list"
  addressesTakenMaybe :: "u64 set"

definition isFunctionStart :: "bp_image \<Rightarrow> u64 \<Rightarrow> bool" where
  "isFunctionStart im val = list_ex (\<lambda>r. case r of Some (start, _) \<Rightarrow> start = val | None \<Rightarrow> False) (im_find_function im val)"

definition read_word :: "u8 list \<Rightarrow> nat \<Rightarrow> u64" where
  "read_word buf p = foldr (\<lambda>b acc. ucast b + 256 * acc) (take 8 (drop p buf)) 0"

text \<open>The difference of the two pointers counts words, so the location is the one of an aligned word.\<close>

definition parse_word :: "bp_image \<Rightarrow> u64 \<Rightarrow> u8 list \<Rightarrow> nat \<Rightarrow> bin_cfi \<Rightarrow> bin_cfi" where
  "parse_word im base buf p S =
    (let val = read_word buf p;
         pos = base + 8 * of_nat (p div 8);
         S = (if text_base S \<le> val \<and> val < text_base S + text_size S \<and> isFunctionStart im val
              then S\<lparr>raw_CK := (pos, val) # raw_CK S\<rparr> else S)
     in if val < text_size S then S\<lparr>raw_CC := (pos, val) # raw_CC S\<rparr> else S)"

definition parseRaw :: "bp_image \<Rightarrow> region \<Rightarrow> bin_cfi \<Rightarrow> bin_cfi option" where
  "parseRaw im r S =
    (if text_base S = 0 \<or> text_size S = 0 then None
     else Some (fold (parse_word im (rg_base r) (rg_bytes r)) [0..<length (rg_bytes r) - 8] S))"

fun findCKs :: "bp_image \<Rightarrow> region list \<Rightarrow> bin_cfi \<Rightarrow> bin_cfi option" where
  "findCKs im [] S = Some S"
| "findCKs im (r # rs) S =
    (case rg_type r of
       Region_other \<Rightarrow> findCKs im rs S
     | _ \<Rightarrow> Option.bind (parseRaw im r S) (findCKs im rs))"

text \<open>\<open>validateRawCK\<close> adds \<open>base\<close> to a pointer to words.  It always returns \<open>false\<close>.\<close>

definition validateRawCK :: "u64 \<Rightarrow> u64 \<Rightarrow> bin_cfi \<Rightarrow> bin_cfi" where
  "validateRawCK value base S =
    (let hit = (\<lambda>(location, _). location = value + 8 * base)
     in S\<lparr>addressesTaken := addressesTaken S \<union> snd ` set (filter hit (raw_CK S)), raw_CK := filter (\<lambda>r. \<not> hit r) (raw_CK S)\<rparr>)"

text \<open>The two visitors.\<close>

definition visit_indirect :: "operand_node \<Rightarrow> bool \<times> bool \<Rightarrow> bool \<times> bool" where
  "visit_indirect v = (\<lambda>(isIndirect, isPIC).
    case v of
      Dereference \<Rightarrow> (True, isPIC)
    | RegisterAST rip \<Rightarrow> (let isPIC = (isPIC \<or> rip) in (\<not> isPIC, isPIC))
    | _ \<Rightarrow> (isIndirect, isPIC))"

record possible_at =
  pa_accumulator :: u64
  pa_nbImmediates :: nat
  pa_CK :: u64
  pa_CC :: u64

abbreviation no_constant :: u64 where "no_constant \<equiv> NOT 0"

definition isPossibleValues :: "bin_cfi \<Rightarrow> u64 \<Rightarrow> possible_at \<Rightarrow> possible_at" where
  "isPossibleValues S base A =
    (let acc = pa_accumulator A;
         inside = (\<lambda>b n. b \<le> acc + base \<and> acc + base < b + n);
         A = (if pa_nbImmediates A = 1 \<and> inside (text_base S) (text_size S) then A\<lparr>pa_CK := acc\<rparr> else A);
         A = (if pa_nbImmediates A = 1 \<and> inside (data_base S) (data_size S) then A\<lparr>pa_CK := acc\<rparr> else A);
         A = (if 1 < pa_nbImmediates A then A\<lparr>pa_CK := no_constant\<rparr> else A)
     in A\<lparr>pa_CC := acc\<rparr>)"

definition visit_possible :: "bin_cfi \<Rightarrow> u64 \<Rightarrow> operand_node \<Rightarrow> possible_at \<Rightarrow> possible_at" where
  "visit_possible S location v A =
    (case v of
       RegisterAST True \<Rightarrow> isPossibleValues S location A
     | Immediate i \<Rightarrow>
         (case immediate_address i of
            None \<Rightarrow> A
          | Some addr \<Rightarrow>
              isPossibleValues S 0 (A\<lparr>pa_accumulator := pa_accumulator A + addr, pa_nbImmediates := pa_nbImmediates A + 1\<rparr>))
     | _ \<Rightarrow> A)"

text \<open>The loop over the operands ends with the first one that makes the instruction indirect.\<close>

fun analyze_operands :: "bin_cfi \<Rightarrow> u64 \<Rightarrow> operand_node list list \<Rightarrow> bool \<times> bool \<Rightarrow> u64 \<Rightarrow> u64 \<Rightarrow> (bool \<times> bool) \<times> u64 \<times> u64" where
  "analyze_operands S start [] flags CK CC = (flags, CK, CC)"
| "analyze_operands S start (vs # ops) flags CK CC =
    (if fst flags then (flags, CK, CC)
     else
       let flags = fold visit_indirect vs flags;
           A = fold (visit_possible S start) vs \<lparr>pa_accumulator = 0, pa_nbImmediates = 0, pa_CK = CK, pa_CC = CC\<rparr>
       in analyze_operands S start ops flags (pa_CK A) (pa_CC A))"

definition parseInstruction :: "u64 \<Rightarrow> u64 \<Rightarrow> instruction \<Rightarrow> bin_cfi \<Rightarrow> bin_cfi" where
  "parseInstruction start lim ins S =
    (let ((isIndirect, isPIC), CK, CC) = analyze_operands S start (in_operands ins) (False, False) no_constant no_constant;
         S = (if CK \<noteq> no_constant \<and> raw_CK S \<noteq> []
              then validateRawCK CK (data_base S) (validateRawCK CK (text_base S) (validateRawCK CK start S)) else S)
     in if in_call ins then
          if \<not> isIndirect \<and> \<not> isPIC then S
          else if isPIC then S
          else S\<lparr>callSites := insert lim (callSites S)\<rparr>
        else S)"

definition parseBlock :: "bp_block \<Rightarrow> bin_cfi \<Rightarrow> bin_cfi" where
  "parseBlock b = fold (parseInstruction (bk_start b) (bk_end b)) (bk_instructions b)"

definition parseProcedure :: "bp_function \<Rightarrow> bin_cfi \<Rightarrow> bin_cfi" where
  "parseProcedure f S = fold parseBlock (bf_blocks f) (S\<lparr>addressesTakenMaybe := insert (bf_start f) (addressesTakenMaybe S)\<rparr>)"

definition parseModule :: "bp_module \<Rightarrow> bin_cfi \<Rightarrow> bin_cfi" where
  "parseModule m = fold parseProcedure (bm_procedures m)"

definition setTextInfo :: "region \<Rightarrow> bin_cfi \<Rightarrow> bin_cfi" where
  "setTextInfo r S =
    (case rg_type r of
       Region_CODE \<Rightarrow> S\<lparr>text_base := rg_base r, text_size := of_nat (length (rg_bytes r))\<rparr>
     | Region_DATA \<Rightarrow> S\<lparr>data_base := rg_base r, data_size := of_nat (length (rg_bytes r))\<rparr>
     | Region_other \<Rightarrow> S)"

definition skip_module :: "string \<Rightarrow> bool" where
  "skip_module name \<longleftrightarrow> name = ''libwrappers.so'' \<or> name = ''libdyninstAPI_RT.so.8.2'' \<or> name = ''libdl.so.2''"

definition parse_modules :: "bp_module \<Rightarrow> bin_cfi \<Rightarrow> bin_cfi" where
  "parse_modules m S = (if skip_module (bm_name m) then S else parseModule m (S\<lparr>at_plt := bm_plt m\<rparr>))"

definition parseImage :: "bp_image \<Rightarrow> bin_cfi \<Rightarrow> bin_cfi option" where
  "parseImage im S =
    (let regions = concat (im_objects im)
     in map_option (fold parse_modules (im_modules im)) (findCKs im regions (fold setTextInfo regions S)))"

definition bin_cfi_reset :: "bp_image \<Rightarrow> bin_cfi \<Rightarrow> bin_cfi option" where
  "bin_cfi_reset im S =
    (let S = S\<lparr>addressesTaken := {}, callSites := {}, raw_CC := [], raw_CK := [], at_plt := [], addressesTakenMaybe := {}\<rparr>
     in map_option (\<lambda>S. S\<lparr>addressesTaken := addressesTakenMaybe S\<rparr>) (parseImage im S))"

section \<open>The policy that counts from the graph\<close>

definition fct_count_calls :: "cfg \<Rightarrow> nat \<Rightarrow> u64 set \<Rightarrow> u64 set" where
  "fct_count_calls G f calls =
    (if is_lib_dummy (fns G ! f) then calls
     else fold (\<lambda>b. fold (\<lambda>e calls.
            if e_hidden (edges G ! e) then calls
            else if \<not> is_indirect_call (edges G ! e) then calls
            else insert (end_address (bbs G ! e_source (edges G ! e))) calls) (incoming_edges (bbs G ! b)))
          (entry_points (fns G ! f)) calls)"

definition insertATsFromCFG :: "cfg \<Rightarrow> nat \<Rightarrow> u64 set \<Rightarrow> u64 set" where
  "insertATsFromCFG G b ats =
    fold (\<lambda>e ats.
      let x = edges G ! e; start = start_address (bbs G ! e_target x)
      in if e_hidden x then ats
         else if e_intra x then ats
         else if \<not> is_indirect_call x then ats
         else if start AND 0xff00 = 0x2900 then ats
         else insert start ats) (outgoing_edges (bbs G ! b)) ats"

definition fct_count_at :: "cfg \<Rightarrow> nat \<Rightarrow> u64 set \<Rightarrow> u64 set" where
  "fct_count_at G f ats =
    (if is_lib_dummy (fns G ! f) then ats else fold (insertATsFromCFG G) (basic_blocks (fns G ! f)) ats)"

definition cfg_reset :: "cfg \<Rightarrow> u64 set \<times> u64 set" where
  "cfg_reset G = (fold (fct_count_calls G) (map snd (addr2fn G)) {}, fold (fct_count_at G) (map snd (addr2fn G)) {})"

section \<open>Selecting a policy\<close>

datatype at_policy = AT_bin_cfi | AT_lockdown | AT_cfg

text \<open>\<open>p\<close> is the static variable; the new value is the result.\<close>

definition getAddressTakenParser :: "at_policy option \<Rightarrow> string \<Rightarrow> at_policy" where
  "getAddressTakenParser p policy_name =
    (case p of
       Some q \<Rightarrow> q
     | None \<Rightarrow>
         if policy_name = ''bin-cfi'' then AT_bin_cfi
         else if policy_name = ''lockdown'' then AT_lockdown
         else AT_cfg)"

text \<open>\<open>set\<close> of the selected policy, and what \<open>getCallSites\<close> and \<open>getAddressesTaken\<close> then return.\<close>

definition at_set :: "at_policy \<Rightarrow> bp_image \<Rightarrow> cfg \<Rightarrow> bin_cfi \<Rightarrow> (u64 set \<times> u64 set) option" where
  "at_set p im G S =
    (case p of
       AT_bin_cfi \<Rightarrow> map_option (\<lambda>S. (callSites S, addressesTaken S)) (bin_cfi_reset im S)
     | AT_lockdown \<Rightarrow> Some ({}, {})
     | AT_cfg \<Rightarrow> Some (cfg_reset G))"

section \<open>What the bin-cfi policy reports\<close>

text \<open>
  Whether an instruction calls through a register or memory: the first operand that mentions
  one of them decides, unless it is relative to the instruction pointer.
\<close>

definition touches :: "operand_node \<Rightarrow> bool" where
  "touches v = (case v of Dereference \<Rightarrow> True | RegisterAST _ \<Rightarrow> True | _ \<Rightarrow> False)"

definition calls_indirectly :: "instruction \<Rightarrow> bool" where
  "calls_indirectly ins \<longleftrightarrow> in_call ins \<and>
    (case find (list_ex touches) (in_operands ins) of None \<Rightarrow> False | Some vs \<Rightarrow> RegisterAST True \<notin> set vs)"

fun operand_flags :: "operand_node list list \<Rightarrow> bool \<times> bool \<Rightarrow> bool \<times> bool" where
  "operand_flags [] fl = fl"
| "operand_flags (vs # ops) fl = (if fst fl then fl else operand_flags ops (fold visit_indirect vs fl))"

lemma analyze_flags: "fst (analyze_operands S a ops fl CK CC) = operand_flags ops fl"
  by (induction ops arbitrary: fl CK CC) (simp_all add: Let_def)

lemma visit_pic: "snd (fold visit_indirect vs fl) \<longleftrightarrow> snd fl \<or> RegisterAST True \<in> set vs"
  by (induction vs arbitrary: fl) (auto simp: visit_indirect_def Let_def split: operand_node.splits prod.splits)

lemma visit_touch: "RegisterAST True \<notin> set vs \<Longrightarrow> fold visit_indirect vs (i, False) = (i \<or> list_ex touches vs, False)"
proof (induction vs arbitrary: i)
  case (Cons v vs)
  have "visit_indirect v (i, False) = (i \<or> touches v, False)" using Cons.prems by (cases v) (auto simp: visit_indirect_def touches_def Let_def)
  then show ?case using Cons by (simp add: disj_assoc)
qed simp

lemma flags_pic: "snd fl \<Longrightarrow> snd (operand_flags ops fl)"
  by (induction ops arbitrary: fl) (simp_all add: visit_pic)

lemma flags_indirect:
  "(fst (operand_flags ops (False, False)) \<and> \<not> snd (operand_flags ops (False, False))) \<longleftrightarrow>
    (case find (list_ex touches) ops of None \<Rightarrow> False | Some vs \<Rightarrow> RegisterAST True \<notin> set vs)"
proof (induction ops)
  case (Cons vs ops)
  let ?fl = "fold visit_indirect vs (False, False)"
  show ?case
  proof (cases "RegisterAST True \<in> set vs")
    case True
    then have "snd ?fl" "list_ex touches vs" by (auto simp: visit_pic list_ex_iff touches_def intro!: bexI [of _ "RegisterAST True"])
    then show ?thesis using True flags_pic [of ?fl ops] by simp
  next
    case False
    then have "?fl = (list_ex touches vs, False)" by (simp add: visit_touch)
    then show ?thesis using Cons.IH False by (cases ops) simp_all
  qed
qed simp

text \<open>The search for constants changes neither the call sites nor the functions met so far.\<close>

lemma validate_frame [simp]:
  "callSites (validateRawCK v b S) = callSites S" "addressesTakenMaybe (validateRawCK v b S) = addressesTakenMaybe S"
  by (simp_all add: validateRawCK_def Let_def)

lemma parseInstruction_effect:
  "callSites (parseInstruction a l ins S) = callSites S \<union> (if calls_indirectly ins then {l} else {}) \<and>
    addressesTakenMaybe (parseInstruction a l ins S) = addressesTakenMaybe S"
proof -
  obtain i q CK CC where r: "analyze_operands S a (in_operands ins) (False, False) no_constant no_constant = ((i, q), CK, CC)" by (metis prod.exhaust)
  then have "operand_flags (in_operands ins) (False, False) = (i, q)" using analyze_flags [of S a "in_operands ins" "(False, False)" no_constant no_constant] by simp
  then have "calls_indirectly ins \<longleftrightarrow> in_call ins \<and> i \<and> \<not> q" using flags_indirect [of "in_operands ins"] by (simp add: calls_indirectly_def)
  then show ?thesis unfolding parseInstruction_def r Let_def prod.case by simp
qed

text \<open>A loop each of whose steps adds to two sets.\<close>

lemma fold_adds:
  assumes "\<And>x S. callSites (step x S) = callSites S \<union> C x \<and> addressesTakenMaybe (step x S) = addressesTakenMaybe S \<union> M x"
  shows "callSites (fold step xs S) = callSites S \<union> (\<Union>x \<in> set xs. C x) \<and>
    addressesTakenMaybe (fold step xs S) = addressesTakenMaybe S \<union> (\<Union>x \<in> set xs. M x)"
  by (induction xs arbitrary: S) (simp_all add: assms Un_assoc)

definition block_sites :: "bp_block \<Rightarrow> u64 set" where
  "block_sites b = (if list_ex calls_indirectly (bk_instructions b) then {bk_end b} else {})"

lemma parseBlock_effect: "callSites (parseBlock b S) = callSites S \<union> block_sites b \<and> addressesTakenMaybe (parseBlock b S) = addressesTakenMaybe S \<union> {}"
proof -
  have "(\<Union>i \<in> set (bk_instructions b). if calls_indirectly i then {bk_end b} else {}) = block_sites b"
    by (auto simp: block_sites_def list_ex_iff split: if_splits)
  then show ?thesis
    using fold_adds [of "parseInstruction (bk_start b) (bk_end b)" "\<lambda>i. if calls_indirectly i then {bk_end b} else {}" "\<lambda>_. {}"] parseInstruction_effect
    unfolding parseBlock_def by simp
qed

lemma parseProcedure_effect:
  "callSites (parseProcedure f S) = callSites S \<union> \<Union> (block_sites ` set (bf_blocks f)) \<and>
    addressesTakenMaybe (parseProcedure f S) = addressesTakenMaybe S \<union> {bf_start f}"
  using fold_adds [of parseBlock block_sites "\<lambda>_. {}", OF parseBlock_effect] by (simp add: parseProcedure_def)

abbreviation procedures :: "bp_module \<Rightarrow> bp_function set" where
  "procedures m \<equiv> if skip_module (bm_name m) then {} else set (bm_procedures m)"

lemma parse_modules_effect:
  "callSites (parse_modules m S) = callSites S \<union> (\<Union>f \<in> procedures m. \<Union> (block_sites ` set (bf_blocks f))) \<and>
    addressesTakenMaybe (parse_modules m S) = addressesTakenMaybe S \<union> (\<Union>f \<in> procedures m. {bf_start f})"
  using fold_adds [of parseProcedure "\<lambda>f. \<Union> (block_sites ` set (bf_blocks f))" "\<lambda>f. {bf_start f}", OF parseProcedure_effect]
  by (simp add: parse_modules_def parseModule_def)

definition same_sets :: "bin_cfi \<Rightarrow> bin_cfi \<Rightarrow> bool" where
  "same_sets S S' \<longleftrightarrow> callSites S' = callSites S \<and> addressesTakenMaybe S' = addressesTakenMaybe S \<and> text_base S' = text_base S \<and> text_size S' = text_size S"

lemma parse_words_frame: "same_sets S (fold (parse_word im a buf) ps S)"
proof (induction ps arbitrary: S)
  case (Cons p ps)
  have "same_sets S (parse_word im a buf p S)" by (simp add: same_sets_def parse_word_def Let_def)
  then show ?case using Cons [of "parse_word im a buf p S"] by (simp add: same_sets_def)
qed (simp add: same_sets_def)

lemma findCKs_result:
  "if text_base S = 0 \<or> text_size S = 0
    then findCKs im rs S = (if \<exists>r \<in> set rs. rg_type r \<noteq> Region_other then None else Some S)
    else \<exists>S'. findCKs im rs S = Some S' \<and> same_sets S S'"
proof (induction rs arbitrary: S)
  case (Cons r rs)
  let ?S = "fold (parse_word im (rg_base r) (rg_bytes r)) [0..<length (rg_bytes r) - 8] S"
  show ?case
  proof (cases "rg_type r = Region_other")
    case True
    then show ?thesis using Cons [of S] by simp
  next
    case False
    then have f: "findCKs im (r # rs) S = Option.bind (parseRaw im r S) (findCKs im rs)" by (cases "rg_type r") simp_all
    have "same_sets S ?S" by (rule parse_words_frame)
    then show ?thesis unfolding f using False Cons [of ?S] by (auto simp: parseRaw_def same_sets_def)
  qed
qed (simp add: same_sets_def)

definition all_procedures :: "bp_image \<Rightarrow> bp_function set" where
  "all_procedures im = (\<Union>m \<in> set (im_modules im). procedures m)"

text \<open>The results, as a function of the image.\<close>

definition reported_sites :: "bp_image \<Rightarrow> u64 set" where
  "reported_sites im = {bk_end b | f b. f \<in> all_procedures im \<and> b \<in> set (bf_blocks f) \<and> (\<exists>i \<in> set (bk_instructions b). calls_indirectly i)}"

definition reported_targets :: "bp_image \<Rightarrow> u64 set" where
  "reported_targets im = {bf_start f | f. f \<in> all_procedures im}"

lemma sites_eq: "(\<Union>m \<in> set (im_modules im). \<Union>f \<in> procedures m. \<Union> (block_sites ` set (bf_blocks f))) = reported_sites im"
proof -
  have "\<Union> (block_sites ` set bs) = {bk_end b | b. b \<in> set bs \<and> (\<exists>i \<in> set (bk_instructions b). calls_indirectly i)}" for bs
    by (auto simp: block_sites_def list_ex_iff split: if_splits)
  then show ?thesis unfolding reported_sites_def all_procedures_def by (simp only:) blast
qed

lemma targets_eq: "(\<Union>m \<in> set (im_modules im). \<Union>f \<in> procedures m. {bf_start f}) = reported_targets im"
  unfolding reported_targets_def all_procedures_def by blast

lemma modules_result:
  assumes "callSites S = {}" "addressesTakenMaybe S = {}"
  shows "callSites (fold parse_modules (im_modules im) S) = reported_sites im" "addressesTakenMaybe (fold parse_modules (im_modules im) S) = reported_targets im"
  using fold_adds [of parse_modules, OF parse_modules_effect, of "im_modules im" S] unfolding sites_eq targets_eq assms by simp_all

lemma setTextInfo_frame [simp]:
  "callSites (fold setTextInfo rs S) = callSites S" "addressesTakenMaybe (fold setTextInfo rs S) = addressesTakenMaybe S"
proof -
  have "callSites (setTextInfo r S) = callSites S \<and> addressesTakenMaybe (setTextInfo r S) = addressesTakenMaybe S" for r S
    by (cases "rg_type r") (simp_all add: setTextInfo_def)
  then show "callSites (fold setTextInfo rs S) = callSites S" "addressesTakenMaybe (fold setTextInfo rs S) = addressesTakenMaybe S"
    by (induction rs arbitrary: S) simp_all
qed

lemma text_info:
  "text_base S1 = text_base S2 \<and> text_size S1 = text_size S2 \<Longrightarrow>
    text_base (fold setTextInfo rs S1) = text_base (fold setTextInfo rs S2) \<and> text_size (fold setTextInfo rs S1) = text_size (fold setTextInfo rs S2)"
proof (induction rs arbitrary: S1 S2)
  case (Cons r rs)
  have "text_base (setTextInfo r S1) = text_base (setTextInfo r S2) \<and> text_size (setTextInfo r S1) = text_size (setTextInfo r S2)"
    using Cons.prems by (cases "rg_type r") (simp_all add: setTextInfo_def)
  from Cons.IH [OF this] show ?case by (simp only: fold_simps)
qed (simp only: fold_simps)

text \<open>
  C29: The bin-cfi policy.  The analysis aborts exactly when there is code or data to be
  read and no text region is known.  Otherwise it reports as possible call targets the
  start of every function of every module that is not skipped, whatever constants it found, and as
  call sites the ends of the blocks with a call through a register or memory that is
  not relative to the instruction pointer.
\<close>

theorem bin_cfi_exact:
  fixes im :: bp_image and S :: bin_cfi
  defines "T \<equiv> fold setTextInfo (concat (im_objects im)) S"
  shows "at_set AT_bin_cfi im G S =
    (if (text_base T = 0 \<or> text_size T = 0) \<and> (\<exists>r \<in> set (concat (im_objects im)). rg_type r \<noteq> Region_other) then None
     else Some ({bk_end b | f b. f \<in> all_procedures im \<and> b \<in> set (bf_blocks f) \<and> (\<exists>i \<in> set (bk_instructions b). calls_indirectly i)},
                {bf_start f | f. f \<in> all_procedures im}))"
proof -
  let ?rs = "concat (im_objects im)"
  define S0 where "S0 = S\<lparr>addressesTaken := {}, callSites := {}, raw_CC := [], raw_CK := [], at_plt := [], addressesTakenMaybe := {}\<rparr>"
  define T0 where "T0 = fold setTextInfo ?rs S0"
  have "text_base S0 = text_base S" "text_size S0 = text_size S" "callSites S0 = {}" "addressesTakenMaybe S0 = {}" by (simp_all add: S0_def)
  then have t: "text_base T0 = text_base T" "text_size T0 = text_size T" "callSites T0 = {}" "addressesTakenMaybe T0 = {}"
    using text_info [of S0 S ?rs] by (simp_all add: T0_def T_def)
  have run: "at_set AT_bin_cfi im G S =
      map_option (\<lambda>S. (callSites (fold parse_modules (im_modules im) S), addressesTakenMaybe (fold parse_modules (im_modules im) S))) (findCKs im ?rs T0)"
    by (simp add: at_set_def bin_cfi_reset_def parseImage_def Let_def option.map_comp comp_def S0_def T0_def)
  show ?thesis
  proof (cases "text_base T = 0 \<or> text_size T = 0")
    case True
    then have "findCKs im ?rs T0 = (if \<exists>r \<in> set ?rs. rg_type r \<noteq> Region_other then None else Some T0)"
      using findCKs_result [of T0 im ?rs] unfolding t by (simp only: if_True)
    then show ?thesis unfolding run using True modules_result [OF t(3,4), of im] by (simp add: reported_sites_def reported_targets_def)
  next
    case False
    then obtain S' where S': "findCKs im ?rs T0 = Some S'" "same_sets T0 S'"
      using findCKs_result [of T0 im ?rs] unfolding t by (auto simp only: if_False)
    then have "callSites S' = {}" "addressesTakenMaybe S' = {}" using t(3,4) by (simp_all add: same_sets_def)
    then show ?thesis unfolding run S'(1) using False modules_result [of S' im] by (simp add: reported_sites_def reported_targets_def)
  qed
qed

section \<open>What the graph policy reports\<close>

lemma fold_inserts:
  assumes "\<And>x A. step x A = A \<union> F x"
  shows "fold step xs A = A \<union> (\<Union>x \<in> set xs. F x)"
  by (induction xs arbitrary: A) (simp_all add: assms Un_assoc)

definition call_edge :: "cfg \<Rightarrow> nat \<Rightarrow> bool" where
  "call_edge G e \<longleftrightarrow> \<not> e_hidden (edges G ! e) \<and> is_indirect_call (edges G ! e)"

text \<open>
  C30: The policy that counts from the graph.  Its call sites are the ends of the blocks
  with a visible indirect call to an entry point of a function, and its possible targets
  the starts of the blocks to which a visible indirect call leaves a function, in
  each case of functions that are not library dummies.  Targets whose second byte is
  0x29 are not reported, wherever they are.
\<close>

theorem cfg_policy_exact:
  fixes G :: cfg
  defines "F \<equiv> {f. f \<in> snd ` set (addr2fn G) \<and> \<not> is_lib_dummy (fns G ! f)}"
  shows "at_set AT_cfg im G S = Some
    ({end_address (bbs G ! e_source (edges G ! e)) | f b e.
        f \<in> F \<and> b \<in> set (entry_points (fns G ! f)) \<and> e \<in> set (incoming_edges (bbs G ! b)) \<and> call_edge G e},
     {start_address (bbs G ! e_target (edges G ! e)) | f b e.
        f \<in> F \<and> b \<in> set (basic_blocks (fns G ! f)) \<and> e \<in> set (outgoing_edges (bbs G ! b)) \<and> call_edge G e \<and> \<not> e_intra (edges G ! e) \<and>
        start_address (bbs G ! e_target (edges G ! e)) AND 0xff00 \<noteq> 0x2900})"
proof -
  let ?s = "\<lambda>e. if call_edge G e then {end_address (bbs G ! e_source (edges G ! e))} else {}"
  let ?t = "\<lambda>e. let a = start_address (bbs G ! e_target (edges G ! e)) in if call_edge G e \<and> \<not> e_intra (edges G ! e) \<and> a AND 0xff00 \<noteq> 0x2900 then {a} else {}"
  have c: "fct_count_calls G f A = A \<union> (if is_lib_dummy (fns G ! f) then {} else \<Union>b \<in> set (entry_points (fns G ! f)). \<Union>e \<in> set (incoming_edges (bbs G ! b)). ?s e)" for f A
  proof -
    have "fold (\<lambda>e calls. if e_hidden (edges G ! e) then calls else if \<not> is_indirect_call (edges G ! e) then calls
            else insert (end_address (bbs G ! e_source (edges G ! e))) calls) es A = A \<union> (\<Union>e \<in> set es. ?s e)" for es A
      by (rule fold_inserts) (simp add: call_edge_def)
    then show ?thesis unfolding fct_count_calls_def by (simp add: fold_inserts)
  qed
  have "insertATsFromCFG G b A = A \<union> (\<Union>e \<in> set (outgoing_edges (bbs G ! b)). ?t e)" for b A
    unfolding insertATsFromCFG_def by (rule fold_inserts) (simp add: call_edge_def Let_def)
  then have a: "fct_count_at G f A = A \<union> (if is_lib_dummy (fns G ! f) then {} else \<Union>b \<in> set (basic_blocks (fns G ! f)). \<Union>e \<in> set (outgoing_edges (bbs G ! b)). ?t e)" for f A
    unfolding fct_count_at_def by (simp add: fold_inserts)
  show ?thesis
    unfolding at_set_def cfg_reset_def at_policy.case fold_inserts [of "fct_count_calls G", OF c] fold_inserts [of "fct_count_at G", OF a]
    by (auto simp: F_def Let_def image_iff split: if_splits; force)
qed

text \<open>The first selection is final.\<close>

lemma policy_fixed: "getAddressTakenParser (Some (getAddressTakenParser p n)) n' = getAddressTakenParser p n"
  by (simp add: getAddressTakenParser_def)

end
