(* ===== verification/Lbr_States.thy ===== *)
theory Lbr_States
  imports Jit_Search
begin

text \<open>
  The offline enumeration of LBR states (\<open>LBRState\<close>, \<open>LBRStateSet\<close>, \<open>LBRStateMap\<close>,
  \<open>LBRConfig\<close>, \<open>DFSState\<close> and \<open>get_lbr_states\<close> in
  \<open>src/dyninst-static/lbr_analysis.C\<close>).  For every dangerous library function the
  search walks the graph backwards from the function's entry points and stores the
  recorded branches of each path that fills the window.

  An \<open>LBRState\<close> is the list of its edges, the newest one first.  Objects are values:
  what is pushed on a vector is a copy.  Memory management, messages and the
  statistics are left out, \<open>break_direct_cycle\<close> and the cycle marks too: nothing
  calls them.
\<close>

section \<open>States and sets of states\<close>

type_synonym lbr_state = "nat list"

definition append_edge :: "nat \<Rightarrow> lbr_state \<Rightarrow> lbr_state" where
  "append_edge e s = (if length s < LBR_SIZE then s @ [e] else s)"

definition state_source :: "cfg \<Rightarrow> lbr_state \<Rightarrow> nat \<Rightarrow> u64" where
  "state_source G s i = last_insn_address (bbs G ! e_source (edges G ! (s ! i)))"

definition state_target :: "cfg \<Rightarrow> lbr_state \<Rightarrow> nat \<Rightarrow> u64" where
  "state_target G s i = start_address (bbs G ! e_target (edges G ! (s ! i)))"

text \<open>The comparison starts with the last edge.\<close>

fun equals_below :: "lbr_state \<Rightarrow> lbr_state \<Rightarrow> nat \<Rightarrow> bool" where
  "equals_below s t 0 = True"
| "equals_below s t (Suc i) = (if s ! i \<noteq> t ! i then False else equals_below s t i)"

definition state_equals :: "lbr_state \<Rightarrow> lbr_state \<Rightarrow> bool" where
  "state_equals s t = (if length s \<noteq> length t then False else equals_below s t (length s))"

record state_set =
  ss_func :: nat
  ss_state :: "lbr_state list"
  states_by_last_edge :: "nat \<Rightarrow> lbr_state list"

definition new_state_set :: "nat \<Rightarrow> state_set" where
  "new_state_set f = \<lparr>ss_func = f, ss_state = [], states_by_last_edge = (\<lambda>_. [])\<rparr>"

definition append_state :: "lbr_state \<Rightarrow> state_set \<Rightarrow> state_set" where
  "append_state s S =
    (let k = s ! (length s - 1)
     in S\<lparr>ss_state := ss_state S @ [s], states_by_last_edge := (states_by_last_edge S)(k := states_by_last_edge S k @ [s])\<rparr>)"

definition find_state :: "lbr_state \<Rightarrow> state_set \<Rightarrow> lbr_state option" where
  "find_state s S = find (\<lambda>t. state_equals t s) (states_by_last_edge S (s ! (length s - 1)))"

definition copy_state_set :: "state_set \<Rightarrow> state_set" where
  "copy_state_set S = fold append_state (ss_state S) (new_state_set (ss_func S))"

definition append_states :: "state_set \<Rightarrow> state_set \<Rightarrow> state_set" where
  "append_states T S = fold append_state (ss_state T) S"

section \<open>Configuration\<close>

record lbr_config =
  blacklist :: "string list"
  window_size :: nat

definition default_blacklist :: "string list" where
  "default_blacklist = [''execve'', ''execl'', ''execlp'', ''execle'', ''execv'', ''execvp'', ''execvpe'', ''fexecve'', ''mprotect'',
     ''mmap'', ''mmap64'', ''system'', ''syscall'', ''raise'', ''kill'', ''pthread_kill'', ''tkill'', ''tgkill'', ''sigaction'', ''signal'']"

text \<open>The assertions of \<open>set_window_size\<close>.\<close>

definition set_window_size :: "nat \<Rightarrow> lbr_config \<Rightarrow> lbr_config option" where
  "set_window_size w c = (if 1 < w \<and> w \<le> LBR_SIZE \<and> w \<le> WINDOW_SIZE then Some (c\<lparr>window_size := w\<rparr>) else None)"

definition new_config :: "bool \<Rightarrow> nat \<Rightarrow> lbr_config option" where
  "new_config init_blacklist w =
    set_window_size w \<lparr>blacklist = (if init_blacklist then default_blacklist else []), window_size = 0\<rparr>"

definition is_blacklisted :: "string \<Rightarrow> lbr_config \<Rightarrow> bool" where
  "is_blacklisted f c \<longleftrightarrow> f \<in> set (blacklist c)"

section \<open>The search state\<close>

text \<open>\<open>lbr_edge\<close> are the first \<open>len\<close> elements of the array; \<open>shadow_bb\<close> is \<open>when_scheduled\<close> of the scheduled blocks.\<close>

record dfs_state =
  lbr_edge :: "nat list"
  dfs_path :: "nat list"
  shadow_visited :: "nat \<Rightarrow> nat"
  shadow_blacklisted :: "nat \<Rightarrow> bool"
  state_set :: state_set
  window_shift :: nat
  search_queue :: "nat list"
  shadow_bb :: "nat \<rightharpoonup> nat"

definition new_dfs :: "nat \<Rightarrow> dfs_state" where
  "new_dfs f = \<lparr>lbr_edge = [], dfs_path = [], shadow_visited = (\<lambda>_. 0), shadow_blacklisted = (\<lambda>_. False), state_set = new_state_set f,
     window_shift = 0, search_queue = [], shadow_bb = Map.empty\<rparr>"

definition store_lbr_state :: "dfs_state \<Rightarrow> dfs_state" where
  "store_lbr_state st =
    (if lbr_edge st = [] then st
     else if find_state (lbr_edge st) (state_set st) \<noteq> None then st
     else st\<lparr>state_set := append_state (lbr_edge st) (state_set st)\<rparr>)"

definition schedule_node :: "nat \<Rightarrow> dfs_state \<Rightarrow> dfs_state" where
  "schedule_node b st =
    (if shadow_bb st b = None then st\<lparr>search_queue := search_queue st @ [b], shadow_bb := (shadow_bb st)(b \<mapsto> window_shift st)\<rparr> else st)"

section \<open>The search\<close>

definition SEARCH_DEPTH :: nat where "SEARCH_DEPTH = 0"

text \<open>The loop over the path, from its end; \<open>bb\<close> is the block behind the call.\<close>

fun calls_match :: "cfg \<Rightarrow> nat option \<Rightarrow> nat \<Rightarrow> nat list \<Rightarrow> bool" where
  "calls_match G bb level [] = True"
| "calls_match G bb level (f # fs) =
    (if edge_is_call (edges G ! f) then calls_match G bb (level + 1) fs
     else if edge_is_return (edges G ! f) then
       if level \<noteq> 0 then calls_match G bb (level - 1) fs
       else case bb of None \<Rightarrow> False | Some b \<Rightarrow> b = e_target (edges G ! f)
     else calls_match G bb level fs)"

definition edge_is_traversable :: "cfg \<Rightarrow> nat \<Rightarrow> nat list \<Rightarrow> bool" where
  "edge_is_traversable G e p =
    (if edge_is_call (edges G ! e) then calls_match G (get_fallthrough_bb G (e_source (edges G ! e))) 0 (rev p) else True)"

text \<open>
  The signature of a cycle is made of the addresses of its edges, \<open>addr\<close>.  \<open>None\<close> is an
  access in front of the path.
\<close>

definition scramble :: "u64 \<Rightarrow> u64" where
  "scramble s = (let s = s XOR drop_bit 12 s; s = s XOR push_bit 25 s; s = s XOR drop_bit 27 s in s * 2685821657736338717)"

fun cycle_signature :: "cfg \<Rightarrow> (nat \<Rightarrow> u64) \<Rightarrow> nat \<Rightarrow> u64 \<Rightarrow> nat list \<Rightarrow> u64 option" where
  "cycle_signature G addr e sig [] = None"
| "cycle_signature G addr e sig (f # fs) =
    (let sig = sig XOR scramble (addr f)
     in if edge_is_indirect (edges G ! f) then Some 0
        else if f = e then Some sig
        else cycle_signature G addr e sig fs)"

definition is_direct_cycle :: "cfg \<Rightarrow> (nat \<Rightarrow> u64) \<Rightarrow> nat \<Rightarrow> nat list \<Rightarrow> u64 option" where
  "is_direct_cycle G addr e p =
    (if edge_is_indirect (edges G ! e) then Some 0 else cycle_signature G addr e 0xffffffff (rev p))"

text \<open>An edge is entered: the branch is recorded if it is indirect, and a full window schedules the next root.\<close>

definition enter_edge :: "cfg \<Rightarrow> nat \<Rightarrow> nat \<Rightarrow> dfs_state \<Rightarrow> dfs_state" where
  "enter_edge G w e st =
    (let st = (if edge_is_indirect (edges G ! e) then st\<lparr>lbr_edge := lbr_edge st @ [e]\<rparr> else st);
         st = st\<lparr>shadow_visited := (shadow_visited st)(e := shadow_visited st e + 1)\<rparr>;
         st = st\<lparr>dfs_path := dfs_path st @ [e]\<rparr>
     in if length (lbr_edge st) = w \<and> 1 + window_shift st * (w - 1) < LBR_SIZE
        then schedule_node (e_target (edges G ! e)) st else st)"

definition leave_edge :: "cfg \<Rightarrow> nat \<Rightarrow> dfs_state \<Rightarrow> dfs_state" where
  "leave_edge G e st =
    (let st = st\<lparr>dfs_path := butlast (dfs_path st)\<rparr>;
         st = st\<lparr>shadow_visited := (shadow_visited st)(e := shadow_visited st e - 1)\<rparr>
     in if edge_is_indirect (edges G ! e) then st\<lparr>lbr_edge := butlast (lbr_edge st)\<rparr> else st)"

text \<open>\<open>search_sources\<close> is the loop over the incoming edges of the source block.\<close>

function (sequential) search_inbound_edges :: "nat \<Rightarrow> cfg \<Rightarrow> (nat \<Rightarrow> u64) \<Rightarrow> nat \<Rightarrow> nat \<Rightarrow> dfs_state \<Rightarrow> dfs_state option"
  and search_sources :: "nat \<Rightarrow> cfg \<Rightarrow> (nat \<Rightarrow> u64) \<Rightarrow> nat \<Rightarrow> nat list \<Rightarrow> dfs_state \<Rightarrow> dfs_state option" where
  "search_inbound_edges 0 G addr w e st = None"
| "search_inbound_edges (Suc n) G addr w e st =
    (if shadow_blacklisted st e then Some st
     else if 0 < SEARCH_DEPTH \<and> SEARCH_DEPTH \<le> length (dfs_path st) then Some st
     else case (if shadow_visited st e \<noteq> 0 then is_direct_cycle G addr e (dfs_path st) else Some 0) of
         None \<Rightarrow> None
       | Some sig \<Rightarrow>
           if sig \<noteq> 0 then Some st
           else
             let st = enter_edge G w e st; bb = bbs G ! e_source (edges G ! e)
             in map_option (leave_edge G e)
                  (if length (lbr_edge st) = w \<or> incoming_edges bb = [] then Some (store_lbr_state st)
                   else search_sources n G addr w (incoming_edges bb) st))"
| "search_sources n G addr w [] st = Some st"
| "search_sources n G addr w (f # fs) st =
    (if edge_is_hidden (edges G ! f) then search_sources n G addr w fs st
     else if \<not> edge_is_traversable G f (dfs_path st) then search_sources n G addr w fs st
     else Option.bind (search_inbound_edges n G addr w f st) (search_sources n G addr w fs))"
  by pat_completeness auto
termination
  by (relation "measures [case_sum (\<lambda>(n, _). n) (\<lambda>(n, _). n), case_sum (\<lambda>_. 0) (\<lambda>(n, G, addr, w, fs, st). Suc (length fs))]") auto

text \<open>\<open>foreach_incoming_edge\<close> with this callback.\<close>

fun search_root :: "nat \<Rightarrow> cfg \<Rightarrow> (nat \<Rightarrow> u64) \<Rightarrow> nat \<Rightarrow> nat list \<Rightarrow> dfs_state \<Rightarrow> dfs_state option" where
  "search_root n G addr w [] st = Some st"
| "search_root n G addr w (e # es) st = Option.bind (search_inbound_edges n G addr w e st) (search_root n G addr w es)"

partial_function (option) search_loop :: "nat \<Rightarrow> cfg \<Rightarrow> (nat \<Rightarrow> u64) \<Rightarrow> nat \<Rightarrow> dfs_state \<Rightarrow> dfs_state option" where
  "search_loop n G addr w st =
    (case search_queue st of
       [] \<Rightarrow> Some st
     | b # q \<Rightarrow>
         (case shadow_bb st b of
            None \<Rightarrow> None
          | Some s \<Rightarrow>
              Option.bind (search_root n G addr w (incoming_edges (bbs G ! b)) (st\<lparr>search_queue := q, window_shift := s + 1\<rparr>))
                (search_loop n G addr w)))"

definition get_func_lbr_states :: "nat \<Rightarrow> cfg \<Rightarrow> (nat \<Rightarrow> u64) \<Rightarrow> lbr_config \<Rightarrow> nat \<Rightarrow> state_set list \<Rightarrow> state_set list option" where
  "get_func_lbr_states n G addr c f smap =
    (if \<not> is_lib_dummy (fns G ! f) then Some smap
     else if \<not> is_blacklisted (funname (fns G ! f)) c then Some smap
     else map_option (\<lambda>st. smap @ [copy_state_set (state_set st)])
            (search_loop n G addr (window_size c) (fold schedule_node (entry_points (fns G ! f)) (new_dfs f))))"

fun get_lbr_states :: "nat \<Rightarrow> cfg \<Rightarrow> (nat \<Rightarrow> u64) \<Rightarrow> lbr_config \<Rightarrow> (u64 \<times> nat) list \<Rightarrow> state_set list \<Rightarrow> state_set list option" where
  "get_lbr_states n G addr c [] smap = Some smap"
| "get_lbr_states n G addr c ((a, f) # fs) smap =
    Option.bind (get_func_lbr_states n G addr c f smap) (get_lbr_states n G addr c fs)"

section \<open>The index of a set of states\<close>

lemma equals_below_iff: "equals_below s t n \<longleftrightarrow> (\<forall>i < n. s ! i = t ! i)"
  by (induction n) (auto simp: less_Suc_eq)

lemma state_equals_iff [simp]: "state_equals s t \<longleftrightarrow> s = t"
  by (auto simp: state_equals_def equals_below_iff list_eq_iff_nth_eq)

text \<open>What the search relies on: membership, and adding what is not there.\<close>

locale state_store =
  fixes member :: "lbr_state \<Rightarrow> 's \<Rightarrow> bool" and add :: "lbr_state \<Rightarrow> 's \<Rightarrow> 's" and elements :: "'s \<Rightarrow> lbr_state set" and invar :: "'s \<Rightarrow> bool"
  assumes member_iff: "invar S \<Longrightarrow> s \<noteq> [] \<Longrightarrow> member s S \<longleftrightarrow> s \<in> elements S"
    and elements_add: "elements (add s S) = insert s (elements S)"
    and invar_add: "invar S \<Longrightarrow> s \<noteq> [] \<Longrightarrow> s \<notin> elements S \<Longrightarrow> invar (add s S)"
begin

lemma store_new:
  assumes "invar S" "s \<noteq> []"
  defines "S' \<equiv> if member s S then S else add s S"
  shows "invar S' \<and> elements S' = insert s (elements S)"
  using assms by (auto simp: S'_def member_iff elements_add invar_add)

end

definition indexed :: "state_set \<Rightarrow> bool" where
  "indexed S \<longleftrightarrow> distinct (ss_state S) \<and> [] \<notin> set (ss_state S) \<and>
    (\<forall>k. states_by_last_edge S k = filter (\<lambda>s. last s = k) (ss_state S))"

interpretation store: state_store "\<lambda>s S. find_state s S \<noteq> None" append_state "\<lambda>S. set (ss_state S)" indexed
proof unfold_locales
  show "find_state s S \<noteq> None \<longleftrightarrow> s \<in> set (ss_state S)" if "indexed S" "s \<noteq> []" for s S
    using that by (auto simp: find_state_def indexed_def find_None_iff last_conv_nth)
  show "set (ss_state (append_state s S)) = insert s (set (ss_state S))" for s S by (simp add: append_state_def Let_def)
  show "indexed (append_state s S)" if "indexed S" "s \<noteq> []" "s \<notin> set (ss_state S)" for s S
    using that by (auto simp: indexed_def append_state_def Let_def last_conv_nth)
qed

lemma indexed_new [simp]: "indexed (new_state_set f)"
  by (simp add: indexed_def new_state_set_def)

lemma store_state_set:
  assumes "indexed (state_set st)"
  shows "indexed (state_set (store_lbr_state st)) \<and>
    set (ss_state (state_set (store_lbr_state st))) = set (ss_state (state_set st)) \<union> ({lbr_edge st} - {[]})"
proof (cases "lbr_edge st = []")
  case True
  then show ?thesis using assms by (simp add: store_lbr_state_def)
next
  case False
  have "state_set (store_lbr_state st) =
      (if find_state (lbr_edge st) (state_set st) \<noteq> None then state_set st else append_state (lbr_edge st) (state_set st))"
    using False by (simp add: store_lbr_state_def)
  then have e: "indexed (state_set (store_lbr_state st)) \<and>
      set (ss_state (state_set (store_lbr_state st))) = insert (lbr_edge st) (set (ss_state (state_set st)))"
    using store.store_new [OF assms False] by (simp only:)
  show ?thesis unfolding e [THEN conjunct2] using e False by simp
qed

text \<open>A copy has the same states in the same order.\<close>

lemma append_fold: "ss_state (fold append_state ss S) = ss_state S @ ss"
  by (induction ss arbitrary: S) (simp_all add: append_state_def Let_def)

lemma copy_state_set_states [simp]: "ss_state (copy_state_set S) = ss_state S"
  by (simp add: copy_state_set_def append_fold new_state_set_def)

section \<open>Walks\<close>

text \<open>
  A walk is a list of edges, each of which leads to the source of the one before it.
  \<open>recorded\<close> are its indirect edges, \<open>direct_tail\<close> the edges since the last of them.
\<close>

abbreviation recorded :: "cfg \<Rightarrow> nat list \<Rightarrow> nat list" where
  "recorded G p \<equiv> filter (\<lambda>e. edge_is_indirect (edges G ! e)) p"

definition direct_tail :: "cfg \<Rightarrow> nat list \<Rightarrow> nat list" where
  "direct_tail G p = takeWhile (\<lambda>e. \<not> edge_is_indirect (edges G ! e)) (rev p)"

definition closes_cycle :: "cfg \<Rightarrow> nat \<Rightarrow> nat list \<Rightarrow> bool" where
  "closes_cycle G e p \<longleftrightarrow> \<not> edge_is_indirect (edges G ! e) \<and> e \<in> set (direct_tail G p)"

abbreviation sources :: "cfg \<Rightarrow> nat \<Rightarrow> nat list" where
  "sources G e \<equiv> incoming_edges (bbs G ! e_source (edges G ! e))"

text \<open>
  How a walk may go on: the window is not full, the edge is visible, calls match
  returns, and no cycle of direct edges is closed.
\<close>

definition walk_step :: "cfg \<Rightarrow> nat \<Rightarrow> nat list \<Rightarrow> nat \<Rightarrow> bool" where
  "walk_step G w p f \<longleftrightarrow> length (recorded G p) < w \<and> f \<in> set (sources G (last p)) \<and> \<not> edge_is_hidden (edges G ! f) \<and>
     edge_is_traversable G f p \<and> \<not> closes_cycle G f p"

inductive walks :: "cfg \<Rightarrow> nat \<Rightarrow> nat list \<Rightarrow> nat list \<Rightarrow> bool" for G w where
  stop: "walks G w p p"
| go: "walk_step G w p f \<Longrightarrow> walks G w (p @ [f]) q \<Longrightarrow> walks G w p q"

definition complete :: "cfg \<Rightarrow> nat \<Rightarrow> nat list \<Rightarrow> bool" where
  "complete G w q \<longleftrightarrow> length (recorded G q) = w \<or> sources G (last q) = []"

text \<open>The states of all complete walks that extend \<open>p\<close>, and the blocks at which their windows are full.\<close>

definition windows :: "cfg \<Rightarrow> nat \<Rightarrow> nat list \<Rightarrow> lbr_state set" where
  "windows G w p = {recorded G q | q. walks G w p q \<and> complete G w q \<and> recorded G q \<noteq> []}"

definition full_ends :: "cfg \<Rightarrow> nat \<Rightarrow> nat list \<Rightarrow> nat set" where
  "full_ends G w p = {e_target (edges G ! last q) | q. walks G w p q \<and> length (recorded G q) = w}"

lemma walks_iff: "walks G w p q \<longleftrightarrow> q = p \<or> (\<exists>f. walk_step G w p f \<and> walks G w (p @ [f]) q)"
  by (subst walks.simps) auto

lemma windows_unfold:
  "windows G w p = (if complete G w p then {recorded G p} - {[]} else {}) \<union> (\<Union>f \<in> {f. walk_step G w p f}. windows G w (p @ [f]))"
  by (auto simp: windows_def walks_iff [of G w p])

lemma full_ends_unfold:
  "full_ends G w p = (if length (recorded G p) = w then {e_target (edges G ! last p)} else {}) \<union>
    (\<Union>f \<in> {f. walk_step G w p f}. full_ends G w (p @ [f]))"
  by (auto simp: full_ends_def walks_iff [of G w p])

lemma no_step_complete: "complete G w p \<Longrightarrow> \<not> walk_step G w p f"
  by (auto simp: complete_def walk_step_def)

section \<open>The state along a walk\<close>

definition dfs_ok :: "cfg \<Rightarrow> dfs_state \<Rightarrow> bool" where
  "dfs_ok G st \<longleftrightarrow> lbr_edge st = recorded G (dfs_path st) \<and> shadow_visited st = count_list (dfs_path st) \<and>
    (\<forall>e. \<not> shadow_blacklisted st e) \<and> indexed (state_set st) \<and> distinct (direct_tail G (dfs_path st)) \<and>
    successively (\<lambda>e f. f \<in> set (sources G e)) (dfs_path st) \<and> set (dfs_path st) \<subseteq> {..<length (edges G)}"

text \<open>No cycle of direct edges has the signature 0, which stands for no cycle.\<close>

definition signature :: "(nat \<Rightarrow> u64) \<Rightarrow> u64 \<Rightarrow> nat list \<Rightarrow> u64" where
  "signature addr sig es = fold (\<lambda>f s. s XOR scramble (addr f)) es sig"

definition direct_cycle :: "cfg \<Rightarrow> nat list \<Rightarrow> bool" where
  "direct_cycle G es \<longleftrightarrow> es \<noteq> [] \<and> distinct es \<and> (\<forall>e \<in> set es. e < length (edges G) \<and> \<not> edge_is_indirect (edges G ! e)) \<and>
    successively (\<lambda>e f. f \<in> set (sources G e)) es \<and> hd es \<in> set (sources G (last es))"

definition signatures_ok :: "cfg \<Rightarrow> (nat \<Rightarrow> u64) \<Rightarrow> bool" where
  "signatures_ok G addr \<longleftrightarrow> (\<forall>es. direct_cycle G es \<longrightarrow> signature addr 0xffffffff (rev es) \<noteq> 0)"

lemma cycle_signature_eq:
  assumes "e \<in> set xs" "\<not> edge_is_indirect (edges G ! e)"
  shows "cycle_signature G addr e sig xs =
    Some (if e \<in> set (takeWhile (\<lambda>e. \<not> edge_is_indirect (edges G ! e)) xs) then signature addr sig (takeWhile (\<lambda>f. f \<noteq> e) xs @ [e]) else 0)"
  using assms by (induction xs arbitrary: sig) (auto simp: signature_def Let_def)

lemma takeWhile_before:
  assumes "e \<in> set (takeWhile P xs)"
  shows "takeWhile (\<lambda>f. f \<noteq> e) xs = takeWhile (\<lambda>f. f \<noteq> e) (takeWhile P xs)"
  using assms by (induction xs) (auto split: if_splits)

text \<open>The edges of the path from \<open>e\<close> on.\<close>

lemma back_to_edge:
  assumes "e \<in> set p"
  obtains q r where "p = q @ e # r" "e \<notin> set r" "takeWhile (\<lambda>f. f \<noteq> e) (rev p) = rev r"
proof -
  obtain q r where p: "p = q @ e # r" "e \<notin> set r" using split_list_last [OF assms] by blast
  have "takeWhile (\<lambda>f. f \<noteq> e) (rev r @ e # rev q) = rev r" using p(2) by (subst takeWhile_append2) auto
  then show ?thesis using that [OF p] by (simp add: p(1))
qed

lemma tail_from_edge:
  assumes "e \<in> set (direct_tail G (q @ e # r))" "e \<notin> set r"
  shows "\<forall>f \<in> set (e # r). \<not> edge_is_indirect (edges G ! f)" "distinct (direct_tail G (q @ e # r)) \<Longrightarrow> distinct (e # r)"
proof -
  have r: "\<forall>f \<in> set r. \<not> edge_is_indirect (edges G ! f)"
  proof (rule ccontr)
    assume "\<not> ?thesis"
    then have "direct_tail G (q @ e # r) = takeWhile (\<lambda>e. \<not> edge_is_indirect (edges G ! e)) (rev r)"
      by (auto simp: direct_tail_def takeWhile_append1)
    then show False using assms by (auto dest: set_takeWhileD)
  qed
  then have t: "direct_tail G (q @ e # r) = rev r @ takeWhile (\<lambda>e. \<not> edge_is_indirect (edges G ! e)) (e # rev q)"
    using takeWhile_append2 [of "rev r" "\<lambda>e. \<not> edge_is_indirect (edges G ! e)" "e # rev q"] by (simp add: direct_tail_def)
  then show "\<forall>f \<in> set (e # r). \<not> edge_is_indirect (edges G ! f)" using assms r by (auto split: if_splits)
  show "distinct (e # r)" if "distinct (direct_tail G (q @ e # r))" using that t assms by simp
qed

lemma cycle_test:
  assumes ok: "dfs_ok G st" and sigs: "signatures_ok G addr" and next_edge: "dfs_path st = [] \<or> e \<in> set (sources G (last (dfs_path st)))"
  shows "\<exists>s. (if shadow_visited st e \<noteq> 0 then is_direct_cycle G addr e (dfs_path st) else Some 0) = Some s \<and>
    (s \<noteq> 0 \<longleftrightarrow> closes_cycle G e (dfs_path st))"
proof (cases "e \<in> set (dfs_path st) \<and> \<not> edge_is_indirect (edges G ! e)")
  case True
  let ?t = "direct_tail G (dfs_path st)"
  obtain q r where p: "dfs_path st = q @ e # r" "e \<notin> set r" and r: "takeWhile (\<lambda>f. f \<noteq> e) (rev (dfs_path st)) = rev r"
    using back_to_edge True by metis
  have v: "shadow_visited st e \<noteq> 0" using ok True by (simp add: dfs_ok_def count_list_0_iff)
  have s: "is_direct_cycle G addr e (dfs_path st) = Some (if e \<in> set ?t then signature addr 0xffffffff (rev (e # r)) else 0)"
    using True cycle_signature_eq [of e "rev (dfs_path st)" G addr] r by (simp add: is_direct_cycle_def direct_tail_def)
  have "direct_cycle G (e # r)" if e: "e \<in> set ?t"
    using tail_from_edge [of e G q r] e p ok next_edge
    by (auto simp: direct_cycle_def dfs_ok_def successively_append_iff)
  then show ?thesis using v s True sigs unfolding signatures_ok_def by (auto simp: closes_cycle_def)
next
  case False
  have "shadow_visited st e \<noteq> 0 \<longleftrightarrow> e \<in> set (dfs_path st)" using ok by (simp add: dfs_ok_def count_list_0_iff)
  moreover have "\<not> closes_cycle G e (dfs_path st)" using False by (auto simp: closes_cycle_def direct_tail_def dest: set_takeWhileD)
  ultimately show ?thesis using False by (auto simp: is_direct_cycle_def)
qed

lemma schedule_node_frame [simp]:
  "lbr_edge (schedule_node b st) = lbr_edge st" "dfs_path (schedule_node b st) = dfs_path st" "shadow_visited (schedule_node b st) = shadow_visited st"
  "shadow_blacklisted (schedule_node b st) = shadow_blacklisted st" "state_set (schedule_node b st) = state_set st"
  "window_shift (schedule_node b st) = window_shift st"
  by (simp_all add: schedule_node_def)

lemma store_frame [simp]:
  "lbr_edge (store_lbr_state st) = lbr_edge st" "dfs_path (store_lbr_state st) = dfs_path st" "shadow_visited (store_lbr_state st) = shadow_visited st"
  "shadow_blacklisted (store_lbr_state st) = shadow_blacklisted st" "window_shift (store_lbr_state st) = window_shift st"
  "search_queue (store_lbr_state st) = search_queue st" "shadow_bb (store_lbr_state st) = shadow_bb st"
  by (simp_all add: store_lbr_state_def)

lemma enter_frame [simp]:
  "dfs_path (enter_edge G w e st) = dfs_path st @ [e]" "window_shift (enter_edge G w e st) = window_shift st"
  "state_set (enter_edge G w e st) = state_set st" "shadow_blacklisted (enter_edge G w e st) = shadow_blacklisted st"
  "shadow_visited (enter_edge G w e st) = (shadow_visited st)(e := shadow_visited st e + 1)"
  "lbr_edge (enter_edge G w e st) = lbr_edge st @ recorded G [e]"
  by (simp_all add: enter_edge_def Let_def)

lemma enter_ok:
  assumes "dfs_ok G st" "e < length (edges G)" "\<not> closes_cycle G e (dfs_path st)" "dfs_path st = [] \<or> e \<in> set (sources G (last (dfs_path st)))"
  shows "dfs_ok G (enter_edge G w e st)" "lbr_edge (enter_edge G w e st) = recorded G (dfs_path st @ [e])"
  using assms by (auto simp: dfs_ok_def direct_tail_def closes_cycle_def fun_eq_iff successively_append_iff)

section \<open>What a search adds\<close>

text \<open>
  \<open>adds G w st st' S R\<close>: the walk is where it was, the states in \<open>S\<close> have been added, and
  the blocks in \<open>R\<close> have been scheduled if they were not and windows are still to be
  shifted.
\<close>

definition shifts :: "nat \<Rightarrow> nat \<Rightarrow> bool" where
  "shifts w k \<longleftrightarrow> 1 + k * (w - 1) < LBR_SIZE"

definition schedules :: "dfs_state \<Rightarrow> dfs_state \<Rightarrow> nat list \<Rightarrow> bool" where
  "schedules st st' q \<longleftrightarrow> search_queue st' = search_queue st @ q \<and> distinct q \<and> set q \<inter> dom (shadow_bb st) = {} \<and>
    shadow_bb st' = (\<lambda>b. if b \<in> set q then Some (window_shift st) else shadow_bb st b)"

definition adds :: "cfg \<Rightarrow> nat \<Rightarrow> dfs_state \<Rightarrow> dfs_state \<Rightarrow> lbr_state set \<Rightarrow> nat set \<Rightarrow> bool" where
  "adds G w st st' S R \<longleftrightarrow> dfs_ok G st' \<and> dfs_path st' = dfs_path st \<and> window_shift st' = window_shift st \<and>
    ss_func (state_set st') = ss_func (state_set st) \<and> set (ss_state (state_set st')) = set (ss_state (state_set st)) \<union> S \<and>
    (\<exists>q. schedules st st' q \<and> dom (shadow_bb st) \<union> set q = dom (shadow_bb st) \<union> (if shifts w (window_shift st) then R else {}))"

lemma schedules_dom: "schedules st st' q \<Longrightarrow> dom (shadow_bb st') = dom (shadow_bb st) \<union> set q"
  by (auto simp: schedules_def)

lemma schedules_trans:
  assumes "schedules st st1 q" "schedules st1 st2 q'" "window_shift st1 = window_shift st"
  shows "schedules st st2 (q @ q')"
  using schedules_dom [OF assms(1)] assms by (auto simp: schedules_def)

lemma adds_refl: "dfs_ok G st \<Longrightarrow> adds G w st st {} {}"
  by (auto simp: adds_def schedules_def intro!: exI [of _ "[]"])

lemma adds_trans:
  assumes a: "adds G w st st1 S R" and b: "adds G w st1 st2 S' R'"
  shows "adds G w st st2 (S \<union> S') (R \<union> R')"
proof -
  let ?d = "\<lambda>st. dom (shadow_bb st)" and ?r = "\<lambda>R. if shifts w (window_shift st) then R else {}"
  have w: "window_shift st1 = window_shift st" using a by (simp add: adds_def)
  obtain q where q: "schedules st st1 q" "?d st \<union> set q = ?d st \<union> ?r R" using a by (auto simp: adds_def)
  obtain q' where q': "schedules st1 st2 q'" "?d st1 \<union> set q' = ?d st1 \<union> ?r R'" using b w by (auto simp: adds_def)
  have "?d st \<union> set (q @ q') = ?d st1 \<union> set q'" using schedules_dom [OF q(1)] by auto
  also have "\<dots> = ?d st \<union> ?r (R \<union> R')" using schedules_dom [OF q(1)] q q' by auto
  finally show ?thesis using a b schedules_trans [OF q(1) q'(1) w] unfolding adds_def by (metis Un_assoc)
qed

text \<open>Entering, searching and leaving an edge.\<close>

lemma enter_schedules:
  fixes w e :: nat
  assumes ok: "dfs_ok G st"
  defines "X \<equiv> if shifts w (window_shift st) \<and> length (recorded G (dfs_path st @ [e])) = w then {e_target (edges G ! e)} else {}"
  shows "\<exists>q. schedules st (enter_edge G w e st) q \<and> dom (shadow_bb st) \<union> set q = dom (shadow_bb st) \<union> X"
proof (cases "X = {} \<or> shadow_bb st (e_target (edges G ! e)) \<noteq> None")
  case True
  then have "schedules st (enter_edge G w e st) [] \<and> X \<subseteq> dom (shadow_bb st)"
    using ok by (auto simp: X_def schedules_def enter_edge_def schedule_node_def dfs_ok_def shifts_def Let_def split: if_splits)
  then show ?thesis by (intro exI [of _ "[]"]) auto
next
  case False
  then have "schedules st (enter_edge G w e st) [e_target (edges G ! e)] \<and> X = {e_target (edges G ! e)}"
    using ok by (auto simp: X_def schedules_def enter_edge_def schedule_node_def dfs_ok_def shifts_def Let_def split: if_splits)
  then show ?thesis by (intro exI [of _ "[e_target (edges G ! e)]"]) auto
qed

lemma leave_frame [simp]:
  "window_shift (leave_edge G e st) = window_shift st" "state_set (leave_edge G e st) = state_set st"
  "search_queue (leave_edge G e st) = search_queue st" "shadow_bb (leave_edge G e st) = shadow_bb st"
  by (simp_all add: leave_edge_def Let_def)

lemma schedules_leave [simp]:
  "schedules st (leave_edge G e st') q = schedules st st' q" "schedules (leave_edge G e st) st' q = schedules st st' q"
  by (simp_all add: schedules_def cong: if_cong)

lemma leave_ok:
  assumes "dfs_ok G st" "dfs_ok G st'" "dfs_path st' = dfs_path st @ [e]"
  shows "dfs_ok G (leave_edge G e st')" "dfs_path (leave_edge G e st') = dfs_path st"
  using assms by (auto simp: leave_edge_def dfs_ok_def Let_def fun_eq_iff)

lemma leave_adds:
  assumes ok: "dfs_ok G st" and en: "dfs_ok G (enter_edge G w e st)" and a: "adds G w (enter_edge G w e st) st' S R"
  shows "adds G w st (leave_edge G e st') S ((if length (recorded G (dfs_path st @ [e])) = w then {e_target (edges G ! e)} else {}) \<union> R)"
proof -
  let ?en = "enter_edge G w e st"
  have "dfs_ok G st'" "dfs_path st' = dfs_path st @ [e]" using a by (simp_all add: adds_def)
  note lv = leave_ok [OF ok this] and le = leave_ok [OF ok en, of e, simplified]
  define X where "X = (if length (recorded G (dfs_path st @ [e])) = w then {e_target (edges G ! e)} else {})"
  have x: "(if shifts w (window_shift st) \<and> length (recorded G (dfs_path st @ [e])) = w then {e_target (edges G ! e)} else {}) =
      (if shifts w (window_shift st) then X else {})" by (simp add: X_def)
  have "adds G w st (leave_edge G e ?en) {} X"
    using le enter_schedules [OF ok, of w e, unfolded x] by (simp add: adds_def)
  moreover have "adds G w (leave_edge G e ?en) (leave_edge G e st') S R"
    using a lv le by (simp add: adds_def)
  ultimately have "adds G w st (leave_edge G e st') ({} \<union> S) (X \<union> R)" by (rule adds_trans)
  then show ?thesis by (simp add: X_def)
qed

text \<open>
  The edges still to go until the window is full: each indirect edge fills a slot, and
  between two of them no direct edge occurs twice.
\<close>

definition rank :: "cfg \<Rightarrow> nat \<Rightarrow> nat list \<Rightarrow> nat" where
  "rank G w p = (w - length (recorded G p)) * Suc (length (edges G)) + (length (edges G) - length (direct_tail G p))"

lemma direct_tail_length:
  assumes "dfs_ok G st"
  shows "length (direct_tail G (dfs_path st)) \<le> length (edges G)"
proof -
  have "set (direct_tail G (dfs_path st)) \<subseteq> {..<length (edges G)}"
    using assms by (auto simp: dfs_ok_def direct_tail_def dest!: set_takeWhileD)
  then have "card (set (direct_tail G (dfs_path st))) \<le> card {..<length (edges G)}" by (intro card_mono) auto
  then show ?thesis using assms by (simp add: dfs_ok_def distinct_card)
qed

lemma rank_decreases:
  assumes en: "dfs_ok G (enter_edge G w e st)" and room: "length (recorded G (dfs_path st)) < w"
  shows "rank G w (dfs_path st @ [e]) < rank G w (dfs_path st)"
proof (cases "edge_is_indirect (edges G ! e)")
  case True
  obtain d where d: "w - length (recorded G (dfs_path st)) = Suc d" using room by (metis Suc_diff_Suc)
  then have "w - Suc (length (recorded G (dfs_path st))) = d" by simp
  then show ?thesis using True d by (simp add: rank_def direct_tail_def)
next
  case False
  then show ?thesis using direct_tail_length [OF en] by (simp add: rank_def direct_tail_def)
qed

text \<open>What the search of an edge adds.\<close>

definition adds_walks :: "cfg \<Rightarrow> nat \<Rightarrow> nat list \<Rightarrow> nat \<Rightarrow> dfs_state \<Rightarrow> dfs_state \<Rightarrow> bool" where
  "adds_walks G w p f st st' \<longleftrightarrow> adds G w st st' (if closes_cycle G f p then {} else windows G w (p @ [f])) (if closes_cycle G f p then {} else full_ends G w (p @ [f]))"

lemma search_sources_exact:
  assumes inner: "\<And>f st. f \<in> set (sources G (last p)) \<Longrightarrow> dfs_ok G st \<Longrightarrow> dfs_path st = p \<Longrightarrow>
      \<exists>st'. search_inbound_edges n G addr w f st = Some st' \<and> adds_walks G w p f st st'"
    and room: "length (recorded G p) < w"
  shows "set fs \<subseteq> set (sources G (last p)) \<Longrightarrow> dfs_ok G st \<Longrightarrow> dfs_path st = p \<Longrightarrow>
    \<exists>st'. search_sources n G addr w fs st = Some st' \<and>
      adds G w st st' (\<Union>f \<in> {f \<in> set fs. walk_step G w p f}. windows G w (p @ [f])) (\<Union>f \<in> {f \<in> set fs. walk_step G w p f}. full_ends G w (p @ [f]))"
proof (induction fs arbitrary: st)
  case Nil
  then show ?case by (simp add: adds_refl)
next
  case (Cons f fs)
  show ?case
  proof (cases "edge_is_hidden (edges G ! f) \<or> \<not> edge_is_traversable G f p")
    case True
    then have "{f' \<in> set (f # fs). walk_step G w p f'} = {f' \<in> set fs. walk_step G w p f'}" by (auto simp: walk_step_def)
    then show ?thesis using Cons True by (simp only:) auto
  next
    case False
    obtain st1 where st1: "search_inbound_edges n G addr w f st = Some st1" "adds_walks G w p f st st1"
      using inner [of f st] Cons.prems by auto
    have ok1: "dfs_ok G st1" "dfs_path st1 = p" using st1(2) Cons.prems by (auto simp: adds_walks_def adds_def)
    obtain st2 where st2: "search_sources n G addr w fs st1 = Some st2"
        "adds G w st1 st2 (\<Union>f \<in> {f \<in> set fs. walk_step G w p f}. windows G w (p @ [f])) (\<Union>f \<in> {f \<in> set fs. walk_step G w p f}. full_ends G w (p @ [f]))"
      using Cons.IH [OF _ ok1] Cons.prems by auto
    have f: "walk_step G w p f \<longleftrightarrow> \<not> closes_cycle G f p" using False room Cons.prems by (auto simp: walk_step_def)
    have u: "(\<Union>f' \<in> {f' \<in> set (f # fs). walk_step G w p f'}. h f') =
        (if closes_cycle G f p then {} else h f) \<union> (\<Union>f' \<in> {f' \<in> set fs. walk_step G w p f'}. h f')" for h :: "nat \<Rightarrow> 'x set"
      using f by auto
    show ?thesis using adds_trans [OF st1(2) [unfolded adds_walks_def] st2(2)] st1(1) st2(1) False Cons.prems unfolding u by simp
  qed
qed

lemma sources_in_range:
  assumes "wf_cfg G" "e < length (edges G)" "f \<in> set (sources G e)"
  shows "f < length (edges G)"
  using wf_bb [OF assms(1)] wf_edge [OF assms(1,2)] assms(3) by (auto simp: edge_ok_def bb_ok_def)

lemma store_adds:
  assumes "dfs_ok G st"
  shows "adds G w st (store_lbr_state st) ({recorded G (dfs_path st)} - {[]}) {}"
  using assms store_state_set [of st]
  by (auto simp: adds_def dfs_ok_def schedules_def store_lbr_state_def append_state_def Let_def intro!: exI [of _ "[]"])

text \<open>Behind an edge: a complete walk is stored, any other is continued.\<close>

lemma search_behind_edge:
  assumes ok: "dfs_ok G st" and path: "q = dfs_path st" "last q = e" and room: "length (recorded G q) \<le> w"
    and inner: "\<And>f st. length (recorded G q) < w \<Longrightarrow> f \<in> set (sources G e) \<Longrightarrow> dfs_ok G st \<Longrightarrow> dfs_path st = q \<Longrightarrow>
      \<exists>st'. search_inbound_edges n G addr w f st = Some st' \<and> adds_walks G w q f st st'"
  shows "\<exists>st'. (if complete G w q then Some (store_lbr_state st) else search_sources n G addr w (sources G e) st) = Some st' \<and>
    adds G w st st' (windows G w q) (\<Union>f \<in> {f. walk_step G w q f}. full_ends G w (q @ [f]))"
proof (cases "complete G w q")
  case True
  have n: "{f. walk_step G w q f} = {}" using no_step_complete [OF True] by blast
  have "windows G w q = {recorded G q} - {[]}" unfolding windows_unfold [of G w q] n using True by simp
  then have "adds G w st (store_lbr_state st) (windows G w q) {}" using store_adds [OF ok, of w] path(1) by (simp only:)
  then show ?thesis unfolding n using True by simp
next
  case False
  then have r: "length (recorded G q) < w" using room by (simp add: complete_def)
  have steps: "{f \<in> set (sources G e). walk_step G w q f} = {f. walk_step G w q f}" using path by (auto simp: walk_step_def)
  have win: "windows G w q = (\<Union>f \<in> {f. walk_step G w q f}. windows G w (q @ [f]))" using False by (subst windows_unfold) simp
  note found = search_sources_exact [where fs = "sources G e", OF inner [OF r] r _ ok path(1) [symmetric], unfolded steps, folded win]
  show ?thesis using found path False by simp
qed

lemma search_inbound_edges_exact:
  assumes wf: "wf_cfg G" and sigs: "signatures_ok G addr"
  shows "dfs_ok G st \<Longrightarrow> e < length (edges G) \<Longrightarrow> dfs_path st = [] \<or> e \<in> set (sources G (last (dfs_path st))) \<Longrightarrow>
    length (recorded G (dfs_path st)) < w \<Longrightarrow> rank G w (dfs_path st) < n \<Longrightarrow>
    \<exists>st'. search_inbound_edges n G addr w e st = Some st' \<and> adds_walks G w (dfs_path st) e st st'"
proof (induction n arbitrary: st e)
  case 0
  then show ?case by simp
next
  case (Suc n)
  let ?p = "dfs_path st" and ?en = "enter_edge G w e st"
  obtain s where s: "(if shadow_visited st e \<noteq> 0 then is_direct_cycle G addr e ?p else Some 0) = Some s"
      "s \<noteq> 0 \<longleftrightarrow> closes_cycle G e ?p"
    using cycle_test [OF Suc.prems(1) sigs Suc.prems(3)] by blast
  have b: "\<not> shadow_blacklisted st e" using Suc.prems(1) by (simp add: dfs_ok_def)
  show ?case
  proof (cases "closes_cycle G e ?p")
    case True
    then show ?thesis using s b Suc.prems(1) by (auto simp: adds_walks_def adds_refl SEARCH_DEPTH_def)
  next
    case False
    note en = enter_ok [OF Suc.prems(1,2) False Suc.prems(3), of w]
    define q where "q = ?p @ [e]"
    have lq: "length (recorded G q) \<le> w" "last q = e" "q = dfs_path ?en" using Suc.prems(4) by (auto simp: q_def)
    have run: "search_inbound_edges (Suc n) G addr w e st =
        map_option (leave_edge G e) (if complete G w q then Some (store_lbr_state ?en) else search_sources n G addr w (sources G e) ?en)"
      using s False b en(2) by (simp add: SEARCH_DEPTH_def Let_def complete_def q_def)
    have inner: "\<exists>st'. search_inbound_edges n G addr w f st = Some st' \<and> adds_walks G w q f st st'"
      if "length (recorded G q) < w" "f \<in> set (sources G e)" "dfs_ok G st" "dfs_path st = q" for f st
      using Suc.IH [of st f] that sources_in_range [OF wf Suc.prems(2), of f] rank_decreases [OF en(1) Suc.prems(4)] Suc.prems(5)
      by (simp add: q_def)
    obtain st' where st': "(if complete G w q then Some (store_lbr_state ?en) else search_sources n G addr w (sources G e) ?en) = Some st'"
        "adds G w ?en st' (windows G w q) (\<Union>f \<in> {f. walk_step G w q f}. full_ends G w (q @ [f]))"
      using search_behind_edge [OF en(1) lq(3,2,1) inner] by blast
    have "adds G w st (leave_edge G e st') (windows G w q) (full_ends G w q)"
      using leave_adds [OF Suc.prems(1) en(1) st'(2)] unfolding full_ends_unfold [of G w q] lq(2) by (simp only: q_def)
    then show ?thesis using run st'(1) False by (simp add: adds_walks_def q_def)
  qed
qed

section \<open>The roots\<close>

text \<open>The states found at a block, and the blocks that follow it as roots.\<close>

definition states_at :: "cfg \<Rightarrow> nat \<Rightarrow> nat \<Rightarrow> lbr_state set" where
  "states_at G w b = (\<Union>e \<in> set (incoming_edges (bbs G ! b)). windows G w [e])"

definition next_roots :: "cfg \<Rightarrow> nat \<Rightarrow> nat \<Rightarrow> nat set" where
  "next_roots G w b = (\<Union>e \<in> set (incoming_edges (bbs G ! b)). full_ends G w [e])"

text \<open>The roots of the search after \<open>k\<close> shifts of the window.\<close>

fun roots :: "cfg \<Rightarrow> nat \<Rightarrow> nat set \<Rightarrow> nat \<Rightarrow> nat set" where
  "roots G w B 0 = B"
| "roots G w B (Suc k) = roots G w B k \<union> (if shifts w (Suc k) then \<Union> (next_roots G w ` roots G w B k) else {})"

lemma shifts_antimono: "shifts w k \<Longrightarrow> j \<le> k \<Longrightarrow> shifts w j"
  unfolding shifts_def by (meson add_left_mono le_less_trans mult_le_mono1)

lemma no_more_shifts: "1 < w \<Longrightarrow> LBR_SIZE \<le> k \<Longrightarrow> \<not> shifts w k"
  using mult_le_mono [of LBR_SIZE k 1 "w - 1"] by (cases "w - 1") (auto simp: shifts_def)

lemma roots_stable:
  assumes "roots G w B (Suc k) = roots G w B k"
  shows "roots G w B (k + j) = roots G w B k"
proof (induction j)
  case (Suc j)
  have "shifts w (Suc k)" if "shifts w (Suc (k + j))" using shifts_antimono [OF that, of "Suc k"] by simp
  then have "\<Union> (next_roots G w ` roots G w B k) \<subseteq> roots G w B k" if "shifts w (Suc (k + j))" using that assms by (simp add: subset_Un_eq Un_commute)
  then show ?case using Suc by auto
qed simp

lemma roots_end:
  assumes "1 < w" "roots G w B (Suc k) = roots G w B k"
  shows "roots G w B k = roots G w B LBR_SIZE"
proof (cases "k \<le> LBR_SIZE")
  case True
  then show ?thesis using roots_stable [OF assms(2), of "LBR_SIZE - k"] by simp
next
  case False
  have "roots G w B (Suc LBR_SIZE) = roots G w B LBR_SIZE" using no_more_shifts [OF assms(1), of "Suc LBR_SIZE"] by simp
  from roots_stable [OF this, of "k - LBR_SIZE"] show ?thesis using False by simp
qed

lemma search_root_exact:
  assumes wf: "wf_cfg G" and sigs: "signatures_ok G addr" and w: "0 < w" "w * Suc (length (edges G)) + length (edges G) < n"
  shows "set es \<subseteq> {..<length (edges G)} \<Longrightarrow> dfs_ok G st \<Longrightarrow> dfs_path st = [] \<Longrightarrow>
    \<exists>st'. search_root n G addr w es st = Some st' \<and> adds G w st st' (\<Union>e \<in> set es. windows G w [e]) (\<Union>e \<in> set es. full_ends G w [e])"
proof (induction es arbitrary: st)
  case Nil
  then show ?case by (simp add: adds_refl)
next
  case (Cons e es)
  have "\<not> closes_cycle G e []" by (simp add: closes_cycle_def direct_tail_def)
  then obtain st1 where st1: "search_inbound_edges n G addr w e st = Some st1" "adds G w st st1 (windows G w [e]) (full_ends G w [e])"
    using search_inbound_edges_exact [OF wf sigs Cons.prems(2), of e w n] Cons.prems w by (auto simp: adds_walks_def rank_def direct_tail_def)
  then have "dfs_ok G st1" "dfs_path st1 = []" using Cons.prems by (auto simp: adds_def)
  from Cons.IH [OF _ this] obtain st2 where st2: "search_root n G addr w es st1 = Some st2"
      "adds G w st1 st2 (\<Union>e \<in> set es. windows G w [e]) (\<Union>e \<in> set es. full_ends G w [e])"
    using Cons.prems by auto
  then show ?case using adds_trans [OF st1(2) st2(2)] st1(1) by simp
qed

lemma walks_range:
  assumes wf: "wf_cfg G" and walk: "walks G w p q"
  shows "last p < length (edges G) \<Longrightarrow> last q < length (edges G)"
  using walk
proof (induction rule: walks.induct)
  case (go p f q)
  then show ?case using sources_in_range [OF wf] by (auto simp: walk_step_def)
qed

lemma next_roots_range:
  assumes wf: "wf_cfg G" and b: "b < length (bbs G)"
  shows "next_roots G w b \<subseteq> {..<length (bbs G)}"
proof
  fix t assume "t \<in> next_roots G w b"
  then obtain e q where e: "e \<in> set (incoming_edges (bbs G ! b))" and q: "walks G w [e] q" "t = e_target (edges G ! last q)"
    by (auto simp: next_roots_def full_ends_def)
  have "e < length (edges G)" using wf_bb [OF wf b] e by (auto simp: bb_ok_def)
  then have "last q < length (edges G)" using walks_range [OF wf q(1)] by simp
  then show "t \<in> {..<length (bbs G)}" using wf_edge [OF wf] q(2) by (auto simp: edge_ok_def)
qed

text \<open>
  Between two turns of the loop: the blocks \<open>A\<close> at the front of the queue were scheduled
  after \<open>k\<close> shifts and the blocks \<open>B\<close> behind them after one more.  What is still missing
  of the next roots are those that follow a block of \<open>A\<close>.
\<close>

definition loop_ok :: "cfg \<Rightarrow> nat \<Rightarrow> nat set \<Rightarrow> nat \<Rightarrow> nat list \<Rightarrow> nat list \<Rightarrow> dfs_state \<Rightarrow> bool" where
  "loop_ok G w R k A B st \<longleftrightarrow> dfs_ok G st \<and> dfs_path st = [] \<and> search_queue st = A @ B \<and> distinct (A @ B) \<and>
    (\<forall>b \<in> set A. shadow_bb st b = Some k) \<and> (\<forall>b \<in> set B. shadow_bb st b = Some (Suc k)) \<and>
    dom (shadow_bb st) = roots G w R k \<union> set B \<and> dom (shadow_bb st) \<subseteq> {..<length (bbs G)} \<and>
    roots G w R (Suc k) = roots G w R k \<union> set B \<union> (if shifts w (Suc k) then \<Union> (next_roots G w ` set A) else {}) \<and>
    set (ss_state (state_set st)) = \<Union> (states_at G w ` (dom (shadow_bb st) - set (A @ B)))"

lemma loop_switch:
  assumes "loop_ok G w R k [] B st"
  shows "loop_ok G w R (Suc k) B [] st"
proof -
  let ?r = "roots G w R k" and ?N = "\<lambda>S. \<Union> (next_roots G w ` S)"
  have s: "roots G w R (Suc k) = ?r \<union> set B" using assms by (simp add: loop_ok_def)
  have "roots G w R (Suc (Suc k)) = roots G w R (Suc k) \<union> (if shifts w (Suc (Suc k)) then ?N (?r \<union> set B) else {})"
    unfolding roots.simps(2) [of G w R "Suc k"] unfolding s ..
  moreover have "?N ?r \<subseteq> roots G w R (Suc k)" if "shifts w (Suc (Suc k))"
    using shifts_antimono [OF that, of "Suc k"] by auto
  ultimately have "roots G w R (Suc (Suc k)) = roots G w R (Suc k) \<union> (if shifts w (Suc (Suc k)) then ?N (set B) else {})"
    by (auto split: if_splits)
  moreover have "dom (shadow_bb st) = roots G w R (Suc k)" using assms s by (simp add: loop_ok_def)
  ultimately show ?thesis using assms unfolding loop_ok_def by (auto simp del: roots.simps)
qed

definition todo :: "cfg \<Rightarrow> dfs_state \<Rightarrow> nat" where
  "todo G st = length (bbs G) - card (dom (shadow_bb st)) + length (search_queue st)"

lemma todo_decreases:
  assumes q: "schedules st0 st' q" "dom (shadow_bb st') \<subseteq> {..<length (bbs G)}" and st0: "search_queue st = b # search_queue st0" "shadow_bb st0 = shadow_bb st"
  shows "todo G st' < todo G st"
proof -
  have d: "dom (shadow_bb st') = dom (shadow_bb st) \<union> set q" using schedules_dom [OF q(1)] st0(2) by simp
  have fin: "finite (dom (shadow_bb st'))" using q(2) by (rule finite_subset) simp
  have "card (dom (shadow_bb st')) = card (dom (shadow_bb st)) + length q"
    using q(1) st0(2) fin unfolding d by (subst card_Un_disjoint) (auto simp: schedules_def distinct_card)
  moreover have "card (dom (shadow_bb st')) \<le> length (bbs G)" using card_mono [OF _ q(2)] by simp
  ultimately show ?thesis using q(1) st0(1) by (simp add: todo_def schedules_def)
qed

lemma loop_turn:
  assumes wf: "wf_cfg G" and sigs: "signatures_ok G addr" and w: "0 < w" "w * Suc (length (edges G)) + length (edges G) < n"
    and ok: "loop_ok G w R k (b # A) B st"
  defines "st0 \<equiv> st\<lparr>search_queue := A @ B, window_shift := Suc k\<rparr>"
  shows "\<exists>st' q. search_root n G addr w (incoming_edges (bbs G ! b)) st0 = Some st' \<and> loop_ok G w R k A (B @ q) st' \<and> todo G st' < todo G st \<and>
    ss_func (state_set st') = ss_func (state_set st)"
proof -
  have b: "b < length (bbs G)" using ok by (auto simp: loop_ok_def)
  have es: "set (incoming_edges (bbs G ! b)) \<subseteq> {..<length (edges G)}" using wf_bb [OF wf b] by (auto simp: bb_ok_def)
  have "dfs_ok G st" "dfs_path st = []" using ok by (simp_all add: loop_ok_def)
  then have ok0: "dfs_ok G st0" "dfs_path st0 = []" by (simp_all add: dfs_ok_def st0_def)
  obtain st' where st': "search_root n G addr w (incoming_edges (bbs G ! b)) st0 = Some st'" "adds G w st0 st' (states_at G w b) (next_roots G w b)"
    using search_root_exact [OF wf sigs w es ok0] unfolding states_at_def next_roots_def by blast
  let ?N = "\<lambda>S. if shifts w (Suc k) then S else {}" and ?d = "dom (shadow_bb st)"
  obtain q where q: "schedules st0 st' q" "?d \<union> set q = ?d \<union> ?N (next_roots G w b)"
    using st'(2) by (auto simp: adds_def st0_def)
  have d: "dom (shadow_bb st') = ?d \<union> set q" "set q \<inter> ?d = {}" using schedules_dom [OF q(1)] q(1) by (simp_all add: st0_def schedules_def)
  have range: "dom (shadow_bb st') \<subseteq> {..<length (bbs G)}"
    using d q(2) next_roots_range [OF wf b, of w] ok by (auto simp: loop_ok_def split: if_splits)
  have "roots G w R (Suc k) = ?d \<union> ?N (next_roots G w b) \<union> ?N (\<Union> (next_roots G w ` set A))"
    using ok unfolding loop_ok_def by auto
  then have roots: "roots G w R (Suc k) = roots G w R k \<union> set (B @ q) \<union> ?N (\<Union> (next_roots G w ` set A))"
    using ok unfolding q(2) [symmetric] by (auto simp: loop_ok_def)
  have AB: "distinct (b # A @ B)" "set (b # A @ B) \<subseteq> ?d" using ok by (auto simp: loop_ok_def)
  have "dom (shadow_bb st') - set (A @ B @ q) = insert b (?d - set (b # A @ B))" using d AB by auto
  then have states: "set (ss_state (state_set st')) = \<Union> (states_at G w ` (dom (shadow_bb st') - set (A @ B @ q)))"
    using st'(2) ok by (auto simp: adds_def st0_def loop_ok_def)
  have levels: "\<forall>c \<in> set A. shadow_bb st' c = Some k" "\<forall>c \<in> set (B @ q). shadow_bb st' c = Some (Suc k)"
    using q(1) ok AB(2) d(2) by (auto simp: schedules_def st0_def loop_ok_def)
  have dom': "dom (shadow_bb st') = roots G w R k \<union> set (B @ q)" using d(1) ok by (auto simp: loop_ok_def)
  have "search_queue st' = A @ B @ q" "distinct (A @ B @ q)" using q(1) AB d(2) by (auto simp: schedules_def st0_def)
  then have "loop_ok G w R k A (B @ q) st'" unfolding loop_ok_def using st'(2) ok0 roots states levels dom' range by (simp add: adds_def)
  then show ?thesis using st' todo_decreases [OF q(1) range, of st b] ok by (auto simp: adds_def st0_def loop_ok_def)
qed

lemma search_loop_exact:
  assumes wf: "wf_cfg G" and sigs: "signatures_ok G addr" and w: "1 < w" "w * Suc (length (edges G)) + length (edges G) < n"
  shows "loop_ok G w R k A B st \<Longrightarrow> \<exists>st'. search_loop n G addr w st = Some st' \<and> indexed (state_set st') \<and>
    ss_func (state_set st') = ss_func (state_set st) \<and> set (ss_state (state_set st')) = \<Union> (states_at G w ` roots G w R LBR_SIZE)"
proof (induction "todo G st" arbitrary: k A B st rule: less_induct)
  case less
  have turn: ?case if ok: "loop_ok G w R j (b # A') B' st" for j b A' B'
  proof -
    have q: "search_queue st = b # A' @ B'" "shadow_bb st b = Some j" using ok by (simp_all add: loop_ok_def)
    obtain st' q' where st': "search_root n G addr w (incoming_edges (bbs G ! b)) (st\<lparr>search_queue := A' @ B', window_shift := Suc j\<rparr>) = Some st'"
        "loop_ok G w R j A' (B' @ q') st'" "todo G st' < todo G st" "ss_func (state_set st') = ss_func (state_set st)"
      using loop_turn [OF wf sigs _ w(2) ok] w(1) by auto
    have "search_loop n G addr w st = search_loop n G addr w st'"
      using st'(1) q by (subst search_loop.simps) simp
    then show ?thesis using less(1) [OF st'(3,2)] st'(4) by simp
  qed
  consider b A' where "A = b # A'" | b B' where "A = []" "B = b # B'" | "A = []" "B = []" by (metis list.exhaust)
  then show ?case
  proof cases
    case 1
    then show ?thesis using turn less(2) by simp
  next
    case 2
    then show ?thesis using turn loop_switch [of G w R k B st] less(2) by simp
  next
    case 3
    have run: "search_loop n G addr w st = Some st" using less(2) 3 by (subst search_loop.simps) (simp add: loop_ok_def)
    have "roots G w R (Suc k) = roots G w R k" using less(2) 3 unfolding loop_ok_def by (simp del: roots.simps)
    from roots_end [OF w(1) this] have "dom (shadow_bb st) = roots G w R LBR_SIZE" using less(2) 3 by (simp add: loop_ok_def)
    moreover have "set (ss_state (state_set st)) = \<Union> (states_at G w ` dom (shadow_bb st))" using less(2) 3 by (simp add: loop_ok_def)
    moreover have "indexed (state_set st)" using less(2) by (simp add: loop_ok_def dfs_ok_def)
    ultimately show ?thesis using run by (simp only: option.inject) blast
  qed
qed

lemma schedule_entries:
  "distinct bs \<Longrightarrow> set bs \<inter> dom (shadow_bb st) = {} \<Longrightarrow>
    fold schedule_node bs st = st\<lparr>search_queue := search_queue st @ bs, shadow_bb := (\<lambda>b. if b \<in> set bs then Some (window_shift st) else shadow_bb st b)\<rparr>"
proof (induction bs arbitrary: st)
  case (Cons b bs)
  have b: "schedule_node b st = st\<lparr>search_queue := search_queue st @ [b], shadow_bb := (shadow_bb st)(b \<mapsto> window_shift st)\<rparr>"
    using Cons.prems by (auto simp: schedule_node_def)
  show ?case using Cons by (auto simp: b fun_eq_iff)
qed simp

lemma loop_start:
  assumes wf: "wf_cfg G" and f: "f < length (fns G)"
  defines "bs \<equiv> entry_points (fns G ! f)"
  shows "loop_ok G w (set bs) 0 bs [] (fold schedule_node bs (new_dfs f))"
proof -
  have bs: "distinct bs" "set bs \<subseteq> {..<length (bbs G)}"
    using wf_fn [OF wf f] by (auto simp: fn_ok_def below_def bs_def strict_sorted_iff)
  have "dom (\<lambda>b. if b \<in> set bs then Some 0 else None :: nat option) = set bs" by (auto split: if_splits)
  moreover have "fold schedule_node bs (new_dfs f) = (new_dfs f)\<lparr>search_queue := bs, shadow_bb := (\<lambda>b. if b \<in> set bs then Some 0 else None)\<rparr>"
    using schedule_entries [OF bs(1), of "new_dfs f"] by (simp add: new_dfs_def cong: if_cong)
  ultimately show ?thesis using bs
    by (simp add: new_dfs_def loop_ok_def dfs_ok_def direct_tail_def fun_eq_iff, simp add: new_state_set_def)
qed

section \<open>The enumeration is exact\<close>

definition dangerous :: "cfg \<Rightarrow> lbr_config \<Rightarrow> nat \<Rightarrow> bool" where
  "dangerous G c f \<longleftrightarrow> is_lib_dummy (fns G ! f) \<and> is_blacklisted (funname (fns G ! f)) c"

definition states_into :: "cfg \<Rightarrow> nat \<Rightarrow> nat \<Rightarrow> lbr_state set" where
  "states_into G w f = \<Union> (states_at G w ` roots G w (set (entry_points (fns G ! f))) LBR_SIZE)"

lemma get_func_lbr_states_exact:
  assumes wf: "wf_cfg G" and sigs: "signatures_ok G addr" and w: "1 < window_size c" "window_size c * Suc (length (edges G)) + length (edges G) < n"
    and f: "f < length (fns G)"
  shows "if dangerous G c f then \<exists>S. get_func_lbr_states n G addr c f smap = Some (smap @ [S]) \<and> ss_func S = f \<and>
      distinct (ss_state S) \<and> set (ss_state S) = states_into G (window_size c) f
    else get_func_lbr_states n G addr c f smap = Some smap"
proof -
  have "ss_func (fold append_state ss S) = ss_func S" for ss S by (induction ss arbitrary: S) (simp_all add: append_state_def Let_def)
  then have c: "ss_func (copy_state_set S) = ss_func S" for S by (simp add: copy_state_set_def new_state_set_def)
  have "ss_func (state_set (fold schedule_node bs st)) = ss_func (state_set st)" for bs st by (induction bs arbitrary: st) simp_all
  then show ?thesis using search_loop_exact [OF wf sigs w loop_start [OF wf f]] c
    by (auto simp: get_func_lbr_states_def dangerous_def states_into_def indexed_def new_dfs_def new_state_set_def)
qed

lemma get_lbr_states_exact:
  assumes wf: "wf_cfg G" and sigs: "signatures_ok G addr" and w: "1 < window_size c" "window_size c * Suc (length (edges G)) + length (edges G) < n"
  shows "\<forall>(a, f) \<in> set fs. f < length (fns G) \<Longrightarrow> \<exists>T. get_lbr_states n G addr c fs smap = Some (smap @ T) \<and>
    map ss_func T = filter (dangerous G c) (map snd fs) \<and>
    (\<forall>S \<in> set T. distinct (ss_state S) \<and> set (ss_state S) = states_into G (window_size c) (ss_func S))"
proof (induction fs arbitrary: smap)
  case (Cons af fs)
  obtain a f where af: "af = (a, f)" by force
  have "f < length (fns G)" using Cons.prems af by simp
  note one = get_func_lbr_states_exact [OF wf sigs w this, of smap]
  show ?case
  proof (cases "dangerous G c f")
    case True
    then obtain S where S: "get_func_lbr_states n G addr c f smap = Some (smap @ [S])" "ss_func S = f"
        "distinct (ss_state S) \<and> set (ss_state S) = states_into G (window_size c) f" using one by auto
    obtain T where "get_lbr_states n G addr c fs (smap @ [S]) = Some ((smap @ [S]) @ T)" "map ss_func T = filter (dangerous G c) (map snd fs)"
        "\<forall>S \<in> set T. distinct (ss_state S) \<and> set (ss_state S) = states_into G (window_size c) (ss_func S)"
      using Cons.IH [of "smap @ [S]"] Cons.prems by auto
    then show ?thesis using S True af by (intro exI [of _ "S # T"]) auto
  next
    case False
    then show ?thesis using one af Cons.IH [of smap] Cons.prems by simp
  qed
qed simp

text \<open>
  C7: The offline enumeration ends and is exact.  For every dangerous library function, in
  the order of the addresses, it yields one set without duplicates.  The set holds the recorded
  branches of exactly the complete backward walks from the function's entry points and,
  when the window is shorter than the LBR, from the blocks at which earlier windows were full.
\<close>
theorem lbr_states_exact:
  assumes wf: "wf_cfg G" and sigs: "signatures_ok G addr" and w: "set_window_size w c0 = Some c"
    and fuel: "w * Suc (length (edges G)) + length (edges G) < n"
  shows "\<exists>T. get_lbr_states n G addr c (addr2fn G) [] = Some T \<and>
    map ss_func T = filter (dangerous G c) (map snd (addr2fn G)) \<and>
    (\<forall>S \<in> set T. distinct (ss_state S) \<and>
      set (ss_state S) = (\<Union>b \<in> roots G w (set (entry_points (fns G ! ss_func S))) LBR_SIZE. states_at G w b))"
proof -
  have c: "1 < window_size c" "window_size c = w" using w by (auto simp: set_window_size_def split: if_splits)
  have "\<forall>(a, f) \<in> set (addr2fn G). f < length (fns G)" using wf by (auto simp: wf_cfg_def map_ok_def)
  from get_lbr_states_exact [OF wf sigs c(1) _ this, of n "[]"] show ?thesis using fuel c(2) by (auto simp: states_into_def)
qed

definition demo_system :: cfg where
  "demo_system = (mk_cfg ''demo'')\<lparr>
     edges := [mk_typed_edge True 0 1 arms_indirect_jmp, mk_typed_edge True 1 2 arms_direct_call],
     bbs := [demo_block 0x10 0x12 [] [0], demo_block 0x17 0x18 [0] [1], demo_block 0x20 0x22 [1] []],
     fns := [(mk_function 0x20 ''system'')\<lparr>is_lib_dummy := True, basic_blocks := [2], entry_points := [2]\<rparr>],
     addr2fn := [(0x20, 0)], start2bb := [(0x10, 0), (0x17, 1), (0x20, 2)]\<rparr>"

lemma demo_system_ok: "wf_cfg demo_system" "signatures_ok demo_system addr"
proof -
  show "wf_cfg demo_system"
    by (simp add: demo_system_def wf_cfg_def demo_defs All_less_Suc2 edge_ok_def bb_ok_def fn_ok_def below_def map_ok_def mk_function_def)
  have "\<not> direct_cycle demo_system es" for es
  proof
    assume c: "direct_cycle demo_system es"
    have "e = 1" if "e < length (edges demo_system)" "\<not> edge_is_indirect (edges demo_system ! e)" for e
      using that by (cases e) (auto simp: demo_system_def demo_defs edge_defs)
    then have "hd es = 1" "last es = 1" using c by (auto simp: direct_cycle_def)
    then show False using c by (simp add: direct_cycle_def demo_system_def demo_defs)
  qed
  then show "signatures_ok demo_system addr" by (simp add: signatures_ok_def)
qed

theorem lbr_states_exact_witness:
  "\<exists>c T. set_window_size 16 \<lparr>blacklist = default_blacklist, window_size = 0\<rparr> = Some c \<and>
    get_lbr_states 100 demo_system (\<lambda>e. word_of_nat e) c (addr2fn demo_system) [] = Some T \<and> map ss_func T = [0] \<and>
    (\<forall>S \<in> set T. distinct (ss_state S) \<and> set (ss_state S) = (\<Union>b \<in> roots demo_system 16 {2} LBR_SIZE. states_at demo_system 16 b))"
proof -
  obtain c where c: "set_window_size 16 \<lparr>blacklist = default_blacklist, window_size = 0\<rparr> = Some c" "blacklist c = default_blacklist"
    by (simp add: set_window_size_def LBR_SIZE_def WINDOW_SIZE_def)
  have d: "filter (dangerous demo_system c) (map snd (addr2fn demo_system)) = [0]"
    using c(2) by (simp add: dangerous_def demo_system_def is_blacklisted_def default_blacklist_def mk_function_def)
  have "entry_points (fns demo_system ! 0) = [2]" "length (edges demo_system) = 2" by (simp_all add: demo_system_def)
  then show ?thesis using lbr_states_exact [OF demo_system_ok c(1), of 100] c(1) unfolding d by (fastforce simp: map_eq_Cons_conv)
qed

end
