(* ===== verification/Lbr_Kstates.thy ===== *)
theory Lbr_Kstates
  imports Lbr_States
begin

text \<open>
  The tables of valid states for the kernel module (\<open>generate_lbr_kstates\<close> and
  \<open>add_dummy_kstates\<close> in \<open>src/dyninst-static/lbr_analysis.C\<close>).  The enumerated states of
  \<open>Lbr_States\<close> are freed of duplicates, grouped by the target of their newest branch and
  tagged.  How the structure gets into a file and back is in \<open>Paths_Memory\<close>.

  Allocation does not fail.  \<open>md4\<close> is the digest function.  A digest field that has not
  been computed is empty; \<open>hash_paths\<close> overwrites every one of them.
\<close>

section \<open>Digests of states\<close>

definition state_words :: "cfg \<Rightarrow> lbr_state \<Rightarrow> u64 list" where
  "state_words G s = concat (map (\<lambda>i. if i < length s then [state_source G s i, state_target G s i] else [0, 0]) [0..<LBR_SIZE])"

definition state_hash :: "(u64 list \<Rightarrow> u8 list) \<Rightarrow> cfg \<Rightarrow> lbr_state \<Rightarrow> u8 list" where
  "state_hash md4 G s = md4 (state_words G s)"

definition hex_digit :: "nat \<Rightarrow> char" where
  "hex_digit n = ''0123456789abcdef'' ! n"

definition bytes_to_hex :: "u8 list \<Rightarrow> string" where
  "bytes_to_hex b = concat (map (\<lambda>x. [hex_digit (unat x div 16), hex_digit (unat x mod 16)]) b)"

section \<open>Tables\<close>

definition set_addr_flags :: "cfg \<Rightarrow> u64 \<Rightarrow> u64" where
  "set_addr_flags G addr =
    (let f = find_function G addr;
         tagged = (if f \<noteq> None \<and> is_lib_dummy (fns G ! the f) then addr OR LIB_FLAG
                   else if addr_in_cfg G addr then if addr \<noteq> ADDRESS_TAKEN then addr OR TARG_FLAG else addr
                   else addr)
     in if f \<noteq> None \<and> is_main (fns G ! the f) then tagged OR MAIN_FLAG else tagged)"

text \<open>One state: the arrays are cleared and filled up to the length of the state.\<close>

definition kstate :: "cfg \<Rightarrow> lbr_state \<Rightarrow> lbr_valid_state" where
  "kstate G s =
    \<lparr>vs_from = map (\<lambda>j. if j < length s then set_addr_flags G (state_source G s j) else 0) [0..<WINDOW_SIZE],
     vs_to = map (\<lambda>j. if j < length s then set_addr_flags G (state_target G s j) else 0) [0..<WINDOW_SIZE], vs_hash = []\<rparr>"

definition set_kstates_map :: "cfg \<Rightarrow> u64 \<Rightarrow> lbr_state list \<Rightarrow> lbr_valid_state_map" where
  "set_kstates_map G a sset = \<lparr>vm_to = a, vm_state = map (kstate G) sset\<rparr>"

definition add_dummy_kstates :: "lbr_paths \<Rightarrow> lbr_paths" where
  "add_dummy_kstates P =
    P\<lparr>lp_state_map := lp_state_map P @
        [\<lparr>vm_to = 0, vm_state = [\<lparr>vs_from = replicate WINDOW_SIZE 0, vs_to = replicate WINDOW_SIZE 0, vs_hash = []\<rparr>]\<rparr>]\<rparr>"

text \<open>\<open>states_by_addr[to].push_back(s)\<close> on a map sorted by its keys.\<close>

fun push_at :: "u64 \<Rightarrow> 'a \<Rightarrow> (u64 \<times> 'a list) list \<Rightarrow> (u64 \<times> 'a list) list" where
  "push_at k x [] = [(k, [x])]"
| "push_at k x ((k', xs) # m) =
    (if k < k' then (k, [x]) # (k', xs) # m else if k = k' then (k', xs @ [x]) # m else (k', xs) # push_at k x m)"

definition group_state :: "(u64 list \<Rightarrow> u8 list) \<Rightarrow> cfg \<Rightarrow> lbr_state \<Rightarrow> string list \<times> (u64 \<times> lbr_state list) list \<Rightarrow>
    string list \<times> (u64 \<times> lbr_state list) list" where
  "group_state md4 G s = (\<lambda>(state_lookup, states_by_addr).
    let h = bytes_to_hex (state_hash md4 G s)
    in if h \<in> set state_lookup then (state_lookup, states_by_addr)
       else (h # state_lookup, push_at (state_target G s 0) s states_by_addr))"

text \<open>\<open>None\<close> is a failed assertion: a name that is too long, or an empty state.\<close>

definition generate_lbr_kstates :: "(u64 list \<Rightarrow> u8 list) \<Rightarrow> cfg \<Rightarrow> state_set list \<Rightarrow> lbr_paths option" where
  "generate_lbr_kstates md4 G smap =
    (if list_ex (\<lambda>S. MAX_FNAME_LENGTH \<le> length (funname (fns G ! ss_func S))) smap then None
     else if list_ex (\<lambda>S. list_ex (\<lambda>s. s = []) (ss_state S)) smap then None
     else
       let func = map (\<lambda>S. \<lparr>fptr = base_addr (fns G ! ss_func S), fname = funname (fns G ! ss_func S)\<rparr>) smap;
           at_funcs = filter (\<lambda>f. addr_taken (fns G ! f)) (map snd (addr2fn G));
           address_taken = map (\<lambda>f. set_addr_flags G (base_addr (fns G ! f))) at_funcs;
           (_, states_by_addr) = fold (group_state md4 G) (concat (map ss_state smap)) ([], []);
           kstates = \<lparr>lp_func = func, lp_address_taken = address_taken,
                      lp_state_map = map (\<lambda>(a, sset). set_kstates_map G a sset) states_by_addr\<rparr>
       in Some (hash_paths md4 (add_dummy_kstates kstates)))"

section \<open>Grouping\<close>

lemma hex_digit_inj: "i < 16 \<Longrightarrow> j < 16 \<Longrightarrow> hex_digit i = hex_digit j \<longleftrightarrow> i = j"
  unfolding hex_digit_def by (rule nth_eq_iff_index_eq) simp_all

lemma bytes_to_hex_inj: "bytes_to_hex b = bytes_to_hex c \<longleftrightarrow> b = c"
proof (induction b arbitrary: c)
  case Nil
  then show ?case by (cases c) (simp_all add: bytes_to_hex_def)
next
  case (Cons x b)
  show ?case
  proof (cases c)
    case c: (Cons y c')
    have byte: "unat z < 256" for z :: u8 using unsigned_less [of z] by simp
    have less: "unat z div 16 < 16" "unat z mod 16 < 16" for z :: u8 using byte [of z] by simp_all
    have "x = y" if "unat x div 16 = unat y div 16" "unat x mod 16 = unat y mod 16"
      using that by (metis div_mult_mod_eq word_unat_eq_iff)
    then show ?thesis using Cons.IH [of c'] less hex_digit_inj by (auto simp: c bytes_to_hex_def)
  qed (simp add: bytes_to_hex_def)
qed

lemma keys_push_at: "fst ` set (push_at k x m) = insert k (fst ` set m)"
  by (induction k x m rule: push_at.induct) auto

lemma sorted_push_at: "sorted_wrt (<) (map fst m) \<Longrightarrow> sorted_wrt (<) (map fst (push_at k x m))"
proof (induction k x m rule: push_at.induct)
  case (2 k x k' xs m)
  then show ?case using keys_push_at [of k x m] by (auto simp: image_iff)
qed simp

text \<open>The elements under a key.\<close>

definition under_key :: "(u64 \<times> 'a list) list \<Rightarrow> u64 \<Rightarrow> 'a set" where
  "under_key m a = (\<Union>(k, xs) \<in> set m. if k = a then set xs else {})"

lemma under_key_simps [simp]:
  "under_key [] a = {}" "under_key ((k, xs) # m) a = (if k = a then set xs else {}) \<union> under_key m a"
  by (auto simp: under_key_def)

lemma under_push_at [simp]: "under_key (push_at k x m) a = under_key m a \<union> (if a = k then {x} else {})"
proof (induction k x m rule: push_at.induct)
  case (2 k x k' xs m)
  then show ?case by (cases "k < k'"; cases "k = k'"; cases "k' = a"; cases "k = a") simp_all
qed simp

text \<open>
  After the loop over the states \<open>ss\<close>: the keys are sorted, no key is without a state,
  every entry is a state under its target, and every state has an entry with the same
  addresses, as long as no two different states collide.
\<close>

definition grouped :: "(u64 list \<Rightarrow> u8 list) \<Rightarrow> cfg \<Rightarrow> lbr_state set \<Rightarrow> string list \<times> (u64 \<times> lbr_state list) list \<Rightarrow> bool" where
  "grouped md4 G S = (\<lambda>(hs, m). set hs = (\<lambda>s. bytes_to_hex (state_hash md4 G s)) ` S \<and> sorted_wrt (<) (map fst m) \<and>
    (\<forall>(a, ss) \<in> set m. ss \<noteq> []) \<and> (\<forall>a. \<forall>s \<in> under_key m a. s \<in> S \<and> state_target G s 0 = a) \<and>
    (\<forall>s \<in> S. \<exists>t \<in> under_key m (state_target G s 0). state_words G t = state_words G s))"

lemma groupedD:
  assumes "grouped md4 G S (hs, m)"
  shows "set hs = (\<lambda>s. bytes_to_hex (state_hash md4 G s)) ` S" and "sorted_wrt (<) (map fst m)" and "\<forall>(a, ss) \<in> set m. ss \<noteq> []"
    and "\<forall>a. \<forall>s \<in> under_key m a. s \<in> S \<and> state_target G s 0 = a"
    and "\<forall>s \<in> S. \<exists>t \<in> under_key m (state_target G s 0). state_words G t = state_words G s"
proof -
  note c = assms [unfolded grouped_def prod.case]
  note c2 = c [THEN conjunct2]
  note c3 = c2 [THEN conjunct2]
  note c4 = c3 [THEN conjunct2]
  show "set hs = (\<lambda>s. bytes_to_hex (state_hash md4 G s)) ` S" by (rule c [THEN conjunct1])
  show "sorted_wrt (<) (map fst m)" by (rule c2 [THEN conjunct1])
  show "\<forall>(a, ss) \<in> set m. ss \<noteq> []" by (rule c3 [THEN conjunct1])
  show "\<forall>a. \<forall>s \<in> under_key m a. s \<in> S \<and> state_target G s 0 = a" by (rule c4 [THEN conjunct1])
  show "\<forall>s \<in> S. \<exists>t \<in> under_key m (state_target G s 0). state_words G t = state_words G s" by (rule c4 [THEN conjunct2])
qed

lemma words_target:
  assumes "s \<noteq> []" "t \<noteq> []" "state_words G s = state_words G t"
  shows "state_target G s 0 = state_target G t 0"
  using assms by (simp add: state_words_def LBR_SIZE_def upt_rec)

lemma push_at_nonempty: "\<forall>(a, ss) \<in> set m. ss \<noteq> [] \<Longrightarrow> \<forall>(a, ss) \<in> set (push_at k x m). ss \<noteq> []"
  by (induction k x m rule: push_at.induct) auto

lemma group_state_step:
  assumes g: "grouped md4 G S (hs, m)" and inj: "inj_on md4 (state_words G ` insert s S)" and ne: "[] \<notin> insert s S"
  shows "grouped md4 G (insert s S) (group_state md4 G s (hs, m))"
proof -
  let ?h = "\<lambda>s. bytes_to_hex (state_hash md4 G s)" and ?a = "state_target G s 0"
  note g = groupedD [OF g]
  show ?thesis
  proof (cases "?h s \<in> set hs")
    case True
    then obtain t where t: "t \<in> S" "state_hash md4 G t = state_hash md4 G s" unfolding g(1) by (auto simp: bytes_to_hex_inj)
    then have w: "state_words G t = state_words G s" using inj_onD [OF inj, of "state_words G t" "state_words G s"] by (simp add: state_hash_def)
    have "state_target G t 0 = ?a" using words_target [of t s] t(1) ne w by auto
    then have s: "\<exists>t' \<in> under_key m ?a. state_words G t' = state_words G s" using g(5) [rule_format, OF t(1)] w by simp
    have "group_state md4 G s (hs, m) = (hs, m)" using True by (simp add: group_state_def)
    moreover have "?h ` insert s S = ?h ` S" using True g(1) by (simp add: insert_absorb)
    moreover have "\<forall>a. \<forall>s' \<in> under_key m a. s' \<in> insert s S \<and> state_target G s' 0 = a" using g(4) by blast
    moreover have "\<forall>s' \<in> insert s S. \<exists>t \<in> under_key m (state_target G s' 0). state_words G t = state_words G s'" using g(5) s by blast
    ultimately show ?thesis using g(1-3) by (simp only: grouped_def prod.case)
  next
    case False
    then have e: "group_state md4 G s (hs, m) = (?h s # hs, push_at ?a s m)" by (simp add: group_state_def Let_def)
    have "\<exists>t \<in> under_key (push_at ?a s m) (state_target G s' 0). state_words G t = state_words G s'" if "s' \<in> insert s S" for s'
      using that g(5) by auto
    moreover have "s' \<in> insert s S \<and> state_target G s' 0 = a" if "s' \<in> under_key (push_at ?a s m) a" for s' a
      using that g(4) by (auto split: if_splits)
    ultimately show ?thesis using sorted_push_at [OF g(2)] push_at_nonempty [OF g(3)] g(1)
      unfolding e grouped_def prod.case
      by (intro conjI allI ballI) (simp_all del: under_push_at)
  qed
qed

lemma group_states:
  "grouped md4 G S hm \<Longrightarrow> inj_on md4 (state_words G ` (set ss \<union> S)) \<Longrightarrow> [] \<notin> set ss \<union> S \<Longrightarrow>
    grouped md4 G (set ss \<union> S) (fold (group_state md4 G) ss hm)"
proof (induction ss arbitrary: S hm)
  case (Cons s ss)
  have "grouped md4 G (insert s S) (group_state md4 G s (fst hm, snd hm))"
    using Cons.prems by (intro group_state_step) (auto elim: inj_on_subset)
  then show ?case using Cons.IH [of "insert s S"] Cons.prems by simp
qed simp

section \<open>The tables are exact\<close>

lemma concat_pairs:
  "length (concat (map (\<lambda>i. [f i, g i]) [0..<n])) = 2 * n \<and>
    (\<forall>j < n. concat (map (\<lambda>i. [f i, g i]) [0..<n]) ! (2 * j) = f j \<and> concat (map (\<lambda>i. [f i, g i]) [0..<n]) ! (2 * j + 1) = g j)"
  by (induction n) (auto simp: nth_append less_Suc_eq)

lemma words_pairs:
  "state_words G s = concat (map (\<lambda>i. [if i < length s then state_source G s i else 0, if i < length s then state_target G s i else 0]) [0..<LBR_SIZE])"
  unfolding state_words_def by (rule arg_cong [where f = concat], rule map_cong) simp_all

text \<open>As long as the address 0 has no tag, equal addresses give equal entries.\<close>

lemma words_kstate:
  assumes w: "state_words G s = state_words G t" and zero: "set_addr_flags G 0 = 0"
  shows "kstate G s = kstate G t"
proof -
  let ?f = "\<lambda>s i. if i < length s then state_source G s i else 0" and ?g = "\<lambda>s i. if i < length s then state_target G s i else 0"
  have word: "?f s j = state_words G s ! (2 * j)" "?g s j = state_words G s ! (2 * j + 1)" if "j < LBR_SIZE" for s j
  proof -
    note pair = concat_pairs [of "?f s" "?g s" LBR_SIZE, THEN conjunct2, rule_format, OF that]
    show "?f s j = state_words G s ! (2 * j)" unfolding words_pairs by (rule pair [THEN conjunct1, symmetric])
    show "?g s j = state_words G s ! (2 * j + 1)" unfolding words_pairs by (rule pair [THEN conjunct2, symmetric])
  qed
  have same: "?f s j = ?f t j" "?g s j = ?g t j" if "j \<in> set [0..<WINDOW_SIZE]" for j
  proof -
    have j: "j < LBR_SIZE" using that by (simp add: LBR_SIZE_def WINDOW_SIZE_def)
    show "?f s j = ?f t j" "?g s j = ?g t j" unfolding word [OF j] w by (rule refl)+
  qed
  have k: "kstate G s = \<lparr>vs_from = map (\<lambda>j. set_addr_flags G (?f s j)) [0..<WINDOW_SIZE],
      vs_to = map (\<lambda>j. set_addr_flags G (?g s j)) [0..<WINDOW_SIZE], vs_hash = []\<rparr>" for s
    unfolding kstate_def using zero by (simp only: if_distrib [of "set_addr_flags G"])
  have "map (\<lambda>j. set_addr_flags G (h s j)) [0..<WINDOW_SIZE] = map (\<lambda>j. set_addr_flags G (h t j)) [0..<WINDOW_SIZE]"
    if "\<And>j. j \<in> set [0..<WINDOW_SIZE] \<Longrightarrow> h s j = h t j" for h
    by (rule map_cong [OF refl]) (simp only: that)
  from this [of ?f, OF same(1)] this [of ?g, OF same(2)] show ?thesis unfolding k by (simp only:)
qed

text \<open>The states that a structure holds under an address, apart from the dummy at its end.\<close>

definition valid_states :: "lbr_paths \<Rightarrow> u64 \<Rightarrow> lbr_valid_state set" where
  "valid_states P a = (\<Union>m \<in> set (butlast (lp_state_map P)). if vm_to m = a then set (vm_state m) else {})"

abbreviation func_entries :: "cfg \<Rightarrow> nat list \<Rightarrow> lbr_function list" where
  "func_entries G \<equiv> map (\<lambda>f. \<lparr>fptr = base_addr (fns G ! f), fname = funname (fns G ! f)\<rparr>)"

lemma generate_result:
  assumes "\<forall>S \<in> set smap. length (funname (fns G ! ss_func S)) < MAX_FNAME_LENGTH" "\<forall>S \<in> set smap. [] \<notin> set (ss_state S)"
    and m: "fold (group_state md4 G) (concat (map ss_state smap)) ([], []) = (hs, m)"
  shows "\<exists>P. generate_lbr_kstates md4 G smap = Some P \<and> lp_func P = func_entries G (map ss_func smap) \<and>
    butlast (lp_state_map P) = map (\<lambda>(a, ss). \<lparr>vm_to = a, vm_state = map (\<lambda>s. hash_state md4 (kstate G s)) ss\<rparr>) m"
proof -
  have "\<not> list_ex (\<lambda>S. MAX_FNAME_LENGTH \<le> length (funname (fns G ! ss_func S))) smap" "\<not> list_ex (\<lambda>S. list_ex (\<lambda>s. s = []) (ss_state S)) smap"
    using assms(1,2) by (auto simp: list_ex_iff not_le)
  then show ?thesis
    unfolding generate_lbr_kstates_def m
    by (simp add: hash_paths_def add_dummy_kstates_def set_kstates_map_def split_beta comp_def)
qed

lemma valid_states_under:
  assumes "butlast (lp_state_map P) = map (\<lambda>(a, ss). \<lparr>vm_to = a, vm_state = map h ss\<rparr>) m"
  shows "valid_states P a = h ` under_key m a"
proof -
  have "(\<Union>x \<in> set (map (\<lambda>(a, ss). \<lparr>vm_to = a, vm_state = map h ss\<rparr>) m). if vm_to x = a then set (vm_state x) else {}) = h ` under_key m a"
  proof (induction m)
    case (Cons x m)
    show ?case
    proof (cases x)
      case (Pair k ss)
      then show ?thesis using Cons.IH by (cases "k = a") (simp_all add: image_Un)
    qed
  qed simp
  then show ?thesis unfolding valid_states_def assms .
qed

lemma generate_exact:
  assumes names: "\<forall>S \<in> set smap. length (funname (fns G ! ss_func S)) < MAX_FNAME_LENGTH"
    and ne: "[] \<notin> A" and A: "A = (\<Union>S \<in> set smap. set (ss_state S))" and inj: "inj_on md4 (state_words G ` A)" and zero: "set_addr_flags G 0 = 0"
  shows "\<exists>P. generate_lbr_kstates md4 G smap = Some P \<and> sorted_wrt (<) (map vm_to (butlast (lp_state_map P))) \<and>
    lp_func P = func_entries G (map ss_func smap) \<and>
    (\<forall>a. valid_states P a = (\<lambda>s. hash_state md4 (kstate G s)) ` {s \<in> A. state_target G s 0 = a})"
proof -
  let ?ss = "concat (map ss_state smap)"
  obtain hs m where r: "fold (group_state md4 G) ?ss ([], []) = (hs, m)" by force
  have eA: "set ?ss \<union> {} = A" using A by simp
  have "grouped md4 G {} ([], [])" by (simp add: grouped_def)
  from group_states [OF this, of ?ss, unfolded eA r, OF inj ne] have gr: "grouped md4 G A (hs, m)" .
  note g = groupedD [OF gr]
  obtain P where P: "generate_lbr_kstates md4 G smap = Some P" "lp_func P = func_entries G (map ss_func smap)"
      "butlast (lp_state_map P) = map (\<lambda>(a, ss). \<lparr>vm_to = a, vm_state = map (\<lambda>s. hash_state md4 (kstate G s)) ss\<rparr>) m"
    using generate_result [OF names _ r] ne A by blast
  have "map vm_to (butlast (lp_state_map P)) = map fst m" unfolding P(3) by (simp add: split_beta)
  moreover have "valid_states P a = (\<lambda>s. hash_state md4 (kstate G s)) ` {s \<in> A. state_target G s 0 = a}" for a
  proof -
    have "kstate G ` under_key m a = kstate G ` {s \<in> A. state_target G s 0 = a}"
    proof
      show "kstate G ` under_key m a \<subseteq> kstate G ` {s \<in> A. state_target G s 0 = a}" using g(4) by blast
      show "kstate G ` {s \<in> A. state_target G s 0 = a} \<subseteq> kstate G ` under_key m a"
      proof
        fix x assume "x \<in> kstate G ` {s \<in> A. state_target G s 0 = a}"
        then obtain s where s: "s \<in> A" "state_target G s 0 = a" "x = kstate G s" by blast
        then obtain t where "t \<in> under_key m a" "state_words G t = state_words G s" using g(5) by blast
        then show "x \<in> kstate G ` under_key m a" using words_kstate [OF _ zero, of t s] s(3) by (metis imageI)
      qed
    qed
    then show ?thesis unfolding valid_states_under [OF P(3)] by (metis (no_types) image_image)
  qed
  ultimately show ?thesis using P(1,2) g(2) by simp
qed

lemma states_nonempty [simp]: "[] \<notin> states_into G w f"
  by (auto simp: states_into_def states_at_def windows_def)

lemma default_names: "f \<in> set default_blacklist \<Longrightarrow> length f < MAX_FNAME_LENGTH"
  by (auto simp: default_blacklist_def MAX_FNAME_LENGTH_def)


text \<open>The only state of the example is the indirect jump.\<close>

lemma demo_system_walks:
  assumes "walks demo_system 16 [Suc 0] q"
  shows "q = [Suc 0] \<or> q = [Suc 0, 0]"
proof -
  have s: "sources demo_system (Suc 0) = [0]" "sources demo_system 0 = []" by (simp_all add: demo_system_def demo_defs)
  have "q = [Suc 0, 0]" if "walks demo_system 16 [Suc 0, 0] q"
    using that s walks_iff [of demo_system 16 "[Suc 0, 0]" q] by (auto simp: walk_step_def)
  then show ?thesis using assms s walks_iff [of demo_system 16 "[Suc 0]" q] by (auto simp: walk_step_def)
qed

lemma demo_system_states: "states_into demo_system 16 0 \<subseteq> {[0]}"
proof -
  have e: "entry_points (fns demo_system ! 0) = [2]" "incoming_edges (bbs demo_system ! 2) = [Suc 0]" by (simp_all add: demo_system_def demo_defs)
  have i: "edge_is_indirect (edges demo_system ! 0)" "\<not> edge_is_indirect (edges demo_system ! Suc 0)"
    by (simp_all add: demo_system_def demo_defs edge_defs)
  have "next_roots demo_system 16 2 = {}" using i by (auto simp: next_roots_def e full_ends_def dest!: demo_system_walks)
  then have "roots demo_system 16 {2} k = {2}" for k by (induction k) simp_all
  moreover have "windows demo_system 16 [Suc 0] \<subseteq> {[0]}" using i by (auto simp: windows_def dest!: demo_system_walks)
  ultimately show ?thesis by (simp add: states_into_def states_at_def e)
qed


end
