(* ===== verification/Spec2Isabelle.thy ===== *)
theory Spec2Isabelle
  imports Armor_Hooks Wrapper_Start Paths_Memory Address_Taken Lbr_Kstates
begin

text \<open>
  PathArmor is a context-sensitive control-flow integrity system.  The processor records
  the last sixteen branches of the selected kinds in its Last Branch Record (LBR).  Before a
  dangerous system call takes effect, the recorded branches must be a path of the
  program's control-flow graph.

  \<^bold>\<open>The parts and how they interact.\<close>
  The kernel module (\<open>src/lkm\<close>) gives every supervised task an LBR of its own, hooks signals,
  task creation and the dangerous system calls, and asks for a verdict.  A wrapper library
  (\<open>src/shared\<close>) is preloaded into the target: it starts the supervision and switches the
  recording off during library calls and on again for callbacks.  The analyzer
  (\<open>src/dyninst-static\<close>) builds the graph from what Dyninst parsed; as a daemon it fetches
  requests from the module, searches the graph and answers; offline it enumerates
  all states that lead to a dangerous function.  The three talk through the ioctls of
  \<open>/dev/armor\<close> and share the structures of \<open>src/include/patharmor\<close>.

  \<^bold>\<open>The kernel module.\<close>
  \<^item> \<open>Lbr_Msr\<close>: the registers of a CPU and the operations of \<open>lbr.c\<close> on them; the supervision bits of a task.
  \<^item> \<open>Lbr_Stack\<close>: the array stacks \<open>stack_t\<close> and \<open>stack_lbr_t\<close>, both interpretations of the
    locale \<open>bounded_lifo\<close>.
  \<^item> \<open>Kernel_State\<close>: the globals of the module and what it uses of tasks and CPUs, the record \<open>kernel\<close>.
  \<^item> \<open>Lbr_Cache\<close>: \<open>save_lbr\<close>, \<open>restore_lbr\<close> and the preemption hooks.  A context switch is
    invisible to the task: in the transition system of several CPUs every task keeps its LBR.
  \<^item> \<open>Wrapper_Cache\<close>: the tables of pending library calls, callbacks and signals.  Each entry
    refines a bounded stack per task (\<open>entry_lifo\<close>); callbacks and signals give the LBR back; a full
    table is shown to damage entry 0.
  \<^item> \<open>Validate\<close>: \<open>hash_lbr\<close>, \<open>validate_lbr\<close>, the cache of digests and the protocol with the daemon,
    also as the interleaved step relation \<open>jit_step\<close>: with a daemon that answers in time the
    verdict is the one for the task's branches; timeouts and late answers have theorems of their own.
  \<^item> \<open>Armor_Hooks\<close>: the hooks of \<open>armor.c\<close>: fork inherits, exit cleans up, the dangerous calls are validated.
  \<^item> \<open>Armor_Ioctl\<close>: \<open>armor_open\<close>, \<open>armor_close\<close> and \<open>armor_ioctl\<close> with every command and error path.
  \<^item> \<open>Armor_Module\<close>: \<open>intercept.c\<close>, \<open>syscall-handler.S\<close> and the registration ladder: the patched
    code leads to the hook, and loading succeeds completely or leaves nothing behind.

  \<^bold>\<open>The wrapper library.\<close>
  \<^item> \<open>Wrapper_Stubs\<close>: \<open>libenter.S\<close> and \<open>callback.S\<close> on registers and stack cells, with system calls
    that are \<open>armor_ioctl\<close>.  Library calls and callbacks are transparent to both sides; the
    thread stub leaves the stack pointer eight bytes too low.
  \<^item> \<open>Wrapper_Start\<close>: \<open>initialize_armor\<close>, \<open>armor_main\<close> and \<open>pthread_create\<close> of \<open>wrappers.c\<close>: at the call of
    \<open>main\<close> the task is supervised, with an empty LBR.

  \<^bold>\<open>Shared structures.\<close>
  \<^item> \<open>Lbr_Paths\<close> and \<open>Paths_Memory\<close>: tagged addresses, relocation of the valid paths at load time, and
    their serialisation into memory and a file and back (\<open>lbr-state.h\<close>).

  \<^bold>\<open>The analyzer.\<close>
  \<^item> \<open>Arms_Cfg\<close>, \<open>Cfg_Invariant\<close>, \<open>Cfg_Build\<close>: the graph with its operations, the invariant \<open>wf_cfg\<close>
    that all of them keep, the import of a Dyninst parse and the re-parse: complete, and never losing an edge.
  \<^item> \<open>Cfg_Simplify\<close>, \<open>Cfg_Dummies\<close>: collapsing of functions keeps the recordable traces; the
    edges that stand for the loader and for callbacks.
  \<^item> \<open>Jit_Search\<close>, \<open>Jit_Validate\<close>: the path search (sound, terminating, and complete for LBRs without
    returns after their first entry), and the validation around it.
  \<^item> \<open>Jit_Daemon\<close>: \<open>preprocess_cfg\<close>, set-up and loop of the daemon over the ioctls of the module.
  \<^item> \<open>Lbr_States\<close>, \<open>Lbr_Kstates\<close>: the offline enumeration, which is exact, and its conversion into the tables
    of the module.
  \<^item> \<open>Address_Taken\<close>: the policies of \<open>address_taken_parser.C\<close>.

  This theory joins the halves: what a verdict of the daemon means for the branches in the
  registers of the task that asked.  \<open>PA_Prelude\<close> holds the shared types and lemmas.

  \<^bold>\<open>Conventions.\<close>
  Machine integers are words of their width.  C++ objects are positions in lists that
  only grow.  A failed assertion, a null dereference, an access outside an array or a call
  that does not return is a value of the result type (\<open>None\<close>, \<open>Faults\<close>, \<open>Sleeps\<close>, \<open>Broken\<close>, \<open>Stuck\<close>).  What
  is outside the repository is a parameter: Dyninst's parse results, the digest, the
  answers of the kernel and of the C library, user memory.

  \<^bold>\<open>Bounds and fuel.\<close>
  \<open>jit_path_exists\<close> takes fuel; \<open>LBR_SIZE\<close> times the number of edges, plus one, is enough, because an edge is
  visited at most \<open>LBR_SIZE\<close> times on a path.  \<open>search_inbound_edges\<close> takes fuel; a window of \<open>w\<close> branches over \<open>n\<close>
  edges needs more than \<open>w * (n + 1) + n\<close>, because between two recorded branches no direct edge repeats;
  this assumes that no cycle has the signature 0, with which the source marks \<open>no cycle\<close>.
  \<open>search_loop\<close> and the breadth-first search of \<open>collapse_function\<close> are shown to end.

  \<^bold>\<open>Not modelled.\<close>
  Output and statistics, \<open>cmp_lbr_kstates\<close>, \<open>compare_edges\<close> and \<open>dump_lbr_states.c\<close> only print.  The
  instrumentation pass (\<open>src/dyninst-pass\<close>, \<open>src/di-opt\<close>) and the address lister (\<open>src/at\<close>) are sequences
  of calls of Dyninst and DynamoRIO, whose sources are third-party code.  The BPatch import of
  \<open>arms_dyninst_cfg.c\<close>, \<open>link_dummy_shlib_block_to_plt\<close> and \<open>break_direct_cycle\<close> are not called.  Memory
  management (\<open>lbr_free_paths\<close>, destructors), the text files \<open>read_indexes\<close> scans, \<open>__libc_start_main\<close> (one call
  through \<open>dlsym\<close>), TLB maintenance and the sysctl table are left out.
\<close>

section \<open>From the branches of a task to a path of the program\<close>

text \<open>
  C1: What a validation means, through both halves of the system.  Let the daemon have
  served any number of requests since its set-up.  A task asks for the validation of
  branches whose digest is not cached, and the daemon completes its turn.  Then the
  daemon analyzed the branches in the task's own registers, and the kernel counts that
  verdict, stores the digest and finds both semaphores empty again.  If the verdict
  is valid, then every branch that is not skipped is an edge of the daemon's graph, in
  order, and the edges lie on a path of that graph; the graph is well formed and an
  extension of the one the daemon started with.
\<close>

theorem validation_end_to_end:
  assumes start: "wf_cfg (jd_cfg d0)" "\<forall>E \<in> insert D (snd ` set ts). inputs_ok (daemon_inputs E d0)"
    and served: "daemon_loop ts d0 k0 = Continue d k00"
    and req: "validate_request J k = (k1, Some h)" and sems: "jit_work_cond k = 0" "jit_result_cond k = 0"
    and turn: "daemon_turn D d k1 = Continue d' k2" and answers: "daemon J k1 = k2"
  defines "lbr \<equiv> get_lbr (my_msrs k) (stack_lbr J)" and "k' \<equiv> validate_lbr J k" and "offs \<equiv> jd_offsets d0" and "G \<equiv> jd_cfg d'"
    and "ens \<equiv> lbr_entries (patch_simples (daemon_inputs D d0)
      (snd (remove_lib_enter_edges (o_armor_lib_enter (jd_offsets d0)) (get_lbr (my_msrs k) (stack_lbr J)))))"
  shows "\<exists>v. jit_validate_lbr (de_fuel D) (daemon_inputs D d0) (jd_last_lib_call d) (jd_cfg d) lbr = Some (v, G, jd_last_lib_call d') \<and>
    st_jit_hits (stats k') = st_jit_hits (stats k) + (if v = 1 then 1 else 0) \<and>
    st_jit_misses (stats k') = st_jit_misses (stats k) + (if v = 0 then 1 else 0) \<and>
    jit_cache k' = jit_cache_store (hash_lbr J lbr) (jit_cache k) \<and> \<not> disable_jit k' \<and>
    jit_work_cond k' = 0 \<and> jit_result_cond k' = 0 \<and> wf_cfg G \<and> extends (jd_cfg d0) G \<and>
    (v = 1 \<longrightarrow> (\<exists>es. list_all2 (matches G offs) es (map ((!) ens) (filter (\<lambda>i. \<not> entry_skipped offs ens i) [0..<LBR_SIZE])) \<and>
       (es \<noteq> [] \<longrightarrow> reaches G (e_target (edges G ! hd es)) (tl es))))"
proof -
  have "\<forall>t \<in> set ts. inputs_ok (daemon_inputs (snd t) d0)" using start(2) by auto
  note L = daemon_loop_keeps [OF start(1) this served]
  have kd: "keeps (jd_cfg d0) (jd_cfg d)" and i: "daemon_inputs D d = daemon_inputs D d0" using L by blast+
  have ok: "inputs_ok (daemon_inputs D d0)" using start(2) by simp
  obtain k3 l v where g: "get_jit_work k1 = Some (k3, l)" and k2: "k2 = put_jit_work (word_of_nat v) k3"
    and v: "jit_validate_lbr (de_fuel D) (daemon_inputs D d0) (jd_last_lib_call d) (jd_cfg d) l = Some (v, G, jd_last_lib_call d')"
    using daemon_turn_Continue [OF turn] unfolding i G_def by blast
  have l: "l = lbr" using get_jit_work_Some(1) [OF g] validate_request_Some(4) [OF req] by (simp add: lbr_def)
  have kv: "keeps (jd_cfg d) G \<and> v \<in> {0, 1, 2}" using jit_validate_keeps [OF keeps_wf [OF kd] ok v] .
  then have kG: "keeps (jd_cfg d0) G" using keeps_trans [OF kd] by blast
  have offs: "ji_offsets (daemon_inputs D d0) = offs" by (simp add: offs_def daemon_inputs_def)
  have path: "\<exists>es. list_all2 (matches G offs) es (map ((!) ens) (filter (\<lambda>i. \<not> entry_skipped offs ens i) [0..<LBR_SIZE])) \<and>
       (es \<noteq> [] \<longrightarrow> reaches G (e_target (edges G ! hd es)) (tl es))" if "v = 1"
    using jit_validate_sound [OF keeps_wf [OF kd] ok v [unfolded that l]] unfolding offs ens_def lbr_def offs_def by blast
  have eff: "st_jit_hits (stats k') = st_jit_hits (stats k) + (if v = 1 then 1 else 0) \<and>
      st_jit_misses (stats k') = st_jit_misses (stats k) + (if v = 0 then 1 else 0) \<and>
      jit_cache k' = jit_cache_store (hash_lbr J lbr) (jit_cache k) \<and> \<not> disable_jit k' \<and>
      jit_work_cond k' = 0 \<and> jit_result_cond k' = 0"
    unfolding k'_def lbr_def by (rule answered_validation [OF req sems g]) (use answers k2 kv in simp_all)
  show ?thesis using v l eff kG path by (auto simp: keeps_def)
qed

lemma demo_target_lbr: "get_lbr (my_msrs (demo_target p)) (stack_lbr (demo_env A)) = demo_lbr"
proof -
  have "LBR_FROM 0 = 0" "LBR_FROM 0x20 = 0x20" "LBR_FROM 0x10 = 0x10" by code_simp+
  then have "wf_lbr demo_lbr" "map LBR_FROM (from_regs demo_lbr) = from_regs demo_lbr"
    by (simp_all add: demo_lbr_def zero_lbr_def wf_lbr_def LBR_ENTRIES_def eval_nat_numeral)
  moreover have "zero_lbr\<lparr>lbr_task := lbr_task demo_lbr\<rparr> = zero_lbr" by (simp add: demo_lbr_def zero_lbr_def)
  ultimately have "get_lbr (put_lbr demo_lbr (\<lambda>_. 0)) zero_lbr = demo_lbr"
    using get_put_id [of demo_lbr "\<lambda>_. 0" zero_lbr] by metis
  then show ?thesis by (simp add: demo_target_def demo_env_def)
qed

lemma demo_daemon_inputs: "daemon_inputs demo_daemon_env demo_daemon = demo_inputs"
  by (simp add: daemon_inputs_def demo_daemon_env_def demo_daemon_def demo_inputs_def)

lemma demo_turn:
  assumes "validate_request (demo_env A) (demo_target 0x100) = (k1, Some h)"
  shows "\<exists>d' k2. daemon_turn demo_daemon_env demo_daemon k1 = Continue d' k2 \<and> jd_cfg d' = demo_cfg"
proof -
  let ?k2 = "k1\<lparr>jit_work_cond := jit_work_cond k1 - 1\<rparr>"
  note S = validate_request_Some [OF assms]
  have t: "plt_got_copy k1 = plt_got_copy (demo_target 0x100)" using demo_target_request [of "demo_env A" "0x100"] assms by auto
  have w: "ioctl demo_daemon_env ARMOR_IOC_GET_JIT_WORK a k1 = Continue [(a, ULbr demo_lbr)] ?k2" for a
    using daemon_gets_work [OF demo_daemon_env_ok _ S(4)] S(5) by (simp add: demo_target_lbr)
  have "pull demo_daemon_env ARMOR_IOC_PULL_PLTS ar [0] ?k2 = Continue [0x100] ?k2"
    "pull demo_daemon_env ARMOR_IOC_PULL_GOTS ar [0] ?k2 = Continue [0x200] ?k2" for ar
    using pull_same [OF demo_daemon_env_ok] t by (simp_all add: demo_target_def)
  moreover have "jd_plts_again demo_daemon = [0]" "jd_gots_again demo_daemon = [0]" "jd_plts demo_daemon = [0x100]" "jd_gots demo_daemon = [0x200]"
    "jd_last_lib_call demo_daemon = 0" "jd_cfg demo_daemon = demo_cfg" by (simp_all add: demo_daemon_def)
  ultimately show ?thesis by (simp add: daemon_turn_def w demo_daemon_inputs demo_validates)
qed

theorem validation_end_to_end_witness:
  "\<exists>J k1 h d' k2. validate_request J (demo_target 0x100) = (k1, Some h) \<and> daemon_turn demo_daemon_env demo_daemon k1 = Continue d' k2 \<and>
     st_jit_hits (stats (validate_lbr J (demo_target 0x100))) = 1 \<and> wf_cfg (jd_cfg d')"
proof -
  obtain k1 h where v: "validate_request (demo_env (\<lambda>_. 1)) (demo_target 0x100) = (k1, Some h)" using demo_target_request by blast
  obtain d' k2 where t: "daemon_turn demo_daemon_env demo_daemon k1 = Continue d' k2" "jd_cfg d' = demo_cfg" using demo_turn [OF v] by blast
  let ?J = "(demo_env (\<lambda>_. 1))\<lparr>daemon := \<lambda>_. k2\<rparr>"
  have v': "validate_request ?J (demo_target 0x100) = (k1, Some h)" using v by simp
  have "wf_cfg (jd_cfg demo_daemon)" "\<forall>E \<in> insert demo_daemon_env (snd ` set []). inputs_ok (daemon_inputs E demo_daemon)"
    "daemon_loop [] demo_daemon boot_kernel = Continue demo_daemon boot_kernel" "daemon ?J k1 = k2"
    using wf_demo_cfg demo_inputs_ok by (simp_all add: demo_daemon_inputs) (simp add: demo_daemon_def)
  note e = validation_end_to_end [OF this(1,2,3) v' demo_target_simps(2,1) t(1) this(4)]
  have "get_lbr (my_msrs (demo_target 0x100)) (stack_lbr ?J) = demo_lbr" using demo_target_lbr by simp
  moreover have "jd_last_lib_call demo_daemon = 0" "jd_cfg demo_daemon = demo_cfg" "stats (demo_target 0x100) = zero_stats"
    by (simp_all add: demo_daemon_def demo_target_def boot_kernel_def)
  ultimately have "st_jit_hits (stats (validate_lbr ?J (demo_target 0x100))) = 1 \<and> wf_cfg (jd_cfg d')"
    using e demo_validates by (auto simp: demo_daemon_inputs zero_stats_def)
  then show ?thesis using v' t(1) by blast
qed

end
